(* ===== verification/Prelude.thy ===== *)
theory Prelude
  imports Main "HOL-Library.Word" "HOL-Library.Signed_Division" "HOL-Library.Multiset"
begin

text \<open>
  Shared vocabulary of the development: the machine integers of the Rust sources, the outcome of
  a fallible operation, the vector and hash-map operations the sources call, and the generic
  lemmas about them.

  \<^item> \<open>u64\<close>, \<open>i64\<close> and \<open>i128\<close> are words. Arithmetic wraps around: the release profile of the
    workspace (\<^verbatim>\<open>Cargo.toml\<close>, \<^verbatim>\<open>[profile.release]\<close>) leaves overflow checks off. A signed type is
    the word of its width, read with \<^const>\<open>sint\<close>.
  \<^item> \<open>usize\<close> values that index or measure a vector are natural numbers (a 64-bit target).
  \<^item> an operation that may fail returns an \<open>outcome\<close>: \<open>Ok\<close> and \<open>Err\<close> are the two sides of a
    Rust \<^verbatim>\<open>Result\<close>, \<open>Panic\<close> is an \<^verbatim>\<open>unwrap\<close>, an \<^verbatim>\<open>expect\<close> or an index that is out of range.
\<close>

named_theorems pos_simps \<open>rewrite rules of the proof-of-stake data types\<close>
named_theorems outcome_simps \<open>inversion rules of fallible operations\<close>
named_theorems storage_simps \<open>rewrite rules of the storage layer\<close>

unbundle bit_operations_syntax

section \<open>Machine integers\<close>

type_synonym u8 = "8 word"
type_synonym u64 = "64 word"
type_synonym i64 = "64 word"
type_synonym i128 = "128 word"

text \<open>\<^verbatim>\<open>u64::checked_add\<close> and \<^verbatim>\<open>u64::checked_sub\<close>.\<close>

definition checked_add :: "u64 \<Rightarrow> u64 \<Rightarrow> u64 option" where
  "checked_add a b = (if unat a + unat b < 2 ^ 64 then Some (a + b) else None)"

definition checked_sub :: "u64 \<Rightarrow> u64 \<Rightarrow> u64 option" where
  "checked_sub a b = (if b \<le> a then Some (a - b) else None)"

text \<open>The conversions \<^verbatim>\<open>TryFrom\<close> between integer types: \<^const>\<open>None\<close> is \<^verbatim>\<open>TryFromIntError\<close>.\<close>

definition i64_try_from_u64 :: "u64 \<Rightarrow> i64 option" where
  "i64_try_from_u64 x = (if uint x < 2 ^ 63 then Some x else None)"

definition u64_try_from_i64 :: "i64 \<Rightarrow> u64 option" where
  "u64_try_from_i64 x = (if 0 \<le> sint x then Some x else None)"

definition u64_try_from_i128 :: "i128 \<Rightarrow> u64 option" where
  "u64_try_from_i128 x =
     (if 0 \<le> sint x \<and> sint x < 2 ^ 64 then Some (word_of_int (sint x)) else None)"

definition i64_try_from_i128 :: "i128 \<Rightarrow> i64 option" where
  "i64_try_from_i128 x =
     (if - (2 ^ 63) \<le> sint x \<and> sint x < 2 ^ 63 then Some (word_of_int (sint x)) else None)"

text \<open>The cast \<^verbatim>\<open>as i128\<close> of an unsigned value, and division of signed values (Rust truncates).\<close>

definition i128_from_u64 :: "u64 \<Rightarrow> i128" where
  "i128_from_u64 x = word_of_int (uint x)"

definition i128_div :: "i128 \<Rightarrow> i128 \<Rightarrow> i128" where
  "i128_div a b = word_of_int (sint a sdiv sint b)"

lemma unat_u64_bound [simp]: "unat (x :: u64) < 18446744073709551616"
  using unsigned_less [of x, where ?'a = nat] by simp

lemma checked_add_Some_iff:
  "checked_add a b = Some c \<longleftrightarrow> unat a + unat b < 2 ^ 64 \<and> c = a + b"
  by (auto simp: checked_add_def)

lemma checked_add_None_iff: "checked_add a b = None \<longleftrightarrow> 2 ^ 64 \<le> unat a + unat b"
  by (auto simp: checked_add_def)

lemma unat_checked_add: "checked_add a b = Some c \<Longrightarrow> unat c = unat a + unat b"
  by (auto simp: checked_add_def unat_word_ariths split: if_splits)

lemma checked_sub_Some_iff: "checked_sub a b = Some c \<longleftrightarrow> b \<le> a \<and> c = a - b"
  by (auto simp: checked_sub_def)

lemma unat_checked_sub: "checked_sub a b = Some c \<Longrightarrow> unat c + unat b = unat a"
  by (auto simp: checked_sub_def word_le_nat_alt unat_sub split: if_splits)

lemma unat_add_no_wrap:
  "unat (a :: u64) + unat b < 2 ^ 64 \<Longrightarrow> unat (a + b) = unat a + unat b"
  by (simp add: unat_word_ariths)

lemma unat_of_nat_u64: "n < 2 ^ 64 \<Longrightarrow> unat (of_nat n :: u64) = n"
  by (simp add: unat_of_nat)

lemma sint_of_int_i128:
  "- (2 ^ 127) \<le> k \<Longrightarrow> k < 2 ^ 127 \<Longrightarrow> sint (word_of_int k :: i128) = k"
  by (subst signed_of_int) (simp add: signed_take_bit_int_eq_self)

lemma sint_of_int_i64:
  "- (2 ^ 63) \<le> k \<Longrightarrow> k < 2 ^ 63 \<Longrightarrow> sint (word_of_int k :: i64) = k"
  by (subst signed_of_int) (simp add: signed_take_bit_int_eq_self)

lemma sint_eq_uint_i64:
  assumes "uint (x :: u64) < 2 ^ 63"
  shows "sint x = uint x"
proof -
  have "- (2 ^ 63) \<le> uint x" by (rule order_trans [OF _ uint_ge_0]) simp
  then show ?thesis using sint_of_int_i64 [of "uint x"] assms by simp
qed

lemma uint_u64_bound [simp]: "uint (x :: u64) < 18446744073709551616"
  using uint_lt2p [of x] by simp

lemma sint_i128_from_u64 [simp]: "sint (i128_from_u64 x) = uint x"
proof -
  have "uint x < 2 ^ 127" by (rule order_less_le_trans [OF uint_u64_bound]) simp
  moreover have "- (2 ^ 127) \<le> uint x" by (rule order_trans [OF _ uint_ge_0]) simp
  ultimately show ?thesis
    unfolding i128_from_u64_def by (intro sint_of_int_i128)
qed

lemma u64_try_from_i128_from_u64 [simp]: "u64_try_from_i128 (i128_from_u64 x) = Some x"
proof -
  have "uint x < 2 ^ 64" using uint_lt2p [of x] by simp
  then show ?thesis by (simp add: u64_try_from_i128_def)
qed

section \<open>Fallible operations\<close>

datatype ('a, 'e) outcome = Ok 'a | Err 'e | Panic

fun outcome_bind :: "('a, 'e) outcome \<Rightarrow> ('a \<Rightarrow> ('b, 'e) outcome) \<Rightarrow> ('b, 'e) outcome" where
  "outcome_bind (Ok x) f = f x"
| "outcome_bind (Err e) f = Err e"
| "outcome_bind Panic f = Panic"

fun map_err :: "('e \<Rightarrow> 'f) \<Rightarrow> ('a, 'e) outcome \<Rightarrow> ('a, 'f) outcome" where
  "map_err g (Ok x) = Ok x"
| "map_err g (Err e) = Err (g e)"
| "map_err g Panic = Panic"

text \<open>\<^verbatim>\<open>Option::ok_or\<close> and \<^verbatim>\<open>Option::unwrap\<close>.\<close>

definition ok_or :: "'a option \<Rightarrow> 'e \<Rightarrow> ('a, 'e) outcome" where
  "ok_or x e = (case x of None \<Rightarrow> Err e | Some y \<Rightarrow> Ok y)"

definition unwrap :: "'a option \<Rightarrow> ('a, 'e) outcome" where
  "unwrap x = (case x of None \<Rightarrow> Panic | Some y \<Rightarrow> Ok y)"

lemma outcome_bind_eq_Ok [outcome_simps]:
  "outcome_bind m f = Ok y \<longleftrightarrow> (\<exists>x. m = Ok x \<and> f x = Ok y)"
  by (cases m) auto

lemma outcome_bind_eq_Err [outcome_simps]:
  "outcome_bind m f = Err e \<longleftrightarrow> m = Err e \<or> (\<exists>x. m = Ok x \<and> f x = Err e)"
  by (cases m) auto

lemma map_err_eq_Ok [outcome_simps]: "map_err g m = Ok x \<longleftrightarrow> m = Ok x"
  by (cases m) auto

lemma ok_or_eq_Ok [outcome_simps]: "ok_or x e = Ok y \<longleftrightarrow> x = Some y"
  by (auto simp: ok_or_def split: option.splits)

lemma unwrap_eq_Ok [outcome_simps]: "unwrap x = Ok y \<longleftrightarrow> x = Some y"
  by (auto simp: unwrap_def split: option.splits)

lemma ok_or_simps [simp]: "ok_or None e = Err e" "ok_or (Some y) e = Ok y"
  by (simp_all add: ok_or_def)

lemma unwrap_simps [simp]: "unwrap None = Panic" "unwrap (Some y) = Ok y"
  by (simp_all add: unwrap_def)

section \<open>Vectors\<close>

text \<open>\<^verbatim>\<open>Vec::get\<close> and \<^verbatim>\<open>Vec::resize_with(n, Default::default)\<close> on a vector of options.\<close>

definition vec_get :: "'a list \<Rightarrow> nat \<Rightarrow> 'a option" where
  "vec_get xs i = (if i < length xs then Some (xs ! i) else None)"

definition vec_grow :: "nat \<Rightarrow> 'a option list \<Rightarrow> 'a option list" where
  "vec_grow n xs = (if length xs < n then xs @ replicate (n - length xs) None else xs)"

lemma vec_get_simps [simp]:
  "i < length xs \<Longrightarrow> vec_get xs i = Some (xs ! i)"
  "length xs \<le> i \<Longrightarrow> vec_get xs i = None"
  by (simp_all add: vec_get_def)

lemma length_vec_grow [simp]: "length (vec_grow n xs) = max n (length xs)"
  by (simp add: vec_grow_def)

section \<open>Hash maps\<close>

text \<open>
  A \<^verbatim>\<open>HashMap\<close> is an association list with distinct keys. Rust leaves the order in which a hash
  map is visited unspecified; the order of the list stands for it, and what is proved of a
  traversal is proved for every order.
\<close>

fun hm_get :: "('k \<times> 'v) list \<Rightarrow> 'k \<Rightarrow> 'v option" where
  "hm_get [] k = None"
| "hm_get ((k', v) # m) k = (if k' = k then Some v else hm_get m k)"

fun hm_insert :: "'k \<Rightarrow> 'v \<Rightarrow> ('k \<times> 'v) list \<Rightarrow> ('k \<times> 'v) list" where
  "hm_insert k v [] = [(k, v)]"
| "hm_insert k v ((k', v') # m) =
     (if k' = k then (k, v) # m else (k', v') # hm_insert k v m)"

definition hm_ok :: "('k \<times> 'v) list \<Rightarrow> bool" where
  "hm_ok m = distinct (map fst m)"

lemma hm_get_map_of: "hm_get m = map_of m"
proof (rule ext)
  show "hm_get m k = map_of m k" for k
    by (induct m k rule: hm_get.induct) auto
qed

lemma hm_get_insert [simp]: "hm_get (hm_insert k v m) = (hm_get m)(k \<mapsto> v)"
  by (rule ext, induct m rule: hm_insert.induct) auto

lemma fst_set_hm_insert [simp]: "fst ` set (hm_insert k v m) = insert k (fst ` set m)"
  by (induct m rule: hm_insert.induct) auto

lemma hm_ok_Nil [simp]: "hm_ok []"
  by (simp add: hm_ok_def)

lemma hm_ok_Cons [simp]: "hm_ok ((k, v) # m) \<longleftrightarrow> k \<notin> fst ` set m \<and> hm_ok m"
  by (auto simp: hm_ok_def)

lemma hm_ok_insert [simp]: "hm_ok m \<Longrightarrow> hm_ok (hm_insert k v m)"
  by (induct m rule: hm_insert.induct) auto

lemma hm_get_None_iff: "hm_get m k = None \<longleftrightarrow> k \<notin> fst ` set m"
  by (simp add: hm_get_map_of map_of_eq_None_iff)

definition hm_remove :: "'k \<Rightarrow> ('k \<times> 'v) list \<Rightarrow> ('k \<times> 'v) list" where
  "hm_remove k m = filter (\<lambda>e. fst e \<noteq> k) m"

lemma hm_get_remove [simp]: "hm_get (hm_remove k m) = (hm_get m)(k := None)"
proof (rule ext)
  show "hm_get (hm_remove k m) k' = ((hm_get m)(k := None)) k'" for k'
    by (induct m) (auto simp: hm_remove_def)
qed

lemma hm_ok_remove [simp]: "hm_ok m \<Longrightarrow> hm_ok (hm_remove k m)"
  by (simp add: hm_ok_def hm_remove_def distinct_map_filter)

lemma hm_get_Some_iff: "hm_ok m \<Longrightarrow> hm_get m k = Some v \<longleftrightarrow> (k, v) \<in> set m"
  by (simp add: hm_ok_def hm_get_map_of)

end
