(* ===== verification/Pos_Types.thy ===== *)
theory Pos_Types
  imports Prelude
begin

text \<open>
  The data types of the proof-of-stake crate: \<^verbatim>\<open>proof_of_stake/src/parameters.rs\<close> (the parameters
  and their validation) and \<^verbatim>\<open>proof_of_stake/src/types.rs\<close> (epochs, basis points, voting power,
  bonds, unbonds, slashes, the weighted validator and its order). Newtypes around an integer are
  synonyms of the integer. The token types are those of the ledger, \<^verbatim>\<open>token::Amount\<close> (a \<open>u64\<close> of
  micro units) and \<^verbatim>\<open>token::Change\<close> (an \<open>i128\<close>); the address type stays a parameter with a linear
  order, as in the crate.
\<close>

section \<open>Parameters\<close>

type_synonym epoch = u64
type_synonym basis_points = u64
type_synonym voting_power = u64
type_synonym voting_power_delta = i64
type_synonym token_amount = u64
type_synonym token_change = i128

record pos_params =
  max_validator_slots :: u64
  pipeline_len :: u64
  unbonding_len :: u64
  votes_per_token :: basis_points
  block_proposer_reward :: u64
  block_vote_reward :: u64
  duplicate_vote_slash_rate :: basis_points
  light_client_attack_slash_rate :: basis_points

definition pos_params_default :: pos_params where
  "pos_params_default =
     \<lparr> max_validator_slots = 128, pipeline_len = 2, unbonding_len = 6, votes_per_token = 10,
       block_proposer_reward = 100, block_vote_reward = 1,
       duplicate_vote_slash_rate = 500, light_client_attack_slash_rate = 500 \<rparr>"

datatype validation_error =
    TotalVotingPowerTooLarge u64
  | VotesPerTokenGreaterThanOne basis_points
  | PipelineLenTooShort u64
  | UnbondingLenTooShort u64 u64

definition MAX_TOTAL_VOTING_POWER :: i64 where
  "MAX_TOTAL_VOTING_POWER = 9223372036854775807 div 8"

definition TOKEN_MAX_AMOUNT :: u64 where
  "TOKEN_MAX_AMOUNT = 18446744073709551615 div 1000000"

text \<open>\<^verbatim>\<open>Mul<u64>\<close> and \<^verbatim>\<open>Mul<i128>\<close> for \<^verbatim>\<open>BasisPoints\<close>: the product is taken first and wraps.\<close>

definition basis_points_mul_u64 :: "basis_points \<Rightarrow> u64 \<Rightarrow> u64" where
  "basis_points_mul_u64 bp rhs = rhs * bp div 10000"

definition basis_points_mul_i128 :: "basis_points \<Rightarrow> i128 \<Rightarrow> i128" where
  "basis_points_mul_i128 bp rhs = i128_div (rhs * i128_from_u64 bp) 10000"

definition pos_params_validate :: "pos_params \<Rightarrow> validation_error list" where
  "pos_params_validate p =
     (if pipeline_len p < 2 then [PipelineLenTooShort (pipeline_len p)] else [])
     @ (if unbonding_len p \<le> pipeline_len p
        then [UnbondingLenTooShort (unbonding_len p) (pipeline_len p)] else [])
     @ (let max_total_voting_power =
              max_validator_slots p * basis_points_mul_u64 (votes_per_token p) TOKEN_MAX_AMOUNT
        in case i64_try_from_u64 max_total_voting_power of
             Some power_i64 \<Rightarrow>
               (if sint MAX_TOTAL_VOTING_POWER < sint power_i64
                then [TotalVotingPowerTooLarge max_total_voting_power] else [])
           | None \<Rightarrow> [TotalVotingPowerTooLarge max_total_voting_power])
     @ (if 10000 < votes_per_token p
        then [VotesPerTokenGreaterThanOne (votes_per_token p)] else [])"

section \<open>Voting power\<close>

definition voting_power_from_tokens :: "token_amount \<Rightarrow> pos_params \<Rightarrow> voting_power" where
  "voting_power_from_tokens tokens p =
     (let whole_tokens = tokens div 1000000
      in basis_points_mul_u64 (votes_per_token p) whole_tokens)"

definition voting_power_delta_try_from_token_change ::
  "token_change \<Rightarrow> pos_params \<Rightarrow> voting_power_delta option" where
  "voting_power_delta_try_from_token_change change p =
     (let whole_tokens = i128_div change 1000000
      in i64_try_from_i128 (basis_points_mul_i128 (votes_per_token p) whole_tokens))"

definition voting_power_delta_try_from_tokens ::
  "token_amount \<Rightarrow> pos_params \<Rightarrow> voting_power_delta option" where
  "voting_power_delta_try_from_tokens tokens p =
     (let whole_tokens = tokens div 1000000
      in i64_try_from_u64 (basis_points_mul_u64 (votes_per_token p) whole_tokens))"

definition voting_power_delta_try_from_voting_power ::
  "voting_power \<Rightarrow> voting_power_delta option" where
  "voting_power_delta_try_from_voting_power value = i64_try_from_u64 value"

definition voting_power_try_from_voting_power_delta ::
  "voting_power_delta \<Rightarrow> voting_power option" where
  "voting_power_try_from_voting_power_delta value = u64_try_from_i64 value"

section \<open>Epochs\<close>

definition epoch_checked_sub :: "epoch \<Rightarrow> epoch \<Rightarrow> epoch option" where
  "epoch_checked_sub self rhs = (if self < rhs then None else Some (self - rhs))"

definition epoch_sub_or_default :: "epoch \<Rightarrow> epoch \<Rightarrow> epoch" where
  "epoch_sub_or_default self rhs =
     (case epoch_checked_sub self rhs of None \<Rightarrow> 0 | Some e \<Rightarrow> e)"

text \<open>The half-open range from \<open>self\<close> to \<open>self + len\<close>; it is empty when the sum wraps below \<open>self\<close>.\<close>

definition epoch_iter_range :: "epoch \<Rightarrow> u64 \<Rightarrow> epoch list" where
  "epoch_iter_range self len =
     (let end_ix = self + len in map of_nat [unat self ..< unat end_ix])"

section \<open>Validators\<close>

text \<open>
  The derived order of \<^verbatim>\<open>WeightedValidator\<close> compares the voting power first and the address next:
  the field order of the struct is what sorts a validator set by voting power.
\<close>

datatype 'a weighted_validator = WeightedValidator (wv_power: voting_power) (wv_address: 'a)

instantiation weighted_validator :: (linorder) linorder
begin

definition less_eq_weighted_validator ::
  "'a weighted_validator \<Rightarrow> 'a weighted_validator \<Rightarrow> bool" where
  "less_eq_weighted_validator v w \<longleftrightarrow>
     wv_power v < wv_power w \<or> wv_power v = wv_power w \<and> wv_address v \<le> wv_address w"

definition less_weighted_validator ::
  "'a weighted_validator \<Rightarrow> 'a weighted_validator \<Rightarrow> bool" where
  "less_weighted_validator v w \<longleftrightarrow>
     wv_power v < wv_power w \<or> wv_power v = wv_power w \<and> wv_address v < wv_address w"

instance
proof
  fix x y z :: "'a weighted_validator"
  show "x < y \<longleftrightarrow> x \<le> y \<and> \<not> y \<le> x"
    by (auto simp: less_eq_weighted_validator_def less_weighted_validator_def)
  show "x \<le> x"
    by (simp add: less_eq_weighted_validator_def)
  show "x \<le> y \<Longrightarrow> y \<le> z \<Longrightarrow> x \<le> z"
    by (auto simp: less_eq_weighted_validator_def)
  show "x \<le> y \<Longrightarrow> y \<le> x \<Longrightarrow> x = y"
    by (auto simp: less_eq_weighted_validator_def weighted_validator.expand)
  show "x \<le> y \<or> y \<le> x"
    by (auto simp: less_eq_weighted_validator_def)
qed

end

record 'a validator_set =
  active :: "'a weighted_validator set"
  inactive :: "'a weighted_validator set"

datatype validator_state = Inactive | Pending | Candidate

record ('a, 'k) genesis_validator =
  gv_address :: 'a
  gv_staking_reward_address :: 'a
  gv_tokens :: token_amount
  gv_consensus_key :: 'k
  gv_staking_reward_key :: 'k

definition genesis_validator_voting_power ::
  "('a, 'k) genesis_validator \<Rightarrow> pos_params \<Rightarrow> voting_power" where
  "genesis_validator_voting_power gv p = voting_power_from_tokens (gv_tokens gv) p"

datatype 'k validator_set_update = Active 'k voting_power | Deactivated 'k

record 'a bond_id =
  bond_source :: 'a
  bond_validator :: 'a

section \<open>Bonds, unbonds and slashes\<close>

text \<open>A \<^verbatim>\<open>Bond\<close> maps the epoch it starts in, an \<^verbatim>\<open>Unbond\<close> the epochs it starts and ends in, to tokens.\<close>

type_synonym 'k deltas = "('k \<times> token_amount) list"
type_synonym bond = "epoch deltas"
type_synonym unbond = "(epoch \<times> epoch) deltas"

definition bond_sum :: "'k deltas \<Rightarrow> token_amount" where
  "bond_sum m = fold (\<lambda>(_, amount) acc. acc + amount) m 0"

text \<open>Add the value to the entry of the key, or insert it.\<close>

definition delta_add_or_insert :: "'k \<times> token_amount \<Rightarrow> 'k deltas \<Rightarrow> 'k deltas" where
  "delta_add_or_insert kv m =
     (case hm_get m (fst kv) of
        Some w \<Rightarrow> hm_insert (fst kv) (w + snd kv) m
      | None \<Rightarrow> hm_insert (fst kv) (snd kv) m)"

definition bond_add :: "'k deltas \<Rightarrow> 'k deltas \<Rightarrow> 'k deltas" where
  "bond_add self rhs = fold delta_add_or_insert rhs self"

definition unbond_sum :: "unbond \<Rightarrow> token_amount" where
  "unbond_sum m = bond_sum m"

definition unbond_add :: "unbond \<Rightarrow> unbond \<Rightarrow> unbond" where
  "unbond_add self rhs = bond_add self rhs"

datatype slash_type = DuplicateVote | LightClientAttack

record slash =
  slash_epoch :: epoch
  slash_block_height :: u64
  slash_kind :: slash_type
  slash_rate :: basis_points

fun get_slash_rate :: "slash_type \<Rightarrow> pos_params \<Rightarrow> basis_points" where
  "get_slash_rate DuplicateVote p = duplicate_vote_slash_rate p"
| "get_slash_rate LightClientAttack p = light_client_attack_slash_rate p"

section \<open>Lemmas\<close>

lemma epoch_sub_or_default_unat [simp]:
  "unat (epoch_sub_or_default a b) = unat a - unat b"
  by (auto simp: epoch_sub_or_default_def epoch_checked_sub_def word_less_nat_alt word_le_nat_alt
      unat_sub not_less)

lemma epoch_sub_or_default_le: "a \<le> b \<Longrightarrow> epoch_sub_or_default a b = 0"
  by (auto simp: epoch_sub_or_default_def epoch_checked_sub_def)

lemma wv_less_eq_power: "v \<le> w \<Longrightarrow> wv_power v \<le> wv_power w"
  by (auto simp: less_eq_weighted_validator_def)

lemma wv_power_less: "wv_power v < wv_power w \<Longrightarrow> v < w"
  by (auto simp: less_weighted_validator_def)

lemma bond_sum_sum_list: "bond_sum m = sum_list (map snd m)"
proof -
  have "fold (\<lambda>(_, amount) acc. acc + amount) m a = a + sum_list (map snd m)" for a
    by (induct m arbitrary: a) (auto simp: add.assoc)
  then show ?thesis by (simp add: bond_sum_def)
qed

lemma bond_sum_simps [simp]:
  "bond_sum [] = 0"
  "bond_sum ((k, v) # m) = v + bond_sum m"
  by (simp_all add: bond_sum_sum_list)

lemma bond_sum_insert_new: "hm_get m k = None \<Longrightarrow> bond_sum (hm_insert k v m) = bond_sum m + v"
  by (induct k v m rule: hm_insert.induct) (auto split: if_splits)

lemma bond_sum_insert_old:
  "hm_get m k = Some w \<Longrightarrow> bond_sum (hm_insert k (w + v) m) = bond_sum m + v"
  by (induct m k rule: hm_get.induct) (auto split: if_splits)

lemma bond_sum_add_or_insert [simp]: "bond_sum (delta_add_or_insert kv m) = bond_sum m + snd kv"
  by (simp add: delta_add_or_insert_def bond_sum_insert_new bond_sum_insert_old
      split: option.split)

text \<open>The sum of a bond is a homomorphism: adding bonds adds their tokens.\<close>

lemma bond_sum_add [simp]: "bond_sum (bond_add a b) = bond_sum a + bond_sum b"
  by (induct b arbitrary: a) (auto simp: bond_add_def add.assoc)

lemma hm_ok_bond_add [simp]: "hm_ok a \<Longrightarrow> hm_ok (bond_add a b)"
  by (induct b arbitrary: a)
    (auto simp: bond_add_def delta_add_or_insert_def split: option.split)

lemma unat_basis_points_mul_u64:
  assumes "unat rhs * unat bp < 2 ^ 64"
  shows "unat (basis_points_mul_u64 bp rhs) = unat rhs * unat bp div 10000"
  using assms by (simp add: basis_points_mul_u64_def unat_div unat_word_ariths)

lemma basis_points_mul_u64_le:
  assumes "unat bp \<le> 10000" and "unat rhs * unat bp < 2 ^ 64"
  shows "basis_points_mul_u64 bp rhs \<le> rhs"
proof -
  have "unat rhs * unat bp div 10000 \<le> unat rhs * 10000 div 10000"
    by (rule div_le_mono, rule mult_le_mono2) (rule assms(1))
  then show ?thesis
    using unat_basis_points_mul_u64 [OF assms(2)] by (simp add: word_le_nat_alt)
qed

section \<open>Validated parameters bound the total voting power\<close>

lemma MAX_TOTAL_VOTING_POWER_val: "sint MAX_TOTAL_VOTING_POWER = 1152921504606846975"
  by (simp add: MAX_TOTAL_VOTING_POWER_def)

lemma TOKEN_MAX_AMOUNT_val: "unat TOKEN_MAX_AMOUNT = 18446744073709"
  by (simp add: TOKEN_MAX_AMOUNT_def)

text \<open>The largest voting power one validator can have, in exact arithmetic.\<close>

definition max_voting_power :: "pos_params \<Rightarrow> nat" where
  "max_voting_power p = 18446744073709 * unat (votes_per_token p) div 10000"

lemma pos_params_validateD:
  assumes "pos_params_validate p = []"
  shows "2 \<le> pipeline_len p" and "pipeline_len p < unbonding_len p"
    and "votes_per_token p \<le> 10000"
    and "uint (max_validator_slots p *
               basis_points_mul_u64 (votes_per_token p) TOKEN_MAX_AMOUNT) \<le> 1152921504606846975"
proof -
  let ?m = "max_validator_slots p * basis_points_mul_u64 (votes_per_token p) TOKEN_MAX_AMOUNT"
  show "2 \<le> pipeline_len p" and "pipeline_len p < unbonding_len p"
    and "votes_per_token p \<le> 10000"
    using assms by (auto simp: pos_params_validate_def not_less not_le split: if_splits)
  have m: "uint ?m < 2 ^ 63" and s: "sint ?m \<le> 1152921504606846975"
    using assms
    by (auto simp: pos_params_validate_def Let_def i64_try_from_u64_def MAX_TOTAL_VOTING_POWER_val
        split: if_splits option.splits)
  have "sint ?m = uint ?m"
    using m by (rule sint_eq_uint_i64)
  with s show "uint ?m \<le> 1152921504606846975" by simp
qed

lemma voting_power_from_tokens_le:
  assumes "votes_per_token p \<le> 10000"
  shows "unat (voting_power_from_tokens t p) \<le> max_voting_power p"
proof -
  have v: "unat (votes_per_token p) \<le> 10000"
    using assms by (simp add: word_le_nat_alt)
  have t: "unat (t div 1000000) \<le> 18446744073709"
    using div_le_mono [of "unat t" 18446744073709551615 1000000] unat_u64_bound [of t]
    by (simp add: unat_div)
  have le: "unat (t div 1000000) * unat (votes_per_token p)
      \<le> 18446744073709 * unat (votes_per_token p)"
    by (rule mult_le_mono1) (rule t)
  also have "\<dots> \<le> 18446744073709 * 10000"
    by (rule mult_le_mono2) (rule v)
  finally have "unat (t div 1000000) * unat (votes_per_token p) < 2 ^ 64" by simp
  then have "unat (voting_power_from_tokens t p)
      = unat (t div 1000000) * unat (votes_per_token p) div 10000"
    by (simp add: voting_power_from_tokens_def unat_basis_points_mul_u64)
  also have "\<dots> \<le> max_voting_power p"
    unfolding max_voting_power_def by (rule div_le_mono) (rule le)
  finally show ?thesis .
qed

lemma unat_max_voting_power:
  assumes "votes_per_token p \<le> 10000"
  shows "unat (basis_points_mul_u64 (votes_per_token p) TOKEN_MAX_AMOUNT) = max_voting_power p"
proof -
  have "unat (votes_per_token p) \<le> 10000"
    using assms by (simp add: word_le_nat_alt)
  then have "18446744073709 * unat (votes_per_token p) \<le> 18446744073709 * 10000"
    by (rule mult_le_mono2)
  then show ?thesis
    by (simp add: unat_basis_points_mul_u64 TOKEN_MAX_AMOUNT_val max_voting_power_def)
qed

text \<open>
  Claim C23. Parameters that \<^verbatim>\<open>PosParams::validate\<close> accepts keep the total voting power of any full
  active set within Tendermint's limit \<open>i64::MAX / 8\<close>, whatever the validators' stakes are, provided
  the product the check computes does not wrap around.
\<close>

theorem validate_bounds_total_voting_power:
  assumes "pos_params_validate p = []"
    and "unat (max_validator_slots p) * max_voting_power p < 2 ^ 64"
    and "length stakes \<le> unat (max_validator_slots p)"
  shows "(\<Sum>t\<leftarrow>stakes. unat (voting_power_from_tokens t p)) \<le> 1152921504606846975"
proof -
  note v = pos_params_validateD [OF assms(1)]
  have "(\<Sum>t\<leftarrow>stakes. unat (voting_power_from_tokens t p))
      \<le> length stakes * max_voting_power p"
    by (induct stakes) (auto intro: add_mono voting_power_from_tokens_le [OF v(3)])
  also have "\<dots> \<le> unat (max_validator_slots p) * max_voting_power p"
    by (rule mult_le_mono1) (rule assms(3))
  also have "\<dots> = unat (max_validator_slots p *
      basis_points_mul_u64 (votes_per_token p) TOKEN_MAX_AMOUNT)"
    using assms(2) by (simp add: unat_word_ariths unat_max_voting_power [OF v(3)])
  also have "\<dots> \<le> 1152921504606846975"
    using v(4) by (simp add: nat_le_iff flip: nat_uint_eq)
  finally show ?thesis .
qed

theorem validate_bounds_total_voting_power_witness:
  "pos_params_validate pos_params_default = []
   \<and> (\<Sum>t\<leftarrow>[5000000000, 18446744073709551615].
        unat (voting_power_from_tokens t pos_params_default)) \<le> 1152921504606846975"
proof -
  have v: "pos_params_validate pos_params_default = []"
    by (simp add: pos_params_validate_def pos_params_default_def Let_def i64_try_from_u64_def
        basis_points_mul_u64_def TOKEN_MAX_AMOUNT_def MAX_TOTAL_VOTING_POWER_def)
  have "unat (max_validator_slots pos_params_default) * max_voting_power pos_params_default
      < 2 ^ 64"
    by (simp add: pos_params_default_def max_voting_power_def)
  moreover have "length [5000000000, 18446744073709551615 :: u64]
      \<le> unat (max_validator_slots pos_params_default)"
    by (simp add: pos_params_default_def)
  ultimately show ?thesis
    using v validate_bounds_total_voting_power [OF v] by blast
qed

lemma pos_params_validate_iff:
  "pos_params_validate p = [] \<longleftrightarrow>
     2 \<le> pipeline_len p \<and> pipeline_len p < unbonding_len p \<and> votes_per_token p \<le> 10000 \<and>
     unat (max_validator_slots p) * max_voting_power p mod 2 ^ 64 \<le> 1152921504606846975"
proof (cases "votes_per_token p \<le> 10000")
  case True
  let ?t = "max_validator_slots p * basis_points_mul_u64 (votes_per_token p) TOKEN_MAX_AMOUNT"
  have t: "unat ?t = unat (max_validator_slots p) * max_voting_power p mod 2 ^ 64"
    by (simp add: unat_word_ariths unat_max_voting_power [OF True])
  have nat: "unat ?t \<le> 1152921504606846975 \<longleftrightarrow> uint ?t \<le> 1152921504606846975"
    by (simp add: nat_le_iff flip: nat_uint_eq)
  have "(case i64_try_from_u64 ?t of
           Some power_i64 \<Rightarrow> (if sint MAX_TOTAL_VOTING_POWER < sint power_i64 then [TotalVotingPowerTooLarge ?t] else [])
         | None \<Rightarrow> [TotalVotingPowerTooLarge ?t]) = [] \<longleftrightarrow> unat ?t \<le> 1152921504606846975"
  proof (cases "uint ?t < 2 ^ 63")
    case True
    then show ?thesis
      unfolding nat by (simp add: i64_try_from_u64_def sint_eq_uint_i64 [OF True] MAX_TOTAL_VOTING_POWER_def not_less)
  next
    case False
    then have "\<not> uint ?t \<le> 1152921504606846975" by simp
    with False show ?thesis
      unfolding nat by (simp add: i64_try_from_u64_def)
  qed
  with True show ?thesis
    unfolding pos_params_validate_def t [symmetric] Let_def by (simp add: not_less not_le) (blast dest: leD)
next
  case False
  then show ?thesis by (simp add: pos_params_validate_def not_le)
qed


lemma multiple_after:
  assumes "2 \<le> v" "v \<le> (w :: nat)"
  shows "\<exists>n r. n * v = w + r \<and> r \<le> v \<and> n \<le> w div 2 + 1"
proof (intro exI conjI)
  show "(w div v + 1) * v = w + (v - w mod v)"
    using assms(1) div_mult_mod_eq [of w v] mod_less_divisor [of v w] unfolding add_mult_distrib by linarith
  show "w div v + 1 \<le> w div 2 + 1"
    using assms(1) by (simp add: div_le_mono2)
qed simp

lemma overflowing_slots:
  assumes "pos_params_validate p = []" "2 \<le> max_voting_power p"
  shows "\<exists>slots. pos_params_validate (p\<lparr> max_validator_slots := slots \<rparr>) = [] \<and>
    16 * 1152921504606846975 < unat slots * max_voting_power p"
proof -
  let ?v = "max_voting_power p"
  have p: "2 \<le> pipeline_len p" "pipeline_len p < unbonding_len p" "votes_per_token p \<le> 10000"
    using assms(1) by (simp_all add: pos_params_validate_iff)
  have "unat (votes_per_token p) \<le> 10000"
    using p(3) by (simp add: word_le_nat_alt)
  then have v: "?v \<le> 18446744073709"
    unfolding max_voting_power_def by simp
  have "?v \<le> 2 ^ 64"
    by (rule order_trans [OF v]) simp
  from multiple_after [OF assms(2) this] obtain n r where
    n: "n * ?v = 2 ^ 64 + r" "r \<le> ?v" "n \<le> 2 ^ 64 div 2 + 1" by metis
  have slots: "unat (of_nat n :: u64) = n"
    by (rule unat_of_nat_u64, rule order.strict_trans1 [OF n(3)]) simp
  have "n * ?v mod 2 ^ 64 \<le> 18446744073709"
    unfolding n(1) mod_add_self1 by (rule order_trans [OF mod_less_eq_dividend order_trans [OF n(2) v]])
  then have "n * ?v mod 2 ^ 64 \<le> 1152921504606846975"
    by (rule order_trans) simp
  moreover have "16 * 1152921504606846975 < n * ?v"
    unfolding n(1) by simp
  moreover have "max_voting_power (p\<lparr> max_validator_slots := of_nat n \<rparr>) = ?v"
    by (simp add: max_voting_power_def)
  ultimately show ?thesis
    using p by (intro exI [of _ "of_nat n"]) (simp add: pos_params_validate_iff slots)
qed

text \<open>
  Claim C24. The exact condition under which the parameters are accepted: the product in the check is taken
  modulo \<open>2 ^ 64\<close>. So the check can be passed by overflow: whatever accepted parameters one starts from, with
  a voting power of two or more per validator, some number of validator slots is accepted although the
  largest total voting power it allows exceeds the limit more than sixteen-fold.
\<close>

theorem validate_accepts_overflow:
  "(pos_params_validate p = [] \<longleftrightarrow>
      2 \<le> pipeline_len p \<and> pipeline_len p < unbonding_len p \<and> votes_per_token p \<le> 10000 \<and>
      unat (max_validator_slots p) * max_voting_power p mod 2 ^ 64 \<le> 1152921504606846975) \<and>
   (pos_params_validate p = [] \<and> 2 \<le> max_voting_power p \<longrightarrow>
      (\<exists>slots. pos_params_validate (p\<lparr> max_validator_slots := slots \<rparr>) = [] \<and>
         16 * 1152921504606846975 < unat slots * max_voting_power p))"
  using pos_params_validate_iff [of p] overflowing_slots [of p] by blast

theorem validate_accepts_overflow_witness:
  "\<exists>slots. pos_params_validate (pos_params_default\<lparr> max_validator_slots := slots \<rparr>) = [] \<and>
     16 * 1152921504606846975 < unat slots * max_voting_power pos_params_default"
proof -
  have "pos_params_validate pos_params_default = []" "2 \<le> max_voting_power pos_params_default"
    by (simp_all add: pos_params_validate_iff pos_params_default_def max_voting_power_def)
  then show ?thesis
    using validate_accepts_overflow [of pos_params_default] by blast
qed

end
