(* ===== verification/Epoched.thy ===== *)
theory Epoched
  imports Pos_Types
begin

text \<open>
  The epoched data of \<^verbatim>\<open>proof_of_stake/src/epoched.rs\<close>: values (\<^verbatim>\<open>Epoched\<close>) and differences
  (\<^verbatim>\<open>EpochedDelta\<close>) that take effect in a future epoch. Both keep a vector whose entry \<open>i\<close> belongs
  to the epoch \<open>last_update + i\<close>. The type parameter \<^verbatim>\<open>Offset\<close> of the structs is the argument
  \<open>dyn_epoch_offset\<close> here (the two have the same two instances), and \<^verbatim>\<open>ops::Add\<close> of the data of a
  delta is the argument \<open>add\<close>.

  The locale \<open>epoch_data\<close> states what shifting the vector relies on, the locale \<open>delta_data\<close> what a
  client may assume of the addition of delta data; both are interpreted on the definitions below.
\<close>

section \<open>Offsets\<close>

datatype dyn_epoch_offset = PipelineLen | UnbondingLen

fun offset_value :: "dyn_epoch_offset \<Rightarrow> pos_params \<Rightarrow> u64" where
  "offset_value PipelineLen p = pipeline_len p"
| "offset_value UnbondingLen p = unbonding_len p"

abbreviation offset_ix :: "dyn_epoch_offset \<Rightarrow> pos_params \<Rightarrow> nat" where
  "offset_ix off p \<equiv> unat (offset_value off p)"

section \<open>Epoched values\<close>

record 'd epoched =
  last_update :: epoch
  data :: "'d option list"

definition epoched_init_at_genesis :: "'d \<Rightarrow> epoch \<Rightarrow> 'd epoched" where
  "epoched_init_at_genesis val current_epoch =
     \<lparr> last_update = current_epoch, data = [Some val] \<rparr>"

definition epoched_init :: "dyn_epoch_offset \<Rightarrow> 'd \<Rightarrow> epoch \<Rightarrow> pos_params \<Rightarrow> 'd epoched" where
  "epoched_init off val current_epoch p =
     \<lparr> last_update = current_epoch, data = replicate (offset_ix off p) None @ [Some val] \<rparr>"

text \<open>The loop of \<^verbatim>\<open>get_at_index\<close>: walk down from the index to the nearest set entry.\<close>

fun epoched_get_loop :: "'d option list \<Rightarrow> nat \<Rightarrow> 'd option" where
  "epoched_get_loop xs 0 = (case vec_get xs 0 of Some (Some v) \<Rightarrow> Some v | _ \<Rightarrow> None)"
| "epoched_get_loop xs (Suc i) =
     (case vec_get xs (Suc i) of Some (Some v) \<Rightarrow> Some v | _ \<Rightarrow> epoched_get_loop xs i)"

definition epoched_get_at_index :: "'d epoched \<Rightarrow> nat \<Rightarrow> 'd option" where
  "epoched_get_at_index ep offset = epoched_get_loop (data ep) (min offset (length (data ep)))"

definition epoched_get :: "'d epoched \<Rightarrow> epoch \<Rightarrow> 'd option" where
  "epoched_get ep e = epoched_get_at_index ep (unat (epoch_sub_or_default e (last_update ep)))"

definition epoched_get_at_offset ::
  "'d epoched \<Rightarrow> epoch \<Rightarrow> dyn_epoch_offset \<Rightarrow> pos_params \<Rightarrow> 'd option" where
  "epoched_get_at_offset ep e offset p =
     (let epoch_at_offset = e + offset_value offset p
      in epoched_get_at_index ep
           (unat (epoch_sub_or_default epoch_at_offset (last_update ep))))"

definition epoched_get_at_epoch :: "'d epoched \<Rightarrow> epoch \<Rightarrow> 'd option" where
  "epoched_get_at_epoch ep e =
     (case vec_get (data ep) (unat (epoch_sub_or_default e (last_update ep))) of
        Some result \<Rightarrow> result
      | None \<Rightarrow> None)"

text \<open>Clear the entries before the mid-point and keep the latest value found among them.\<close>

fun epoched_clear_prefix ::
  "nat \<Rightarrow> 'd option list \<Rightarrow> 'd option \<Rightarrow> 'd option list \<times> 'd option" where
  "epoched_clear_prefix 0 xs latest = (xs, latest)"
| "epoched_clear_prefix (Suc n) [] latest = ([], latest)"
| "epoched_clear_prefix (Suc n) (x # xs) latest =
     (let (ys, latest') =
        epoched_clear_prefix n xs (case x of Some v \<Rightarrow> Some v | None \<Rightarrow> latest)
      in (None # ys, latest'))"

definition epoched_update_data ::
  "dyn_epoch_offset \<Rightarrow> 'd epoched \<Rightarrow> epoch \<Rightarrow> pos_params \<Rightarrow> 'd epoched" where
  "epoched_update_data off ep current_epoch p =
     (let offset = offset_ix off p;
          shift = min (unat (epoch_sub_or_default current_epoch (last_update ep))) offset;
          xs = vec_grow (offset + 1) (data ep);
          moved =
            (if shift \<noteq> 0 then
               (let mid_point = min shift (length xs);
                    (cleared, latest_value) = epoched_clear_prefix mid_point xs None;
                    rotated = rotate mid_point cleared
                in case rotated ! 0 of None \<Rightarrow> rotated[0 := latest_value] | Some _ \<Rightarrow> rotated)
             else xs)
      in \<lparr> last_update = current_epoch, data = moved \<rparr>)"

definition epoched_set ::
  "dyn_epoch_offset \<Rightarrow> 'd epoched \<Rightarrow> 'd \<Rightarrow> epoch \<Rightarrow> pos_params \<Rightarrow> 'd epoched" where
  "epoched_set off ep val current_epoch p =
     (let ep' = epoched_update_data off ep current_epoch p
      in ep'\<lparr> data := (data ep')[offset_ix off p := Some val] \<rparr>)"

text \<open>
  \<^verbatim>\<open>update_from_offset\<close> takes a function that changes a value in place; a function that panics
  returns \<^const>\<open>None\<close>, and so does an offset outside the vector.
\<close>

fun epoched_update_entries ::
  "('d \<Rightarrow> epoch \<Rightarrow> 'd option) \<Rightarrow> epoch \<Rightarrow> 'd option list \<Rightarrow> 'd option list option" where
  "epoched_update_entries f e [] = Some []"
| "epoched_update_entries f e (None # xs) =
     map_option ((#) None) (epoched_update_entries f (e + 1) xs)"
| "epoched_update_entries f e (Some d # xs) =
     (case f d e of
        None \<Rightarrow> None
      | Some d' \<Rightarrow> map_option ((#) (Some d')) (epoched_update_entries f (e + 1) xs))"

fun epoched_latest_before :: "'d option list \<Rightarrow> nat \<Rightarrow> 'd option" where
  "epoched_latest_before xs 0 = None"
| "epoched_latest_before xs (Suc i) =
     (case vec_get xs i of Some (Some d) \<Rightarrow> Some d | _ \<Rightarrow> epoched_latest_before xs i)"

definition epoched_update_from_offset ::
  "dyn_epoch_offset \<Rightarrow> 'd epoched \<Rightarrow> ('d \<Rightarrow> epoch \<Rightarrow> 'd option) \<Rightarrow> epoch \<Rightarrow> dyn_epoch_offset
     \<Rightarrow> pos_params \<Rightarrow> 'd epoched option" where
  "epoched_update_from_offset off ep update_value current_epoch at_offset p =
     (let offset = offset_ix at_offset p;
          ep' = epoched_update_data off ep current_epoch p;
          xs = data ep'
      in case vec_get xs offset of
           None \<Rightarrow> None
         | Some at_ix \<Rightarrow>
             (let latest_value =
                    (case at_ix of Some d \<Rightarrow> Some d | None \<Rightarrow> epoched_latest_before xs offset);
                  updated =
                    (case latest_value of
                       Some d \<Rightarrow>
                         map_option Some (update_value d (last_update ep' + of_nat offset))
                     | None \<Rightarrow> Some None)
              in case updated of
                   None \<Rightarrow> None
                 | Some entry \<Rightarrow>
                     (case epoched_update_entries update_value
                             (last_update ep' + of_nat (offset + 1)) (drop (offset + 1) xs) of
                        None \<Rightarrow> None
                      | Some rest \<Rightarrow>
                          Some (ep'\<lparr> data := take offset xs @ [entry] @ rest \<rparr>))))"

section \<open>Epoched differences\<close>

record 'd epoched_delta =
  d_last_update :: epoch
  d_data :: "'d option list"

definition epoched_delta_init_at_index :: "'d \<Rightarrow> epoch \<Rightarrow> nat \<Rightarrow> 'd epoched_delta" where
  "epoched_delta_init_at_index val current_epoch offset =
     \<lparr> d_last_update = current_epoch, d_data = replicate offset None @ [Some val] \<rparr>"

definition epoched_delta_init_at_genesis :: "'d \<Rightarrow> epoch \<Rightarrow> 'd epoched_delta" where
  "epoched_delta_init_at_genesis val current_epoch =
     epoched_delta_init_at_index val current_epoch 0"

definition epoched_delta_init ::
  "dyn_epoch_offset \<Rightarrow> 'd \<Rightarrow> epoch \<Rightarrow> pos_params \<Rightarrow> 'd epoched_delta" where
  "epoched_delta_init off val current_epoch p =
     epoched_delta_init_at_index val current_epoch (offset_ix off p)"

definition epoched_delta_init_at_offset ::
  "'d \<Rightarrow> epoch \<Rightarrow> dyn_epoch_offset \<Rightarrow> pos_params \<Rightarrow> 'd epoched_delta" where
  "epoched_delta_init_at_offset val current_epoch offset p =
     epoched_delta_init_at_index val current_epoch (offset_ix offset p)"

text \<open>The accumulation step of the loops that sum deltas.\<close>

fun delta_plus :: "('d \<Rightarrow> 'd \<Rightarrow> 'd) \<Rightarrow> 'd option \<Rightarrow> 'd option \<Rightarrow> 'd option" where
  "delta_plus add (Some acc) (Some next) = Some (add acc next)"
| "delta_plus add None (Some next) = Some next"
| "delta_plus add acc None = acc"

definition epoched_delta_get_at_index ::
  "('d \<Rightarrow> 'd \<Rightarrow> 'd) \<Rightarrow> 'd epoched_delta \<Rightarrow> nat \<Rightarrow> 'd option" where
  "epoched_delta_get_at_index add ed offset =
     (let index = min offset (length (d_data ed))
      in fold (\<lambda>next acc. delta_plus add acc next) (take (index + 1) (d_data ed)) None)"

definition epoched_delta_get ::
  "('d \<Rightarrow> 'd \<Rightarrow> 'd) \<Rightarrow> 'd epoched_delta \<Rightarrow> epoch \<Rightarrow> 'd option" where
  "epoched_delta_get add ed e =
     epoched_delta_get_at_index add ed (unat (epoch_sub_or_default e (d_last_update ed)))"

definition epoched_delta_get_at_offset ::
  "('d \<Rightarrow> 'd \<Rightarrow> 'd) \<Rightarrow> 'd epoched_delta \<Rightarrow> epoch \<Rightarrow> dyn_epoch_offset \<Rightarrow> pos_params \<Rightarrow> 'd option" where
  "epoched_delta_get_at_offset add ed e offset p =
     (let epoch_at_offset = e + offset_value offset p
      in epoched_delta_get_at_index add ed
           (unat (epoch_sub_or_default epoch_at_offset (d_last_update ed))))"

definition epoched_delta_iter :: "'d epoched_delta \<Rightarrow> 'd list" where
  "epoched_delta_iter ed = List.map_filter id (d_data ed)"

definition epoched_delta_iter_with_epochs :: "'d epoched_delta \<Rightarrow> ('d \<times> epoch) list" where
  "epoched_delta_iter_with_epochs ed =
     List.map_filter (\<lambda>(index, val). map_option (\<lambda>v. (v, d_last_update ed + of_nat index)) val)
       (enumerate 0 (d_data ed))"

definition epoched_delta_get_delta_at_epoch :: "'d epoched_delta \<Rightarrow> epoch \<Rightarrow> 'd option" where
  "epoched_delta_get_delta_at_epoch ed e =
     (case epoch_checked_sub e (d_last_update ed) of
        None \<Rightarrow> None
      | Some index \<Rightarrow>
          (case vec_get (d_data ed) (unat index) of Some result \<Rightarrow> result | None \<Rightarrow> None))"

text \<open>Sum and clear the entries before the mid-point.\<close>

fun epoched_delta_clear_prefix ::
  "('d \<Rightarrow> 'd \<Rightarrow> 'd) \<Rightarrow> nat \<Rightarrow> 'd option list \<Rightarrow> 'd option \<Rightarrow> 'd option list \<times> 'd option" where
  "epoched_delta_clear_prefix add 0 xs acc = (xs, acc)"
| "epoched_delta_clear_prefix add (Suc n) [] acc = ([], acc)"
| "epoched_delta_clear_prefix add (Suc n) (x # xs) acc =
     (let (ys, acc') = epoched_delta_clear_prefix add n xs (delta_plus add acc x)
      in (None # ys, acc'))"

definition epoched_delta_update_data ::
  "('d \<Rightarrow> 'd \<Rightarrow> 'd) \<Rightarrow> dyn_epoch_offset \<Rightarrow> 'd epoched_delta \<Rightarrow> epoch \<Rightarrow> pos_params
     \<Rightarrow> 'd epoched_delta" where
  "epoched_delta_update_data add off ed current_epoch p =
     (let offset = offset_ix off p;
          shift = min (unat (epoch_sub_or_default current_epoch (d_last_update ed))) offset;
          xs = vec_grow (offset + 1) (d_data ed);
          moved =
            (if shift \<noteq> 0 then
               (let mid_point = min shift (length xs);
                    (cleared, acc) = epoched_delta_clear_prefix add mid_point xs None;
                    rotated = rotate mid_point cleared
                in rotated[0 := (case (acc, rotated ! 0) of
                                   (Some s, Some first) \<Rightarrow> Some (add s first)
                                 | (Some s, None) \<Rightarrow> Some s
                                 | (None, first) \<Rightarrow> first)])
             else xs)
      in \<lparr> d_last_update = current_epoch, d_data = moved \<rparr>)"

text \<open>Set the entry at an index to the sum of its delta, if any, and the value.\<close>

definition delta_add_at :: "('d \<Rightarrow> 'd \<Rightarrow> 'd) \<Rightarrow> 'd \<Rightarrow> nat \<Rightarrow> 'd option list \<Rightarrow> 'd option list" where
  "delta_add_at add val i xs =
     xs[i := (case xs ! i of None \<Rightarrow> Some val | Some last_delta \<Rightarrow> Some (add last_delta val))]"

definition epoched_delta_add ::
  "('d \<Rightarrow> 'd \<Rightarrow> 'd) \<Rightarrow> dyn_epoch_offset \<Rightarrow> 'd epoched_delta \<Rightarrow> 'd \<Rightarrow> epoch \<Rightarrow> pos_params
     \<Rightarrow> 'd epoched_delta" where
  "epoched_delta_add add off ed val current_epoch p =
     (let ed' = epoched_delta_update_data add off ed current_epoch p
      in ed'\<lparr> d_data := delta_add_at add val (offset_ix off p) (d_data ed') \<rparr>)"

definition epoched_delta_delete_current ::
  "('d \<Rightarrow> 'd \<Rightarrow> 'd) \<Rightarrow> dyn_epoch_offset \<Rightarrow> 'd epoched_delta \<Rightarrow> epoch \<Rightarrow> pos_params
     \<Rightarrow> 'd epoched_delta" where
  "epoched_delta_delete_current add off ed current_epoch p =
     (let ed' = epoched_delta_update_data add off ed current_epoch p
      in ed'\<lparr> d_data := (d_data ed')[0 := None] \<rparr>)"

text \<open>An index outside the vector panics.\<close>

definition epoched_delta_add_at_offset ::
  "('d \<Rightarrow> 'd \<Rightarrow> 'd) \<Rightarrow> dyn_epoch_offset \<Rightarrow> 'd epoched_delta \<Rightarrow> 'd \<Rightarrow> epoch \<Rightarrow> dyn_epoch_offset
     \<Rightarrow> pos_params \<Rightarrow> 'd epoched_delta option" where
  "epoched_delta_add_at_offset add off ed val current_epoch at_offset p =
     (let offset = offset_ix at_offset p;
          ed' = epoched_delta_update_data add off ed current_epoch p
      in if offset < length (d_data ed')
         then Some (ed'\<lparr> d_data := delta_add_at add val offset (d_data ed') \<rparr>)
         else None)"

definition epoched_delta_add_at_epoch ::
  "('d \<Rightarrow> 'd \<Rightarrow> 'd) \<Rightarrow> dyn_epoch_offset \<Rightarrow> 'd epoched_delta \<Rightarrow> 'd \<Rightarrow> epoch \<Rightarrow> epoch \<Rightarrow> pos_params
     \<Rightarrow> 'd epoched_delta option" where
  "epoched_delta_add_at_epoch add off ed val current_epoch update_epoch p =
     (let ed' = epoched_delta_update_data add off ed current_epoch p;
          offset = unat (update_epoch - current_epoch)
      in if offset < length (d_data ed')
         then Some (ed'\<lparr> d_data := delta_add_at add val offset (d_data ed') \<rparr>)
         else None)"

text \<open>
  \<^verbatim>\<open>rev_update_while\<close> calls a closure with captured mutable state; the state \<open>'s\<close> is passed along
  explicitly. The closure returns its new state, the changed delta and whether to go on.
\<close>

fun epoched_delta_rev_loop ::
  "('s \<Rightarrow> 'd \<Rightarrow> epoch \<Rightarrow> 's \<times> 'd \<times> bool) \<Rightarrow> epoch \<Rightarrow> nat list \<Rightarrow> 's \<Rightarrow> 'd option list
     \<Rightarrow> 's \<times> 'd option list" where
  "epoched_delta_rev_loop f e [] s xs = (s, xs)"
| "epoched_delta_rev_loop f e (ix # ixs) s xs =
     (case vec_get xs ix of
        Some (Some current) \<Rightarrow>
          (let (s', current', keep_going) = f s current (e + of_nat ix);
               xs' = xs[ix := Some current']
           in if keep_going then epoched_delta_rev_loop f e ixs s' xs' else (s', xs'))
      | _ \<Rightarrow> epoched_delta_rev_loop f e ixs s xs)"

definition epoched_delta_rev_update_while ::
  "('d \<Rightarrow> 'd \<Rightarrow> 'd) \<Rightarrow> dyn_epoch_offset \<Rightarrow> 'd epoched_delta
     \<Rightarrow> ('s \<Rightarrow> 'd \<Rightarrow> epoch \<Rightarrow> 's \<times> 'd \<times> bool) \<Rightarrow> 's \<Rightarrow> epoch \<Rightarrow> pos_params
     \<Rightarrow> 's \<times> 'd epoched_delta" where
  "epoched_delta_rev_update_while add off ed update_value s current_epoch p =
     (let ed' = epoched_delta_update_data add off ed current_epoch p;
          (s', xs) = epoched_delta_rev_loop update_value current_epoch
                       (rev [0 ..< offset_ix off p + 1]) s (d_data ed')
      in (s', ed'\<lparr> d_data := xs \<rparr>))"

section \<open>Shifting the data of past epochs into the head\<close>

text \<open>
  The value of an epoch is an aggregate of the entries up to its index: the last set entry for
  \<^verbatim>\<open>Epoched\<close>, the sum of the set entries for \<^verbatim>\<open>EpochedDelta\<close>. What both updates of the data rely on is
  that the aggregate of a prefix can stand in the head for the prefix, and that unset entries at the
  end add nothing.
\<close>

locale epoch_data =
  fixes agg :: "'d option list \<Rightarrow> 'd option"
  assumes agg_head: "agg (agg xs # ys) = agg (xs @ ys)"
    and agg_snoc_None: "agg (xs @ [None]) = agg xs"
begin

lemma agg_append_Nones: "agg (xs @ replicate n None) = agg xs"
proof (induct n)
  case (Suc n)
  have "agg (xs @ replicate (Suc n) None) = agg ((xs @ replicate n None) @ [None])"
    by (simp only: replicate_append_same append_assoc replicate_Suc)
  with Suc show ?case by (simp only: agg_snoc_None)
qed simp

lemma agg_append_only_None: "set ys \<subseteq> {None} \<Longrightarrow> agg (xs @ ys) = agg xs"
  using agg_append_Nones [of xs "length ys"] replicate_length_same [of ys None] by force

lemma agg_take_grow: "agg (take k (vec_grow n xs)) = agg (take k xs)"
  by (simp add: vec_grow_def take_append agg_append_Nones)

text \<open>The data after dropping the entries before \<open>s\<close> into the head, and its aggregates.\<close>

lemma agg_take_tail:
  "agg (take (Suc i) (agg (take (Suc k) xs) # drop (Suc k) xs)) = agg (take (Suc (k + i)) xs)"
  using take_add [of "Suc k" i xs] by (simp add: agg_head)

lemma agg_take_shift:
  assumes "s < length xs"
  shows "agg (take (Suc i) (agg (take (Suc s) xs) # drop (Suc s) xs @ replicate s None))
           = agg (take (Suc (s + i)) xs)"
proof -
  let ?k = "min (i - (length xs - Suc s)) s"
  have "take i (drop (Suc s) xs @ replicate s None) = take i (drop (Suc s) xs) @ replicate ?k None"
    by (simp add: take_append)
  then have "agg (take (Suc i) (agg (take (Suc s) xs) # drop (Suc s) xs @ replicate s None))
      = agg ((take (Suc s) xs @ take i (drop (Suc s) xs)) @ replicate ?k None)"
    by (simp only: take_Suc_Cons agg_head append_assoc)
  also have "\<dots> = agg (take (Suc s) xs @ take i (drop (Suc s) xs))"
    by (rule agg_append_Nones)
  also have "take (Suc s) xs @ take i (drop (Suc s) xs) = take (Suc (s + i)) xs"
    using take_add [of "Suc s" i xs] by simp
  finally show ?thesis .
qed

text \<open>
  A shift by the elapsed epochs, at most the offset, keeps the value of every epoch from the
  current one on.
\<close>

lemma agg_elapsed:
  assumes "length xs \<le> Suc off" "upd \<le> cur" "cur \<le> ep"
  defines "ys \<equiv> vec_grow (Suc off) xs" and "s \<equiv> min (cur - upd) off"
  shows "agg (take (Suc (ep - cur)) (agg (take (Suc s) ys) # drop (Suc s) ys @ replicate s None))
           = agg (take (Suc (ep - upd)) xs)"
proof -
  have len: "length ys = Suc off"
    using assms by (simp add: ys_def vec_grow_def)
  have "agg (take (Suc (ep - cur)) (agg (take (Suc s) ys) # drop (Suc s) ys @ replicate s None))
      = agg (take (Suc (s + (ep - cur))) ys)"
    by (rule agg_take_shift) (simp add: len s_def)
  also have "take (Suc (s + (ep - cur))) ys = take (Suc (ep - upd)) ys"
    using assms(2,3) by (cases "cur - upd \<le> off") (simp_all add: s_def len)
  also have "agg \<dots> = agg (take (Suc (ep - upd)) xs)"
    unfolding ys_def by (rule agg_take_grow)
  finally show ?thesis .
qed

end

section \<open>Correctness of epoched values\<close>

text \<open>The value of an epoch: the last set entry up to its index.\<close>

fun last_set :: "'d option list \<Rightarrow> 'd option" where
  "last_set [] = None"
| "last_set (x # xs) = (case last_set xs of Some v \<Rightarrow> Some v | None \<Rightarrow> x)"

lemma last_set_append:
  "last_set (xs @ ys) = (case last_set ys of Some v \<Rightarrow> Some v | None \<Rightarrow> last_set xs)"
  by (induct xs) (auto split: option.splits)

lemma last_set_snoc [simp]:
  "last_set (xs @ [x]) = (case x of Some v \<Rightarrow> Some v | None \<Rightarrow> last_set xs)"
  by (simp add: last_set_append split: option.splits)

lemma last_set_None_iff: "last_set (take n xs) = None \<longleftrightarrow> (\<forall>j<n. j < length xs \<longrightarrow> xs ! j = None)"
proof -
  have "last_set ys = None \<longleftrightarrow> (\<forall>y\<in>set ys. y = None)" for ys :: "'a option list"
    by (induct ys) (auto split: option.splits)
  then show ?thesis
    by (auto simp: all_set_conv_all_nth)
qed

interpretation last_set: epoch_data last_set
  by unfold_locales (simp_all add: last_set_append split: option.splits)

lemma epoched_get_loop_eq: "epoched_get_loop xs i = last_set (take (Suc i) xs)"
proof (induct xs i rule: epoched_get_loop.induct)
  case (1 xs)
  show ?case by (cases xs) (auto split: option.splits)
next
  case (2 xs i)
  then show ?case
    by (cases "Suc i < length xs")
      (simp_all add: take_Suc_conv_app_nth [of "Suc i"] split: option.splits)
qed

lemma epoched_get_eq:
  "epoched_get ep e = last_set (take (Suc (unat e - unat (last_update ep))) (data ep))"
  by (simp add: epoched_get_def epoched_get_at_index_def epoched_get_loop_eq min_def)

lemma epoched_latest_before_eq: "epoched_latest_before xs i = last_set (take i xs)"
  by (induct xs i rule: epoched_latest_before.induct)
    (auto simp: vec_get_def take_Suc_conv_app_nth split: option.splits)

lemma epoched_clear_prefix_eq:
  "epoched_clear_prefix n xs latest =
     (replicate (min n (length xs)) None @ drop n xs,
      case last_set (take n xs) of Some v \<Rightarrow> Some v | None \<Rightarrow> latest)"
  by (induct n xs latest rule: epoched_clear_prefix.induct) (auto split: option.splits)

lemma rotate_replicate:
  assumes "s \<le> length xs"
  shows "rotate s (replicate s None @ drop s xs) = drop s xs @ replicate s None"
  using rotate_append [of "replicate s None" "drop s xs"] by simp

lemma case_option_id: "(case x of None \<Rightarrow> None | Some v \<Rightarrow> Some v) = x"
  by (cases x) simp_all

text \<open>The well-formedness of epoched data: at most one entry per epoch up to the offset.\<close>

definition epoched_wf :: "dyn_epoch_offset \<Rightarrow> pos_params \<Rightarrow> 'd epoched \<Rightarrow> bool" where
  "epoched_wf off p ep \<longleftrightarrow> length (data ep) \<le> offset_ix off p + 1"

lemma epoched_update_data_eq:
  fixes ep off p c
  defines "s \<equiv> min (unat c - unat (last_update ep)) (offset_ix off p)"
    and "xs \<equiv> vec_grow (Suc (offset_ix off p)) (data ep)"
  shows "epoched_update_data off ep c p =
           \<lparr> last_update = c,
             data = last_set (take (Suc s) xs) # drop (Suc s) xs @ replicate s None \<rparr>"
proof -
  have s: "s < length xs"
    by (simp add: s_def xs_def)
  then have xs: "drop s xs = xs ! s # drop (Suc s) xs"
    by (simp add: Cons_nth_drop_Suc)
  define moved where
    "moved = (case xs ! s of
                None \<Rightarrow> (drop s xs @ replicate s None)[0 := last_set (take s xs)]
              | Some _ \<Rightarrow> drop s xs @ replicate s None)"
  have "moved = last_set (take (Suc s) xs) # drop (Suc s) xs @ replicate s None"
    using s by (simp add: moved_def xs take_Suc_conv_app_nth split: option.splits)
  moreover have "epoched_update_data off ep c p =
      \<lparr> last_update = c,
        data = (if s \<noteq> 0 then
                  (let (cleared, latest) = epoched_clear_prefix (min s (length xs)) xs None;
                       rotated = rotate (min s (length xs)) cleared
                   in case rotated ! 0 of None \<Rightarrow> rotated[0 := latest] | Some _ \<Rightarrow> rotated)
                else xs) \<rparr>"
    by (simp only: epoched_update_data_def Let_def epoch_sub_or_default_unat s_def xs_def
        Suc_eq_plus1)
  then have "epoched_update_data off ep c p =
      \<lparr> last_update = c, data = (if s \<noteq> 0 then moved else xs) \<rparr>"
    using s by (simp add: epoched_clear_prefix_eq rotate_replicate min_absorb1 less_imp_le
        moved_def Let_def nth_append case_option_id cong: option.case_cong)
  moreover have "s = 0 \<Longrightarrow> moved = xs"
    using s by (cases xs) (auto simp: moved_def split: option.splits)
  ultimately show ?thesis
    by simp
qed

lemma length_epoched_update_data:
  "epoched_wf off p ep \<Longrightarrow> length (data (epoched_update_data off ep c p)) = Suc (offset_ix off p)"
  by (simp add: epoched_update_data_eq epoched_wf_def)

lemma last_update_epoched_update_data [simp]:
  "last_update (epoched_update_data off ep c p) = c"
  by (simp add: epoched_update_data_eq)

lemma epoched_get_update_data:
  assumes "epoched_wf off p ep" "last_update ep \<le> c" "c \<le> e"
  shows "epoched_get (epoched_update_data off ep c p) e = epoched_get ep e"
proof -
  have "length (data ep) \<le> Suc (offset_ix off p)"
       "unat (last_update ep) \<le> unat c" "unat c \<le> unat e"
    using assms by (simp_all add: epoched_wf_def word_le_nat_alt)
  from last_set.agg_elapsed [OF this] show ?thesis
    by (simp add: epoched_get_eq epoched_update_data_eq)
qed

lemma epoched_wf_ops:
  "epoched_wf off p (epoched_init_at_genesis v c)"
  "epoched_wf off p (epoched_init off v c p)"
  "epoched_wf off p ep \<Longrightarrow> epoched_wf off p (epoched_update_data off ep c p)"
  "epoched_wf off p ep \<Longrightarrow> epoched_wf off p (epoched_set off ep v c p)"
  by (simp_all add: epoched_init_at_genesis_def epoched_init_def epoched_set_def Let_def
      epoched_wf_def [of off p "epoched_update_data off ep c p"] length_epoched_update_data)
    (simp_all add: epoched_wf_def length_epoched_update_data [unfolded epoched_wf_def])

text \<open>A value set in the entry at the offset is seen exactly from the epoch of that entry on.\<close>

lemma last_set_take_update:
  assumes "length xs = Suc n"
  shows "last_set (take (Suc i) (xs[n := Some v])) =
           (if n \<le> i then Some v else last_set (take (Suc i) xs))"
proof -
  have "xs[n := Some v] = butlast xs @ [Some v]"
    using assms by (metis diff_Suc_1 length_greater_0_conv list_update_length zero_less_Suc
        append_butlast_last_id length_butlast)
  moreover have "take (Suc i) (butlast xs) = take (Suc i) xs" if "i < n"
    using that assms by (simp add: butlast_conv_take)
  ultimately show ?thesis
    using assms by (auto simp: not_le)
qed

lemma epoched_get_after:
  assumes "epoched_wf off p ep" "last_update ep \<le> c" "c \<le> e"
  shows "last_set (take (Suc (unat e - unat c)) (data (epoched_update_data off ep c p)))
           = epoched_get ep e"
  using epoched_get_update_data [OF assms] by (simp add: epoched_get_eq)

lemma epoched_get_set:
  assumes "epoched_wf off p ep" "last_update ep \<le> c" "c \<le> e"
  shows "epoched_get (epoched_set off ep v c p) e =
           (if unat c + offset_ix off p \<le> unat e then Some v else epoched_get ep e)"
proof -
  have "unat c \<le> unat e"
    using assms(3) by (simp add: word_le_nat_alt)
  moreover have "epoched_get (epoched_set off ep v c p) e =
      last_set (take (Suc (unat e - unat c))
        ((data (epoched_update_data off ep c p))[offset_ix off p := Some v]))"
    by (simp add: epoched_get_eq epoched_set_def Let_def)
  ultimately show ?thesis
    using epoched_get_after [OF assms]
      last_set_take_update [OF length_epoched_update_data [OF assms(1)]]
    by auto
qed

text \<open>
  Claim C17. Setting a value at the current epoch changes the timeline exactly from the pipeline or
  unbonding offset on: later epochs read the new value, and every epoch from the current one up to
  the offset still reads what it read before, although the entries of past epochs have been dropped.
\<close>

theorem epoched_set_get:
  assumes "epoched_wf off p ep" "last_update ep \<le> c" "c \<le> e"
  shows "epoched_get (epoched_set off ep v c p) e =
           (if unat c + offset_ix off p \<le> unat e then Some v else epoched_get ep e)"
  by (rule epoched_get_set [OF assms])

theorem epoched_set_get_witness:
  "epoched_get (epoched_set PipelineLen (epoched_init_at_genesis (10 :: int) 3) 20 7 pos_params_default) 8
     = Some 10 \<and>
   epoched_get (epoched_set PipelineLen (epoched_init_at_genesis (10 :: int) 3) 20 7 pos_params_default) 9
     = Some 20"
  using epoched_set_get [of PipelineLen pos_params_default "epoched_init_at_genesis (10 :: int) 3" 7 8 20]
    epoched_set_get [of PipelineLen pos_params_default "epoched_init_at_genesis (10 :: int) 3" 7 9 20]
  by (simp add: epoched_wf_def epoched_init_at_genesis_def pos_params_default_def epoched_get_eq)

text \<open>Updating the entries of a suffix in place.\<close>

lemma epoched_update_entries_last_set:
  assumes "epoched_update_entries f e xs = Some ys"
  shows "case last_set (take n xs) of
           None \<Rightarrow> last_set (take n ys) = None
         | Some d \<Rightarrow> \<exists>i d'. i < n \<and> i < length xs \<and> last_set (take (Suc i) xs) = Some d
                      \<and> f d (e + of_nat i) = Some d' \<and> last_set (take n ys) = Some d'
                      \<and> (\<forall>j. i < j \<longrightarrow> j < n \<longrightarrow> j < length xs \<longrightarrow> xs ! j = None)"
  using assms
proof (induct f e xs arbitrary: ys n rule: epoched_update_entries.induct)
  case (2 f e xs)
  then obtain zs where zs: "epoched_update_entries f (e + 1) xs = Some zs" "ys = None # zs"
    by auto
  show ?case
  proof (cases n)
    case (Suc m)
    show ?thesis
    proof (cases "last_set (take m xs)")
      case None
      with 2(1) [OF zs(1), of m] Suc zs show ?thesis by simp
    next
      case (Some d)
      with 2(1) [OF zs(1), of m] obtain i d' where "i < m" "i < length xs"
        "last_set (take (Suc i) xs) = Some d" "f d (e + 1 + of_nat i) = Some d'"
        "last_set (take m zs) = Some d'" "\<forall>j. i < j \<longrightarrow> j < m \<longrightarrow> j < length xs \<longrightarrow> xs ! j = None"
        by auto
      with Some Suc zs show ?thesis
        by (auto intro!: exI [of _ "Suc i"] simp: add.assoc nth_Cons split: nat.split)
    qed
  qed simp
next
  case (3 f e d xs)
  then obtain d0 zs where zs: "f d e = Some d0" "epoched_update_entries f (e + 1) xs = Some zs"
    "ys = Some d0 # zs"
    by (auto split: option.splits)
  show ?case
  proof (cases n)
    case (Suc m)
    show ?thesis
    proof (cases "last_set (take m xs)")
      case None
      then have "\<forall>j<m. j < length xs \<longrightarrow> xs ! j = None"
        by (simp add: last_set_None_iff)
      with None 3(1) [OF zs(1,2), of m] Suc zs show ?thesis
        by (auto intro!: exI [of _ 0] simp: nth_Cons split: nat.split)
    next
      case (Some d1)
      with 3(1) [OF zs(1,2), of m] obtain i d' where "i < m" "i < length xs"
        "last_set (take (Suc i) xs) = Some d1" "f d1 (e + 1 + of_nat i) = Some d'"
        "last_set (take m zs) = Some d'" "\<forall>j. i < j \<longrightarrow> j < m \<longrightarrow> j < length xs \<longrightarrow> xs ! j = None"
        by auto
      with Some Suc zs show ?thesis
        by (auto intro!: exI [of _ "Suc i"] simp: add.assoc nth_Cons split: nat.split)
    qed
  qed simp
qed simp

lemma length_epoched_update_entries:
  "epoched_update_entries f e xs = Some ys \<Longrightarrow> length ys = length xs"
  by (induct f e xs arbitrary: ys rule: epoched_update_entries.induct)
    (auto split: option.splits)

lemma epoched_update_entries_total:
  "(\<And>d i. i < length xs \<Longrightarrow> f d (e + of_nat i) \<noteq> None) \<Longrightarrow> epoched_update_entries f e xs \<noteq> None"
proof (induct f e xs rule: epoched_update_entries.induct)
  case (2 f e xs)
  have "f d (e + 1 + of_nat i) \<noteq> None" if "i < length xs" for d i
    using 2(2) [of "Suc i" d] that by (simp add: add.assoc)
  with 2(1) show ?case by simp
next
  case (3 f e d xs)
  have "f d (e + 1 + of_nat i) \<noteq> None" if "i < length xs" for d i
    using 3(2) [of "Suc i" d] that by (simp add: add.assoc)
  moreover obtain d' where "f d e = Some d'"
    using 3(2) [of 0 d] by auto
  ultimately show ?case
    using 3(1) by auto
qed simp

text \<open>
  \<^verbatim>\<open>update_from_offset\<close> on the shifted data \<open>xs\<close>: the entry at the offset \<open>k\<close> takes the value that
  epoch reads, and then every set entry from \<open>k\<close> on is changed by the function.
\<close>

lemma epoched_update_from_offset_eq:
  fixes c :: epoch
  assumes "epoched_wf off p ep" "offset_ix at_off p \<le> offset_ix off p"
  defines "xs \<equiv> data (epoched_update_data off ep c p)" and "k \<equiv> offset_ix at_off p"
  shows "epoched_update_from_offset off ep f c at_off p =
           map_option (\<lambda>ys. \<lparr> last_update = c, data = take k xs @ ys \<rparr>)
             (epoched_update_entries f (c + of_nat k)
                (last_set (take (Suc k) xs) # drop (Suc k) xs))"
proof -
  have k: "k < length xs"
    using assms(1,2) by (simp add: xs_def k_def length_epoched_update_data)
  have head: "(case xs ! k of None \<Rightarrow> epoched_latest_before xs k | Some d \<Rightarrow> Some d)
      = last_set (take (Suc k) xs)"
    using k by (simp add: epoched_latest_before_eq take_Suc_conv_app_nth split: option.split)
  have ep: "epoched_update_data off ep c p = \<lparr> last_update = c, data = xs \<rparr>"
    by (simp add: xs_def)
  have next_epoch: "c + of_nat (k + 1) = c + of_nat k + 1"
    by simp
  have "epoched_update_from_offset off ep f c at_off p =
      (case (case last_set (take (Suc k) xs) of
               Some d \<Rightarrow> map_option Some (f d (c + of_nat k)) | None \<Rightarrow> Some None) of
         None \<Rightarrow> None
       | Some entry \<Rightarrow>
           (case epoched_update_entries f (c + of_nat k + 1) (drop (Suc k) xs) of
              None \<Rightarrow> None
            | Some rest \<Rightarrow> Some \<lparr> last_update = c, data = take k xs @ [entry] @ rest \<rparr>))"
    using k
    unfolding epoched_update_from_offset_def Let_def ep k_def [symmetric] epoched.simps head next_epoch
      Suc_eq_plus1
    by (simp add: head)
  then show ?thesis
    by (cases "last_set (take (Suc k) xs)")
      (auto simp: option.map_comp comp_def split: option.split)
qed

lemma epoched_update_from_offset_total:
  assumes "epoched_wf off p ep" "offset_ix at_off p \<le> offset_ix off p"
    and "\<And>d i. offset_ix at_off p \<le> i \<Longrightarrow> i \<le> offset_ix off p \<Longrightarrow> f d (c + of_nat i) \<noteq> None"
  shows "\<exists>ep'. epoched_update_from_offset off ep f c at_off p = Some ep'"
proof -
  let ?k = "offset_ix at_off p" and ?xs = "data (epoched_update_data off ep c p)"
  have "epoched_update_entries f (c + of_nat ?k)
      (last_set (take (Suc ?k) ?xs) # drop (Suc ?k) ?xs) \<noteq> None"
  proof (rule epoched_update_entries_total)
    show "f d (c + of_nat ?k + of_nat i) \<noteq> None"
      if "i < length (last_set (take (Suc ?k) ?xs) # drop (Suc ?k) ?xs)" for d i
      using that assms(2) assms(3) [of "?k + i" d] length_epoched_update_data [OF assms(1), of c]
      by (simp add: add.assoc)
  qed
  then show ?thesis
    by (auto simp: epoched_update_from_offset_eq [OF assms(1,2)])
qed

lemma epoched_update_from_offset_wf:
  assumes "epoched_wf off p ep" "offset_ix at_off p \<le> offset_ix off p"
    and "epoched_update_from_offset off ep f c at_off p = Some ep'"
  shows "epoched_wf off p ep'" "last_update ep' = c"
  using assms(2,3) length_epoched_update_data [OF assms(1), of c]
  by (auto simp: epoched_update_from_offset_eq [OF assms(1,2)] epoched_wf_def
      dest!: length_epoched_update_entries)

lemma unat_add_of_nat:
  "unat c + n < 2 ^ 64 \<Longrightarrow> unat (c + of_nat n :: u64) = unat c + n"
  by (simp add: unat_add_no_wrap unat_of_nat_u64)

text \<open>Shifting keeps the entries of the epochs after the current one.\<close>

lemma shifted_entry:
  fixes xs :: "'d option list" and h
  assumes "length xs \<le> Suc n" "upd \<le> cur" "cur < x"
  defines "s \<equiv> min (cur - upd) n" and "ys \<equiv> vec_grow (Suc n) xs"
  defines "zs \<equiv> h # drop (Suc s) ys @ replicate s None"
  shows "(if x - cur < length zs then zs ! (x - cur) else None) =
         (if x - upd < length xs then xs ! (x - upd) else None)"
proof -
  obtain j where j: "x - cur = Suc j"
    using assms(3) by (metis Suc_diff_Suc)
  have xu: "x - upd = (cur - upd) + Suc j"
    using j assms(2,3) by simp
  have len: "length ys = Suc n"
    using assms(1) by (simp add: ys_def)
  have ys: "ys ! i = (if i < length xs then xs ! i else None)" if "i < Suc n" for i
    using that by (auto simp: ys_def vec_grow_def nth_append)
  have "(if x - cur < length zs then zs ! (x - cur) else None) =
      (if s + Suc j < Suc n then ys ! (s + Suc j) else None)"
    using j len by (auto simp: zs_def nth_append)
  also have "\<dots> = (if x - upd < length xs then xs ! (x - upd) else None)"
    using assms(1) ys [of "s + Suc j"] by (auto simp: s_def min_def xu)
  finally show ?thesis .
qed

lemma epoched_get_at_epoch_eq:
  "epoched_get_at_epoch ep x =
     (if unat x - unat (last_update ep) < length (data ep)
      then data ep ! (unat x - unat (last_update ep)) else None)"
  by (simp add: epoched_get_at_epoch_def vec_get_def)

lemma epoched_get_at_epoch_update_data:
  assumes "epoched_wf off p ep" "last_update ep \<le> c" "c < x"
  shows "epoched_get_at_epoch (epoched_update_data off ep c p) x = epoched_get_at_epoch ep x"
proof -
  have "length (data ep) \<le> Suc (offset_ix off p)" "unat (last_update ep) \<le> unat c" "unat c < unat x"
    using assms by (simp_all add: epoched_wf_def word_le_nat_alt word_less_nat_alt)
  from shifted_entry [OF this] show ?thesis
    by (simp only: epoched_get_at_epoch_eq epoched_update_data_eq epoched.simps)
qed

lemma epoched_update_from_offset_later:
  fixes ep :: "'d epoched"
  assumes wf: "epoched_wf off p ep" "last_update ep \<le> c" "c \<le> e"
    and at: "offset_ix at_off p \<le> offset_ix off p" "unat c + offset_ix off p < 2 ^ 64"
    and res: "epoched_update_from_offset off ep f c at_off p = Some ep'"
    and later: "unat c + offset_ix at_off p \<le> unat e"
  shows "case epoched_get ep e of
           None \<Rightarrow> epoched_get ep' e = None
         | Some d \<Rightarrow> \<exists>e' d'. unat c + offset_ix at_off p \<le> unat e' \<and> e' \<le> e \<and>
                       (\<forall>x. e' < x \<and> x \<le> e \<longrightarrow> epoched_get_at_epoch ep x = None) \<and>
                       epoched_get ep e' = Some d \<and> f d e' = Some d' \<and> epoched_get ep' e = Some d'"
proof -
  define xs k m where "xs = data (epoched_update_data off ep c p)" and "k = offset_ix at_off p"
    and "m = unat e - (unat c + k)"
  let ?tail = "last_set (take (Suc k) xs) # drop (Suc k) xs"
  have len: "length xs = Suc (offset_ix off p)"
    using wf(1) by (simp add: xs_def length_epoched_update_data)
  have k: "k \<le> length xs"
    using len at(1) by (simp add: k_def)
  have em: "unat e = unat c + (k + m)" and e: "Suc (unat e - unat c) = Suc (k + m)"
    using later by (simp_all add: m_def k_def)
  have old: "epoched_get ep x = last_set (take (Suc i) ?tail)"
    if "unat x = unat c + (k + i)" for x i
    using epoched_get_after [OF wf(1,2), of x] last_set.agg_take_tail [of i k xs] that
    by (simp add: word_le_nat_alt xs_def)
  obtain ys where ys: "epoched_update_entries f (c + of_nat k) ?tail = Some ys"
    "ep' = \<lparr> last_update = c, data = take k xs @ ys \<rparr>"
    using res unfolding epoched_update_from_offset_eq [OF wf(1) at(1)] by (auto simp: xs_def k_def)
  have new: "epoched_get ep' e =
      (case last_set (take (Suc m) ys) of Some v \<Rightarrow> Some v | None \<Rightarrow> last_set (take k xs))"
    using k e by (simp add: ys(2) epoched_get_eq last_set_append min_absorb2)
  show ?thesis
  proof (cases "epoched_get ep e")
    case None
    then have tail: "last_set (take (Suc m) ?tail) = None"
      using old [OF em] by simp
    then have "last_set (take (Suc (k + m)) xs) = None"
      by (simp only: last_set.agg_take_tail)
    with tail epoched_update_entries_last_set [OF ys(1), of "Suc m"] None show ?thesis
      using last_set_append [of "take k xs" "take (Suc m) (drop k xs)"] take_add [of k "Suc m" xs]
      by (simp add: new split: option.splits)
  next
    case (Some d)
    then obtain i d' where i: "i < Suc m" "i < length ?tail" "last_set (take (Suc i) ?tail) = Some d"
      "f d (c + of_nat k + of_nat i) = Some d'" "last_set (take (Suc m) ys) = Some d'"
      "\<And>j. i < j \<Longrightarrow> j < Suc m \<Longrightarrow> j < length ?tail \<Longrightarrow> ?tail ! j = None"
      using epoched_update_entries_last_set [OF ys(1), of "Suc m"] old [OF em] by auto
    have e': "unat (c + of_nat (k + i)) = unat c + (k + i)"
      using i(2) at len by (intro unat_add_of_nat) (simp add: k_def)
    have "epoched_get_at_epoch ep x = None" if x: "c + of_nat (k + i) < x" "x \<le> e" for x
    proof -
      define j where "j = unat x - (unat c + k)"
      have j: "unat x = unat c + (k + j)" "i < j" "j < Suc m"
        using x e' em by (simp_all add: word_less_nat_alt word_le_nat_alt j_def del: of_nat_add)
      then have "epoched_get_at_epoch (epoched_update_data off ep c p) x = None"
        using i(6) [of j] by (cases j) (auto simp: epoched_get_at_epoch_eq xs_def)
      with epoched_get_at_epoch_update_data [OF wf(1,2)] j show ?thesis
        by (simp add: word_less_nat_alt)
    qed
    with i old [OF e'] e' em Some new show ?thesis
      by (auto intro!: exI [of _ "c + of_nat (k + i)"]
          simp: add.assoc word_le_nat_alt k_def)
  qed
qed

lemma epoched_update_entries_None:
  "epoched_update_entries f e xs = Some ys \<Longrightarrow> j < length xs \<Longrightarrow> ys ! j = None \<longleftrightarrow> xs ! j = None"
  by (induct f e xs arbitrary: ys j rule: epoched_update_entries.induct)
    (auto split: option.splits simp: nth_Cons split: nat.splits)

text \<open>
  The update leaves an entry for the epoch at the offset, and keeps the entries of later epochs.
\<close>

lemma epoched_update_from_offset_entries:
  assumes wf: "epoched_wf off p ep" "last_update ep \<le> c" "c < x"
    and at: "offset_ix at_off p \<le> offset_ix off p"
    and res: "epoched_update_from_offset off ep f c at_off p = Some ep'"
  shows "epoched_get_at_epoch ep' x \<noteq> None \<longleftrightarrow>
    epoched_get_at_epoch ep x \<noteq> None \<or>
    unat x = unat c + offset_ix at_off p \<and> epoched_get ep x \<noteq> None"
proof -
  define xs k where "xs = data (epoched_update_data off ep c p)" and "k = offset_ix at_off p"
  let ?tail = "last_set (take (Suc k) xs) # drop (Suc k) xs"
  have len: "length xs = Suc (offset_ix off p)"
    using wf(1) by (simp add: xs_def length_epoched_update_data)
  then have k: "k < length xs"
    using at by (simp add: k_def)
  obtain ys where ys: "epoched_update_entries f (c + of_nat k) ?tail = Some ys"
    "ep' = \<lparr> last_update = c, data = take k xs @ ys \<rparr>"
    using res unfolding epoched_update_from_offset_eq [OF wf(1) at] by (auto simp: xs_def k_def)
  have old: "epoched_get_at_epoch ep x =
      (if unat x - unat c < length xs then xs ! (unat x - unat c) else None)"
    unfolding epoched_get_at_epoch_update_data [OF wf, symmetric]
    by (simp only: epoched_get_at_epoch_eq xs_def last_update_epoched_update_data)
  have new: "epoched_get_at_epoch ep' x =
      (if unat x - unat c < length xs then (take k xs @ ys) ! (unat x - unat c) else None)"
  proof -
    have "length (take k xs @ ys) = length xs"
      using length_epoched_update_entries [OF ys(1)] k by simp
    then show ?thesis
      by (simp only: ys(2) epoched_get_at_epoch_eq epoched.simps)
  qed
  have get: "epoched_get ep x = last_set (take (Suc k) xs)" if "unat x = unat c + k"
    using epoched_get_after [OF wf(1,2), of x] wf(3) that by (simp add: xs_def)
  consider "unat x - unat c < k" | "unat x = unat c + k" | "k < unat x - unat c"
    using wf(3) by (fastforce simp: word_less_nat_alt)
  then show ?thesis
  proof cases
    case 1
    with old new k show ?thesis by (auto simp: nth_append k_def)
  next
    case 2
    then have "epoched_get_at_epoch ep' x = None \<longleftrightarrow> last_set (take (Suc k) xs) = None"
      using epoched_update_entries_None [OF ys(1), of 0] new k by (simp add: nth_append)
    moreover have "last_set (take (Suc k) xs) \<noteq> None" if "epoched_get_at_epoch ep x \<noteq> None"
      using old that k 2 by (auto simp: take_Suc_conv_app_nth split: option.splits)
    ultimately show ?thesis
      using get 2 by (auto simp: k_def)
  next
    case 3
    then obtain j where j: "unat x - unat c = k + Suc j"
      by (metis less_imp_Suc_add add_Suc_right)
    have "k + Suc j < length xs \<longleftrightarrow> Suc j < length ?tail"
      using k by auto
    then show ?thesis
      using epoched_update_entries_None [OF ys(1), of "Suc j"] old new j k
      by (auto simp: nth_append k_def simp del: length_Cons)
  qed
qed

lemma epoched_update_from_offset_earlier:
  assumes "epoched_wf off p ep" "last_update ep \<le> c" "c \<le> e"
    and at: "offset_ix at_off p \<le> offset_ix off p"
    and res: "epoched_update_from_offset off ep f c at_off p = Some ep'"
    and "unat e < unat c + offset_ix at_off p"
  shows "epoched_get ep' e = epoched_get ep e"
  using epoched_get_after [OF assms(1-3)] assms(3,6) res at
    length_epoched_update_data [OF assms(1), of c]
  unfolding epoched_update_from_offset_eq [OF assms(1) at]
  by (auto simp: epoched_get_eq [of ep'] word_le_nat_alt min_def take_append)

text \<open>
  Claim C18. Changing the values from an offset on: epochs from the current one up to the offset read
  what they read before. A later epoch reads nothing if it read nothing before, and otherwise the
  result of the function on the value it read before, applied once for the latest epoch between the
  offset and that epoch that has an entry of its own, where the same value was already in force.
\<close>

theorem epoched_update_from_offset_get:
  assumes "epoched_wf off p ep" "last_update ep \<le> c" "c \<le> e"
    and "offset_ix at_off p \<le> offset_ix off p" "unat c + offset_ix off p < 2 ^ 64"
    and "epoched_update_from_offset off ep f c at_off p = Some ep'"
  shows "if unat e < unat c + offset_ix at_off p then epoched_get ep' e = epoched_get ep e
         else (case epoched_get ep e of
                 None \<Rightarrow> epoched_get ep' e = None
               | Some d \<Rightarrow> \<exists>e' d'. unat c + offset_ix at_off p \<le> unat e' \<and> e' \<le> e \<and>
                   (\<forall>x. e' < x \<and> x \<le> e \<longrightarrow> epoched_get_at_epoch ep x = None) \<and>
                   epoched_get ep e' = Some d \<and> f d e' = Some d' \<and> epoched_get ep' e = Some d')"
  using epoched_update_from_offset_earlier [OF assms(1-4,6)]
    epoched_update_from_offset_later [OF assms] by (simp add: not_less)

theorem epoched_update_from_offset_get_witness:
  "\<exists>ep'. epoched_update_from_offset UnbondingLen (epoched_init_at_genesis (10 :: int) 3)
            (\<lambda>d e. Some (d + 1)) 7 PipelineLen pos_params_default = Some ep' \<and>
         epoched_get ep' 8 = Some 10 \<and> epoched_get ep' 12 = Some 11"
proof -
  let ?ep = "epoched_init_at_genesis (10 :: int) 3"
  have wf: "epoched_wf UnbondingLen pos_params_default ?ep"
    by (rule epoched_wf_ops)
  obtain ep' where ep': "epoched_update_from_offset UnbondingLen ?ep
            (\<lambda>d e. Some (d + 1)) 7 PipelineLen pos_params_default = Some ep'"
    using epoched_update_from_offset_total [OF wf, of PipelineLen "\<lambda>d e. Some (d + 1)"]
    by (auto simp: pos_params_default_def)
  have "epoched_get ?ep e = Some 10" for e
    by (simp add: epoched_get_eq epoched_init_at_genesis_def)
  then have "epoched_get ep' 8 = Some 10" "epoched_get ep' 12 = Some 11"
    using epoched_update_from_offset_get [OF wf, of 7 8 PipelineLen "\<lambda>d e. Some (d + 1)" ep'] ep'
      epoched_update_from_offset_get [OF wf, of 7 12 PipelineLen "\<lambda>d e. Some (d + 1)" ep']
    by (auto simp: pos_params_default_def epoched_init_at_genesis_def)
  with ep' show ?thesis by blast
qed

text \<open>
  Claim C19. Every operation on epoched values keeps the data within one entry per epoch up to the
  offset: the two constructors establish it, and shifting, setting and updating keep it, so the
  index of every later access at the data's own offset is in range.
\<close>

theorem epoched_ops_wf:
  assumes "epoched_wf off p ep" "offset_ix at_off p \<le> offset_ix off p"
  shows "epoched_wf off p (epoched_init_at_genesis v c) \<and> epoched_wf off p (epoched_init off v c p) \<and>
    epoched_wf off p (epoched_update_data off ep c p) \<and> epoched_wf off p (epoched_set off ep v c p) \<and>
    offset_ix off p < length (data (epoched_update_data off ep c p)) \<and>
    pred_option (epoched_wf off p) (epoched_update_from_offset off ep f c at_off p)"
  using epoched_wf_ops [of off p] epoched_update_from_offset_wf [OF assms]
    length_epoched_update_data [OF assms(1)] assms(1)
  by (cases "epoched_update_from_offset off ep f c at_off p") auto

theorem epoched_ops_wf_witness:
  "epoched_wf UnbondingLen pos_params_default
     (epoched_set UnbondingLen (epoched_init UnbondingLen (1 :: int) 4 pos_params_default) 2 5
        pos_params_default)"
  using epoched_ops_wf [of UnbondingLen pos_params_default
      "epoched_init UnbondingLen (1 :: int) 4 pos_params_default" PipelineLen 2 5]
  by (simp add: epoched_wf_def epoched_init_def pos_params_default_def)

text \<open>
  \<^verbatim>\<open>get_at_epoch\<close> of epoched values reads the entry of the last update for any epoch before it, where its
  documentation promises no value.
\<close>

lemma epoched_get_at_epoch_before_last_update:
  "e \<le> last_update ep \<Longrightarrow> epoched_get_at_epoch ep e = epoched_get_at_epoch ep (last_update ep)"
  by (auto simp: epoched_get_at_epoch_def epoch_sub_or_default_def epoch_checked_sub_def)

section \<open>Correctness of epoched differences\<close>

definition delta_agg :: "('d \<Rightarrow> 'd \<Rightarrow> 'd) \<Rightarrow> 'd option list \<Rightarrow> 'd option" where
  "delta_agg add xs = fold (\<lambda>next acc. delta_plus add acc next) xs None"

lemma delta_plus_None [simp]: "delta_plus add None x = x" "delta_plus add x None = x"
  by (cases x; simp)+

interpretation delta_agg: epoch_data "delta_agg add" for add
  by unfold_locales (simp_all add: delta_agg_def)

lemma epoched_delta_get_eq:
  "epoched_delta_get add ed e
     = delta_agg add (take (Suc (unat e - unat (d_last_update ed))) (d_data ed))"
  by (simp add: epoched_delta_get_def epoched_delta_get_at_index_def delta_agg_def min_def)

lemma epoched_delta_clear_prefix_eq:
  "epoched_delta_clear_prefix add n xs acc =
     (replicate (min n (length xs)) None @ drop n xs,
      fold (\<lambda>next acc. delta_plus add acc next) (take n xs) acc)"
  by (induct add n xs acc rule: epoched_delta_clear_prefix.induct) auto

definition epoched_delta_wf :: "dyn_epoch_offset \<Rightarrow> pos_params \<Rightarrow> 'd epoched_delta \<Rightarrow> bool" where
  "epoched_delta_wf off p ed \<longleftrightarrow> length (d_data ed) \<le> offset_ix off p + 1"

lemma delta_plus_case:
  "(case (acc, x) of (Some s, Some first) \<Rightarrow> Some (add s first) | (Some s, None) \<Rightarrow> Some s
                   | (None, first) \<Rightarrow> first) = delta_plus add acc x"
  by (cases acc; cases x) simp_all

lemma epoched_delta_update_data_eq:
  fixes c off p ed
  defines "s \<equiv> min (unat c - unat (d_last_update ed)) (offset_ix off p)"
    and "xs \<equiv> vec_grow (Suc (offset_ix off p)) (d_data ed)"
  shows "epoched_delta_update_data add off ed c p =
           \<lparr> d_last_update = c,
             d_data = delta_agg add (take (Suc s) xs) # drop (Suc s) xs @ replicate s None \<rparr>"
proof -
  have s: "s < length xs"
    by (simp add: s_def xs_def)
  then have xs: "drop s xs = xs ! s # drop (Suc s) xs"
    by (simp add: Cons_nth_drop_Suc)
  have rot: "rotate s (replicate s None @ xs ! s # drop (Suc s) xs)
      = xs ! s # drop (Suc s) xs @ replicate s None"
    using rotate_replicate [of s xs] s by (simp add: xs)
  have head: "delta_agg add (take (Suc s) xs) = delta_plus add (delta_agg add (take s xs)) (xs ! s)"
    using s by (simp add: delta_agg_def take_Suc_conv_app_nth)
  have "epoched_delta_update_data add off ed c p =
      \<lparr> d_last_update = c,
        d_data = (if s \<noteq> 0 then
                  (let (cleared, acc) = epoched_delta_clear_prefix add (min s (length xs)) xs None;
                       rotated = rotate (min s (length xs)) cleared
                   in rotated[0 := delta_plus add acc (rotated ! 0)])
                else xs) \<rparr>"
    unfolding epoched_delta_update_data_def Let_def epoch_sub_or_default_unat s_def xs_def
      Suc_eq_plus1 delta_plus_case ..
  also have "\<dots> = \<lparr> d_last_update = c,
      d_data = (if s \<noteq> 0 then delta_agg add (take (Suc s) xs) # drop (Suc s) xs @ replicate s None
                else xs) \<rparr>"
    using s by (simp add: epoched_delta_clear_prefix_eq rot min_absorb1 Let_def head xs
        flip: delta_agg_def)
  finally have "epoched_delta_update_data add off ed c p = \<dots>" .
  moreover have "delta_agg add (take (Suc 0) xs) # drop (Suc 0) xs = xs"
    using s by (cases xs) (simp_all add: delta_agg_def)
  ultimately show ?thesis
    by simp
qed

lemma length_epoched_delta_update_data:
  "epoched_delta_wf off p ed
     \<Longrightarrow> length (d_data (epoched_delta_update_data add off ed c p)) = Suc (offset_ix off p)"
  by (simp add: epoched_delta_update_data_eq epoched_delta_wf_def)

lemma d_last_update_epoched_delta_update_data [simp]:
  "d_last_update (epoched_delta_update_data add off ed c p) = c"
  by (simp add: epoched_delta_update_data_eq)

lemma epoched_delta_get_update_data:
  assumes "epoched_delta_wf off p ed" "d_last_update ed \<le> c" "c \<le> e"
  shows "epoched_delta_get add (epoched_delta_update_data add off ed c p) e
           = epoched_delta_get add ed e"
proof -
  have "length (d_data ed) \<le> Suc (offset_ix off p)"
       "unat (d_last_update ed) \<le> unat c" "unat c \<le> unat e"
    using assms by (simp_all add: epoched_delta_wf_def word_le_nat_alt)
  from delta_agg.agg_elapsed [OF this] show ?thesis
    by (simp add: epoched_delta_get_eq epoched_delta_update_data_eq)
qed

lemma delta_at_epoch_eq:
  assumes "d_last_update ed \<le> x"
  shows "epoched_delta_get_delta_at_epoch ed x =
     (if unat x - unat (d_last_update ed) < length (d_data ed)
      then d_data ed ! (unat x - unat (d_last_update ed)) else None)"
  using assms by (simp add: epoched_delta_get_delta_at_epoch_def epoch_checked_sub_def vec_get_def
      checked_sub_def unat_sub not_less [symmetric])

lemma delta_at_epoch_update_data:
  assumes "epoched_delta_wf off p ed" "d_last_update ed \<le> c" "c < x"
  shows "epoched_delta_get_delta_at_epoch (epoched_delta_update_data add off ed c p) x
           = epoched_delta_get_delta_at_epoch ed x"
proof -
  have "length (d_data ed) \<le> Suc (offset_ix off p)" "unat (d_last_update ed) \<le> unat c"
    "unat c < unat x"
    using assms by (simp_all add: epoched_delta_wf_def word_le_nat_alt word_less_nat_alt)
  from shifted_entry [OF this] show ?thesis
    using assms(2,3) order.strict_trans1 [OF assms(2,3)]
    by (simp only: delta_at_epoch_eq epoched_delta_update_data_eq epoched_delta.simps less_imp_le)
qed

text \<open>The sum stays the same over epochs without a delta of their own.\<close>

lemma epoched_delta_get_unchanged:
  assumes "d_last_update ed \<le> e'" "e' \<le> e"
    and none: "\<And>x. e' < x \<Longrightarrow> x \<le> e \<Longrightarrow> epoched_delta_get_delta_at_epoch ed x = None"
  shows "epoched_delta_get add ed e = epoched_delta_get add ed e'"
proof -
  let ?u = "unat (d_last_update ed)" and ?xs = "d_data ed"
  have le: "?u \<le> unat e'" "unat e' \<le> unat e"
    using assms by (simp_all add: word_le_nat_alt)
  have entry: "?xs ! i = None" if i: "unat e' - ?u < i" "i \<le> unat e - ?u" "i < length ?xs" for i
  proof -
    have "?u + i \<le> unat e"
      using i(2) le by simp
    then have "?u + i < 2 ^ 64"
      using order.strict_trans1 [OF _ unat_u64_bound] by simp
    then have x: "unat (d_last_update ed + of_nat i) = ?u + i"
      by (rule unat_add_of_nat)
    with i le show ?thesis
      using none [of "d_last_update ed + of_nat i"]
        delta_at_epoch_eq [of ed "d_last_update ed + of_nat i"]
      by (simp add: word_less_nat_alt word_le_nat_alt)
  qed
  define i0 n where "i0 = Suc (unat e' - ?u)" and "n = unat e - unat e'"
  have "Suc (unat e - ?u) = i0 + n"
    using le by (simp add: i0_def n_def)
  moreover have "set (take n (drop i0 ?xs)) \<subseteq> {None}"
    using entry le by (auto simp: in_set_conv_nth i0_def n_def)
  ultimately show ?thesis
    by (simp add: epoched_delta_get_eq take_add delta_agg.agg_append_only_None flip: i0_def)
qed

lemma length_delta_add_at [simp]: "length (delta_add_at add v i xs) = length xs"
  by (simp add: delta_add_at_def)

text \<open>Adding a difference leaves a delta at its epoch and keeps the later deltas.\<close>

lemma delta_at_epoch_add_at:
  assumes "epoched_delta_wf off p ed" "d_last_update ed \<le> c" "c < x"
    and "i < length (d_data (epoched_delta_update_data add off ed c p))"
    and "ed' = (epoched_delta_update_data add off ed c p)\<lparr>
           d_data := delta_add_at add v i (d_data (epoched_delta_update_data add off ed c p)) \<rparr>"
  shows "epoched_delta_get_delta_at_epoch ed' x \<noteq> None \<longleftrightarrow>
    epoched_delta_get_delta_at_epoch ed x \<noteq> None \<or> unat x = unat c + i"
proof -
  let ?xs = "d_data (epoched_delta_update_data add off ed c p)"
  have "d_last_update ed \<le> x" "c \<le> x" "unat c < unat x"
    using assms(2,3) by (auto simp: word_less_nat_alt word_le_nat_alt)
  then have "epoched_delta_get_delta_at_epoch ed x =
      (if unat x - unat c < length ?xs then ?xs ! (unat x - unat c) else None)"
    and "epoched_delta_get_delta_at_epoch ed' x =
      (if unat x - unat c < length ?xs then delta_add_at add v i ?xs ! (unat x - unat c) else None)"
    unfolding delta_at_epoch_update_data [OF assms(1-3), of add, symmetric]
    using assms(5) by (simp_all add: delta_at_epoch_eq)
  with assms(4) \<open>unat c < unat x\<close> show ?thesis
    by (auto simp: delta_add_at_def nth_list_update split: option.splits)
qed

lemma delta_at_epoch_ops:
  assumes wf: "epoched_delta_wf off p ed" "d_last_update ed \<le> c" "c < x"
  shows "epoched_delta_get_delta_at_epoch (epoched_delta_add add off ed v c p) x \<noteq> None \<longleftrightarrow>
      epoched_delta_get_delta_at_epoch ed x \<noteq> None \<or> unat x = unat c + offset_ix off p"
    and "epoched_delta_add_at_offset add off ed v c at_off p = Some ed1 \<Longrightarrow>
      epoched_delta_get_delta_at_epoch ed1 x \<noteq> None \<longleftrightarrow>
      epoched_delta_get_delta_at_epoch ed x \<noteq> None \<or> unat x = unat c + offset_ix at_off p"
    and "epoched_delta_add_at_epoch add off ed v c u p = Some ed2 \<Longrightarrow> c \<le> u \<Longrightarrow>
      epoched_delta_get_delta_at_epoch ed2 x \<noteq> None \<longleftrightarrow>
      epoched_delta_get_delta_at_epoch ed x \<noteq> None \<or> x = u"
  subgoal
    by (rule delta_at_epoch_add_at [OF wf])
      (simp_all add: length_epoched_delta_update_data [OF wf(1)] epoched_delta_add_def Let_def)
  subgoal
    by (rule delta_at_epoch_add_at [OF wf])
      (auto simp: epoched_delta_add_at_offset_def Let_def split: if_splits)
  subgoal
    using delta_at_epoch_add_at [OF wf, of "unat (u - c)" add ed2 v]
    by (auto simp: epoched_delta_add_at_epoch_def Let_def unat_sub word_le_nat_alt
        word_unat_eq_iff split: if_splits)
  done

lemma epoched_delta_wf_ops:
  "epoched_delta_wf off p (epoched_delta_init_at_genesis v c)"
  "epoched_delta_wf off p (epoched_delta_init off v c p)"
  "offset_ix at_off p \<le> offset_ix off p
     \<Longrightarrow> epoched_delta_wf off p (epoched_delta_init_at_offset v c at_off p)"
  by (simp_all add: epoched_delta_init_at_genesis_def epoched_delta_init_def
      epoched_delta_init_at_offset_def epoched_delta_init_at_index_def epoched_delta_wf_def)

lemma epoched_delta_wf_add:
  assumes "epoched_delta_wf off p ed"
  shows "epoched_delta_wf off p (epoched_delta_update_data add off ed c p)"
    and "epoched_delta_wf off p (epoched_delta_add add off ed v c p)"
    and "epoched_delta_wf off p (epoched_delta_delete_current add off ed c p)"
    and "epoched_delta_add_at_offset add off ed v c at_off p = Some ed' \<Longrightarrow> epoched_delta_wf off p ed'"
    and "epoched_delta_add_at_epoch add off ed v c e p = Some ed' \<Longrightarrow> epoched_delta_wf off p ed'"
  using length_epoched_delta_update_data [OF assms, of add c]
  by (auto simp: epoched_delta_wf_def epoched_delta_add_def epoched_delta_delete_current_def
      epoched_delta_add_at_offset_def epoched_delta_add_at_epoch_def Let_def split: if_splits)

subsection \<open>Totals of differences\<close>

text \<open>
  What a client reads of an epoched difference is an amount of the sum of its data, and nothing set
  reads as zero (\<^verbatim>\<open>unwrap_or_default\<close> in the callers). The contract of the data is that its addition
  adds the amounts.
\<close>

definition opt_amount :: "('d \<Rightarrow> 'b :: zero) \<Rightarrow> 'd option \<Rightarrow> 'b" where
  "opt_amount amount x = (case x of None \<Rightarrow> 0 | Some d \<Rightarrow> amount d)"

lemma opt_amount_simps [simp]:
  "opt_amount amount None = 0" "opt_amount amount (Some d) = amount d"
  by (simp_all add: opt_amount_def)

definition delta_total ::
  "('d \<Rightarrow> 'd \<Rightarrow> 'd) \<Rightarrow> ('d \<Rightarrow> 'b :: zero) \<Rightarrow> 'd epoched_delta \<Rightarrow> epoch \<Rightarrow> 'b" where
  "delta_total add amount ed e = opt_amount amount (epoched_delta_get add ed e)"

lemma sum_list_replicate_0: "sum_list (replicate n (0 :: 'b :: comm_monoid_add)) = 0"
  by (induct n) simp_all

lemma rev_loop_Cons_cases:
  assumes "epoched_delta_rev_loop f e (ix # ixs) s xs = (s', xs')"
  obtains
    (skip) "epoched_delta_rev_loop f e ixs s xs = (s', xs')" "ix < length xs \<Longrightarrow> xs ! ix = None"
  | (stop) d d1 where "ix < length xs" "xs ! ix = Some d" "f s d (e + of_nat ix) = (s', d1, False)"
      "xs' = xs[ix := Some d1]"
  | (go) d s1 d1 where "ix < length xs" "xs ! ix = Some d" "f s d (e + of_nat ix) = (s1, d1, True)"
      "epoched_delta_rev_loop f e ixs s1 (xs[ix := Some d1]) = (s', xs')"
  using assms
  by (cases "ix < length xs"; cases "xs ! ix"; cases "f s (the (xs ! ix)) (e + of_nat ix)")
    (auto simp: Let_def split: if_splits)

locale delta_data =
  fixes add :: "'d \<Rightarrow> 'd \<Rightarrow> 'd" and amount :: "'d \<Rightarrow> 'b :: comm_monoid_add"
  assumes amount_add: "amount (add x y) = amount x + amount y"
begin

lemma opt_amount_plus:
  "opt_amount amount (delta_plus add x y) = opt_amount amount x + opt_amount amount y"
  by (cases x; cases y) (simp_all add: amount_add)

lemma amount_agg: "opt_amount amount (delta_agg add xs) = (\<Sum>x\<leftarrow>xs. opt_amount amount x)"
  by (induct xs rule: rev_induct) (simp_all add: delta_agg_def opt_amount_plus)

lemma total_eq:
  "delta_total add amount ed e =
     (\<Sum>x\<leftarrow>take (Suc (unat e - unat (d_last_update ed))) (d_data ed). opt_amount amount x)"
  by (simp add: delta_total_def epoched_delta_get_eq amount_agg)

lemma sum_add_at:
  assumes "i < length xs"
  shows "(\<Sum>x\<leftarrow>take n (delta_add_at add v i xs). opt_amount amount x) =
           (\<Sum>x\<leftarrow>take n xs. opt_amount amount x) + (if i < n then amount v else 0)"
  using assms
proof (induct xs arbitrary: i n)
  case (Cons x xs)
  show ?case
  proof (cases n)
    case (Suc m)
    show ?thesis
    proof (cases i)
      case 0
      with Suc show ?thesis
        by (cases x) (simp_all add: delta_add_at_def amount_add ac_simps)
    next
      case (Suc j)
      with Cons.hyps [of j m] Cons.prems \<open>n = Suc m\<close> show ?thesis
        by (auto simp: delta_add_at_def add.assoc)
    qed
  qed simp
qed simp

lemma total_after_update:
  assumes "epoched_delta_wf off p ed" "d_last_update ed \<le> c" "c \<le> e"
  shows "(\<Sum>x\<leftarrow>take (Suc (unat e - unat c)) (d_data (epoched_delta_update_data add off ed c p)).
            opt_amount amount x) = delta_total add amount ed e"
  using epoched_delta_get_update_data [OF assms, of add]
  by (simp add: delta_total_def epoched_delta_get_eq flip: amount_agg)

lemma total_add:
  assumes "epoched_delta_wf off p ed" "d_last_update ed \<le> c" "c \<le> e"
  shows "delta_total add amount (epoched_delta_add add off ed v c p) e =
           delta_total add amount ed e
             + (if unat c + offset_ix off p \<le> unat e then amount v else 0)"
  using assms(1,3) unfolding total_after_update [OF assms, symmetric]
  by (auto simp: total_eq epoched_delta_add_def Let_def sum_add_at word_le_nat_alt
      length_epoched_delta_update_data)

lemma total_add_at_offset:
  assumes "epoched_delta_wf off p ed" "d_last_update ed \<le> c" "c \<le> e"
    and "epoched_delta_add_at_offset add off ed v c at_off p = Some ed'"
  shows "delta_total add amount ed' e =
           delta_total add amount ed e
             + (if unat c + offset_ix at_off p \<le> unat e then amount v else 0)"
  using assms(1,3,4) unfolding total_after_update [OF assms(1-3), symmetric]
  by (auto simp: total_eq epoched_delta_add_at_offset_def Let_def sum_add_at word_le_nat_alt
      length_epoched_delta_update_data split: if_splits)

lemma total_add_at_epoch:
  assumes "epoched_delta_wf off p ed" "d_last_update ed \<le> c" "c \<le> e" "c \<le> u"
    and "epoched_delta_add_at_epoch add off ed v c u p = Some ed'"
  shows "delta_total add amount ed' e =
           delta_total add amount ed e + (if u \<le> e then amount v else 0)"
  using assms(1,3,4,5) unfolding total_after_update [OF assms(1-3), symmetric]
  by (auto simp: total_eq epoched_delta_add_at_epoch_def Let_def sum_add_at word_le_nat_alt
      length_epoched_delta_update_data unat_sub split: if_splits)

lemma total_init_at_index:
  "delta_total add amount (epoched_delta_init_at_index v c i) e =
     (if i \<le> unat e - unat c then amount v else 0)"
  by (auto simp: total_eq epoched_delta_init_at_index_def take_Cons' sum_list_replicate_0)

lemma total_delete_current:
  assumes "epoched_delta_wf off p ed" "d_last_update ed \<le> c" "c \<le> e"
  shows "delta_total add amount (epoched_delta_delete_current add off ed c p) e
           + delta_total add amount ed c = delta_total add amount ed e"
proof -
  obtain x xs where "d_data (epoched_delta_update_data add off ed c p) = x # xs"
    by (simp add: epoched_delta_update_data_eq)
  then show ?thesis
    using total_after_update [OF assms] total_after_update [OF assms(1,2) order_refl]
    by (simp add: total_eq epoched_delta_delete_current_def Let_def add.commute)
qed

text \<open>
  A closure for \<^verbatim>\<open>rev_update_while\<close> that moves amounts from the deltas into its captured state keeps
  the sum of both.
\<close>

lemma rev_loop_conserves:
  assumes step: "\<And>s d e s' d' go. f s d e = (s', d', go)
      \<Longrightarrow> amount d' + taken s' = amount d + taken s"
    and "epoched_delta_rev_loop f e ixs s xs = (s', xs')"
  shows "(\<Sum>x\<leftarrow>xs'. opt_amount amount x) + taken s' = (\<Sum>x\<leftarrow>xs. opt_amount amount x) + taken s"
  using assms(2)
proof (induct ixs arbitrary: s xs)
  case (Cons ix ixs)
  have upd: "(\<Sum>x\<leftarrow>xs[ix := Some d1]. opt_amount amount x) + taken s1
      = (\<Sum>x\<leftarrow>xs. opt_amount amount x) + taken s"
    if "ix < length xs" "xs ! ix = Some d" "f s d (e + of_nat ix) = (s1, d1, go)" for d s1 d1 go
  proof -
    let ?rest = "(\<Sum>x\<leftarrow>take ix xs. opt_amount amount x) + (\<Sum>x\<leftarrow>drop (Suc ix) xs. opt_amount amount x)"
    have split: "(\<Sum>x\<leftarrow>xs[ix := y]. opt_amount amount x) = ?rest + opt_amount amount y" for y
      using that(1) by (simp add: upd_conv_take_nth_drop ac_simps)
    have "(\<Sum>x\<leftarrow>xs. opt_amount amount x) = ?rest + amount d"
      using split [of "Some d"] list_update_id [of xs ix] that(2) by simp
    then show ?thesis
      using step [OF that(3)] split [of "Some d1"] by (simp add: add.assoc)
  qed
  from Cons.prems show ?case
  proof (cases rule: rev_loop_Cons_cases)
    case skip
    then show ?thesis by (intro Cons.hyps)
  next
    case (stop d d1)
    then show ?thesis using upd by blast
  next
    case (go d s1 d1)
    then show ?thesis using upd Cons.hyps by metis
  qed
qed simp

end

lemma rev_loop_invariant:
  assumes "\<And>s d e s' d' go. I s \<Longrightarrow> f s d e = (s', d', go) \<Longrightarrow> I s'" "I s"
    and "epoched_delta_rev_loop f e ixs s xs = (s', xs')"
  shows "I s' \<and> length xs' = length xs"
  using assms(2,3)
proof (induct ixs arbitrary: s xs)
  case (Cons ix ixs)
  from Cons.prems(2) show ?case
  proof (cases rule: rev_loop_Cons_cases)
    case skip
    with Cons show ?thesis by blast
  next
    case (stop d d1)
    with Cons.prems(1) assms(1) show ?thesis by simp
  next
    case (go d s1 d1)
    with Cons.hyps [OF assms(1)] Cons.prems(1) show ?thesis by fastforce
  qed
qed simp

lemma rev_loop_frame:
  assumes "epoched_delta_rev_loop f e ixs s xs = (s', xs')" "i \<notin> set ixs"
  shows "xs' ! i = xs ! i"
  using assms
proof (induct ixs arbitrary: s xs)
  case (Cons ix ixs)
  from Cons.prems(1) show ?case
    by (cases rule: rev_loop_Cons_cases) (use Cons in fastforce)+
qed simp

text \<open>
  When the closure goes on only after emptying a delta, the loop either stops with the closure's
  stopping state or has emptied every visited entry.
\<close>

lemma rev_loop_exhausts:
  assumes go: "\<And>s d e s' d'. f s d e = (s', d', True) \<Longrightarrow> E d'"
    and stop: "\<And>s d e s' d'. f s d e = (s', d', False) \<Longrightarrow> Stop s'"
    and "epoched_delta_rev_loop f e ixs s xs = (s', xs')" "distinct ixs"
  shows "Stop s' \<or> (\<forall>i\<in>set ixs. i < length xs \<longrightarrow> pred_option E (xs' ! i))"
  using assms(3,4)
proof (induct ixs arbitrary: s xs)
  case (Cons ix ixs)
  then have ixs: "distinct ixs" "ix \<notin> set ixs" by auto
  from Cons.prems(1) show ?case
  proof (cases rule: rev_loop_Cons_cases)
    case skip
    with Cons.hyps ixs rev_loop_frame [OF skip(1) ixs(2)] show ?thesis by auto
  next
    case (stop d d1)
    with assms(2) show ?thesis by blast
  next
    case (go d s1 d1)
    with Cons.hyps [OF go(4)] ixs rev_loop_frame [OF go(4) ixs(2)] assms(1) show ?thesis by auto
  qed
qed simp

interpretation number_delta: delta_data "(+)" "\<lambda>x. x"
  by unfold_locales simp

interpretation bond_delta: delta_data bond_add bond_sum
  by unfold_locales simp

interpretation unbond_delta: delta_data unbond_add unbond_sum
  by unfold_locales (simp add: unbond_add_def unbond_sum_def)

text \<open>
  Claim C13. Adding a difference moves the timeline of sums by exactly that difference from its epoch
  on and leaves every earlier epoch from the current one on as it was: at the data's own offset, at
  a given offset and at a given epoch. Deleting the current difference takes its sum out of every
  epoch.
\<close>

theorem epoched_delta_ops_total:
  fixes ed :: "('d :: comm_monoid_add) epoched_delta"
  assumes "epoched_delta_wf off p ed" "d_last_update ed \<le> c" "c \<le> e" "c \<le> u"
    and "epoched_delta_add_at_offset (+) off ed v c at_off p = Some ed1"
    and "epoched_delta_add_at_epoch (+) off ed v c u p = Some ed2"
  shows "delta_total (+) (\<lambda>x. x) (epoched_delta_add (+) off ed v c p) e =
           delta_total (+) (\<lambda>x. x) ed e + (if unat c + offset_ix off p \<le> unat e then v else 0)
       \<and> delta_total (+) (\<lambda>x. x) ed1 e =
           delta_total (+) (\<lambda>x. x) ed e + (if unat c + offset_ix at_off p \<le> unat e then v else 0)
       \<and> delta_total (+) (\<lambda>x. x) ed2 e =
           delta_total (+) (\<lambda>x. x) ed e + (if u \<le> e then v else 0)
       \<and> delta_total (+) (\<lambda>x. x) (epoched_delta_delete_current (+) off ed c p) e
           + delta_total (+) (\<lambda>x. x) ed c = delta_total (+) (\<lambda>x. x) ed e"
  using number_delta.total_add [OF assms(1-3)] number_delta.total_add_at_offset [OF assms(1-3,5)]
    number_delta.total_add_at_epoch [OF assms(1-4,6)]
    number_delta.total_delete_current [OF assms(1-3)]
  by simp

theorem epoched_delta_ops_total_witness:
  "delta_total (+) (\<lambda>x. x)
     (epoched_delta_add (+) UnbondingLen (epoched_delta_init_at_genesis (5 :: int) 2) 7 4
        pos_params_default) 11 = 12"
proof -
  let ?p = pos_params_default and ?ed = "epoched_delta_init_at_genesis (5 :: int) 2"
  have wf: "epoched_delta_wf UnbondingLen ?p ?ed"
    by (rule epoched_delta_wf_ops)
  note len = length_epoched_delta_update_data [OF wf, of "(+)" 4]
  obtain ed1 where ed1: "epoched_delta_add_at_offset (+) UnbondingLen ?ed 7 4 PipelineLen ?p = Some ed1"
    using len by (auto simp: epoched_delta_add_at_offset_def Let_def pos_params_default_def)
  obtain ed2 where ed2: "epoched_delta_add_at_epoch (+) UnbondingLen ?ed 7 4 9 ?p = Some ed2"
    using len by (auto simp: epoched_delta_add_at_epoch_def Let_def pos_params_default_def)
  show ?thesis
    using epoched_delta_ops_total [OF wf _ _ _ ed1 ed2, of 11]
    by (simp add: epoched_delta_init_at_genesis_def number_delta.total_init_at_index
        pos_params_default_def epoched_delta_init_at_index_def number_delta.total_eq)
qed

end
