(* ===== verification/Validator_Set.thy ===== *)
theory Validator_Set
  imports Epoched
begin

text \<open>
  The validator sets of the proof-of-stake system: the \<^verbatim>\<open>BTreeSet\<close> shims of
  \<^verbatim>\<open>proof_of_stake/src/btree_set.rs\<close>, and of \<^verbatim>\<open>proof_of_stake/src/lib.rs\<close> the selection of the active
  set at genesis and the closures with which \<^verbatim>\<open>become_validator\<close> and \<^verbatim>\<open>update_validator_set\<close> change
  the active and inactive sets of an epoch. A \<^verbatim>\<open>BTreeSet\<close> is a finite set over a linear order, its first
  and last elements are \<^const>\<open>Min\<close> and \<^const>\<open>Max\<close>.
\<close>

section \<open>Ordered sets\<close>

definition first_shim :: "('e :: linorder) set \<Rightarrow> 'e option" where
  "first_shim s = (if s = {} then None else Some (Min s))"

definition last_shim :: "('e :: linorder) set \<Rightarrow> 'e option" where
  "last_shim s = (if s = {} then None else Some (Max s))"

definition pop_first_shim :: "('e :: linorder) set \<Rightarrow> 'e option \<times> 'e set" where
  "pop_first_shim s =
     (case first_shim s of Some v \<Rightarrow> (Some v, s - {v}) | None \<Rightarrow> (None, s))"

definition pop_last_shim :: "('e :: linorder) set \<Rightarrow> 'e option \<times> 'e set" where
  "pop_last_shim s =
     (case last_shim s of Some v \<Rightarrow> (Some v, s - {v}) | None \<Rightarrow> (None, s))"

lemma pop_first_shim_card:
  assumes "n < card s" "pop_first_shim s = (x, rest)"
  shows "card rest < card s"
proof -
  have s: "finite s" "s \<noteq> {}"
    using assms(1) card.infinite [of s] by (cases "finite s"; force)+
  then have "rest = s - {Min s}"
    using assms(2) by (simp add: pop_first_shim_def first_shim_def)
  with s show ?thesis
    using card_Diff1_less [of s "Min s"] by simp
qed

section \<open>Selection at genesis\<close>

text \<open>The loop that pops the smallest validators until the active set fits the slots.\<close>

function genesis_pop ::
  "nat \<Rightarrow> ('e :: linorder) set \<Rightarrow> 'e set \<Rightarrow> 'e set \<times> 'e set" where
  "genesis_pop max_slots act inact =
     (if max_slots < card act then
        (case pop_first_shim act of
           (Some first, rest) \<Rightarrow> genesis_pop max_slots rest (insert first inact)
         | (None, _) \<Rightarrow> (act, inact))
      else (act, inact))"
  by pat_completeness auto
termination
  by (relation "measure (\<lambda>(_, act, _). card act)") (auto dest: pop_first_shim_card [OF _ sym])

declare genesis_pop.simps [simp del]

definition genesis_validator_set ::
  "pos_params \<Rightarrow> ('a :: linorder) weighted_validator set \<Rightarrow> 'a validator_set" where
  "genesis_validator_set p validators =
     (let (act, inact) = genesis_pop (unat (max_validator_slots p)) validators {}
      in \<lparr> active = act, inactive = inact \<rparr>)"

section \<open>Changing the set of an epoch\<close>

text \<open>The closure of \<^verbatim>\<open>become_validator\<close>.\<close>

definition add_new_validator ::
  "pos_params \<Rightarrow> 'a \<Rightarrow> ('a :: linorder) validator_set \<Rightarrow> 'a validator_set" where
  "add_new_validator p addr vs =
     (let validator = WeightedValidator 0 addr
      in if card (active vs) < unat (max_validator_slots p)
         then vs\<lparr> active := insert validator (active vs) \<rparr>
         else vs\<lparr> inactive := insert validator (inactive vs) \<rparr>)"

text \<open>
  The closure of \<^verbatim>\<open>update_validator_set\<close> once the voting powers before and after the change are
  known and differ.
\<close>

definition replace_validator ::
  "'a \<Rightarrow> voting_power \<Rightarrow> voting_power \<Rightarrow> ('a :: linorder) validator_set \<Rightarrow> 'a validator_set" where
  "replace_validator addr voting_power_pre voting_power_post vs =
     (let validator_pre = WeightedValidator voting_power_pre addr;
          validator_post = WeightedValidator voting_power_post addr
      in if validator_pre \<in> inactive vs then
           (let min_voting_power =
                  (case first_shim (active vs) of Some v \<Rightarrow> wv_power v | None \<Rightarrow> 0)
            in if min_voting_power < voting_power_post then
                 (let (deactivate_min, act) = pop_first_shim (active vs);
                      inact = inactive vs - {validator_pre};
                      act = insert validator_post act;
                      inact = (case deactivate_min of Some v \<Rightarrow> insert v inact | None \<Rightarrow> inact)
                  in \<lparr> active = act, inactive = inact \<rparr>)
               else vs\<lparr> inactive := insert validator_post (inactive vs - {validator_pre}) \<rparr>)
         else
           (let max_voting_power =
                  (case last_shim (inactive vs) of Some v \<Rightarrow> wv_power v | None \<Rightarrow> 0)
            in if voting_power_post < max_voting_power then
                 (let (activate_max, inact) = pop_last_shim (inactive vs);
                      act = active vs - {validator_pre};
                      inact = insert validator_post inact;
                      act = (case activate_max of Some v \<Rightarrow> insert v act | None \<Rightarrow> act)
                  in \<lparr> active = act, inactive = inact \<rparr>)
               else vs\<lparr> active := insert validator_post (active vs - {validator_pre}) \<rparr>))"

text \<open>
  The whole closure: the voting powers come from the validator's total deltas at the epoch that is
  updated; amounts that are not a \<^verbatim>\<open>u64\<close> panic.
\<close>

definition tokens_at :: "token_change epoched_delta option \<Rightarrow> epoch \<Rightarrow> token_change" where
  "tokens_at total_deltas e =
     (case total_deltas of
        None \<Rightarrow> 0
      | Some d \<Rightarrow> (case epoched_delta_get (+) d e of None \<Rightarrow> 0 | Some t \<Rightarrow> t))"

definition update_validator_set_at ::
  "pos_params \<Rightarrow> 'a \<Rightarrow> token_change \<Rightarrow> token_change epoched_delta option
     \<Rightarrow> ('a :: linorder) validator_set \<Rightarrow> epoch \<Rightarrow> 'a validator_set option" where
  "update_validator_set_at p validator change total_deltas vs e =
     (let tokens_pre = tokens_at total_deltas e;
          tokens_post = tokens_pre + change
      in case (u64_try_from_i128 tokens_pre, u64_try_from_i128 tokens_post) of
           (Some pre, Some post) \<Rightarrow>
             (let voting_power_pre = voting_power_from_tokens pre p;
                  voting_power_post = voting_power_from_tokens post p
              in if voting_power_pre \<noteq> voting_power_post
                 then Some (replace_validator validator voting_power_pre voting_power_post vs)
                 else Some vs)
         | _ \<Rightarrow> None)"

definition update_validator_set ::
  "pos_params \<Rightarrow> 'a \<Rightarrow> token_change \<Rightarrow> dyn_epoch_offset \<Rightarrow> ('a :: linorder) validator_set epoched
     \<Rightarrow> token_change epoched_delta option \<Rightarrow> epoch \<Rightarrow> 'a validator_set epoched option" where
  "update_validator_set p validator change change_offset validator_set total_deltas current_epoch =
     epoched_update_from_offset UnbondingLen validator_set
       (update_validator_set_at p validator change total_deltas) current_epoch change_offset p"

section \<open>The invariant of a validator set\<close>

text \<open>
  At most as many active validators as slots, and exactly as many once anybody is inactive; no
  inactive validator has more voting power than an active one; no address occurs twice.
\<close>

definition validator_set_ok :: "nat \<Rightarrow> ('a :: linorder) validator_set \<Rightarrow> bool" where
  "validator_set_ok slots vs \<longleftrightarrow>
     finite (active vs) \<and> finite (inactive vs) \<and>
     card (active vs) \<le> slots \<and> (inactive vs \<noteq> {} \<longrightarrow> card (active vs) = slots) \<and>
     (\<forall>a\<in>active vs. \<forall>i\<in>inactive vs. wv_power i \<le> wv_power a) \<and>
     active vs \<inter> inactive vs = {} \<and> inj_on wv_address (active vs \<union> inactive vs)"

definition members :: "'a validator_set \<Rightarrow> 'a weighted_validator set" where
  "members vs = active vs \<union> inactive vs"

lemma pop_first_shim_simps:
  "s = {} \<Longrightarrow> pop_first_shim s = (None, {})"
  "s \<noteq> {} \<Longrightarrow> pop_first_shim s = (Some (Min s), s - {Min s})"
  "s = {} \<Longrightarrow> first_shim s = None" "s \<noteq> {} \<Longrightarrow> first_shim s = Some (Min s)"
  by (simp_all add: pop_first_shim_def first_shim_def)

lemma pop_last_shim_simps:
  "s = {} \<Longrightarrow> pop_last_shim s = (None, {})"
  "s \<noteq> {} \<Longrightarrow> pop_last_shim s = (Some (Max s), s - {Max s})"
  "s = {} \<Longrightarrow> last_shim s = None" "s \<noteq> {} \<Longrightarrow> last_shim s = Some (Max s)"
  by (simp_all add: pop_last_shim_def last_shim_def)

lemmas shim_simps = pop_first_shim_simps pop_last_shim_simps

lemma Min_power_le: "finite s \<Longrightarrow> v \<in> s \<Longrightarrow> wv_power (Min s) \<le> wv_power v"
  by (intro wv_less_eq_power Min_le)

lemma Max_power_ge: "finite s \<Longrightarrow> v \<in> s \<Longrightarrow> wv_power v \<le> wv_power (Max s)"
  by (intro wv_less_eq_power Max_ge)

lemma record_members: "members \<lparr> active = A, inactive = I \<rparr> = A \<union> I"
  by (simp add: members_def)

lemma record_updates:
  "vs\<lparr> active := A \<rparr> = \<lparr> active = A, inactive = inactive vs \<rparr>"
  "vs\<lparr> inactive := I \<rparr> = \<lparr> active = active vs, inactive = I \<rparr>"
  for vs :: "'a validator_set"
  by (cases vs; simp)+

lemma inj_on_swap: "inj_on f S \<Longrightarrow> x \<in> S \<Longrightarrow> f y = f x \<Longrightarrow> inj_on f (insert y (S - {x}))"
  by (auto simp: inj_on_def)

text \<open>
  Replacing the entry of one address by one of another voting power: the three facts that do not
  depend on where the entries end up.
\<close>

lemma replace_facts:
  assumes "validator_set_ok slots vs" "WeightedValidator pre addr \<in> members vs" "pre \<noteq> post"
  shows "WeightedValidator post addr \<notin> members vs"
    and "inj_on wv_address (insert (WeightedValidator post addr)
           (members vs - {WeightedValidator pre addr}))"
    and "\<And>v. v \<in> members vs \<Longrightarrow> wv_address v = addr \<Longrightarrow> v = WeightedValidator pre addr"
proof -
  have inj: "inj_on wv_address (members vs)"
    using assms(1) by (simp add: validator_set_ok_def members_def)
  show "v = WeightedValidator pre addr" if "v \<in> members vs" "wv_address v = addr" for v
    using inj_onD [OF inj _ that(1) assms(2)] that by simp
  from this [of "WeightedValidator post addr"] show "WeightedValidator post addr \<notin> members vs"
    using assms(3) by auto
  show "inj_on wv_address (insert (WeightedValidator post addr)
           (members vs - {WeightedValidator pre addr}))"
    using inj assms(2) by (intro inj_on_swap) simp_all
qed

lemma replace_validator_inactive:
  assumes ok: "validator_set_ok slots vs" and "0 < slots" "pre \<noteq> post"
    and pre: "WeightedValidator pre addr \<in> inactive vs"
  shows "validator_set_ok slots (replace_validator addr pre post vs) \<and>
    members (replace_validator addr pre post vs) =
      insert (WeightedValidator post addr) (members vs - {WeightedValidator pre addr})"
proof -
  let ?pre = "WeightedValidator pre addr" and ?post = "WeightedValidator post addr"
  let ?A = "active vs" and ?I = "inactive vs"
  have mem: "?pre \<in> members vs"
    using pre by (simp add: members_def)
  note facts = replace_facts [OF ok mem assms(3)]
  have fin: "finite ?A" "finite ?I" and card: "card ?A = slots" and disj: "?A \<inter> ?I = {}"
    and sorted: "\<And>a i. a \<in> ?A \<Longrightarrow> i \<in> ?I \<Longrightarrow> wv_power i \<le> wv_power a"
    using ok pre by (auto simp: validator_set_ok_def)
  have ne: "?A \<noteq> {}"
    using card assms(2) by auto
  define m where "m = Min ?A"
  have "m \<in> ?A"
    using ne fin by (simp add: m_def)
  then have m: "m \<in> ?A" "m \<notin> ?I" "\<And>a. a \<in> ?A \<Longrightarrow> wv_power m \<le> wv_power a"
    using fin disj by (auto simp: m_def intro: Min_power_le)
  have post: "?post \<notin> ?A" "?post \<notin> ?I" "?pre \<notin> ?A"
    using facts(1) pre disj by (auto simp: members_def)
  show ?thesis
  proof (cases "wv_power m < post")
    case True
    have eq: "replace_validator addr pre post vs =
        \<lparr> active = insert ?post (?A - {m}), inactive = insert m (?I - {?pre}) \<rparr>"
      using pre ne True by (simp add: replace_validator_def shim_simps m_def)
    have un: "insert ?post (?A - {m}) \<union> insert m (?I - {?pre}) = insert ?post (members vs - {?pre})"
      using m post by (auto simp: members_def)
    have "card (insert ?post (?A - {m})) = slots"
      using post m(1) fin card card_Suc_Diff1 [of ?A m] by simp
    moreover have "wv_power i \<le> post" if "i \<in> ?I" for i
      using sorted [OF m(1) that] True by simp
    ultimately show ?thesis
      using facts(2)
      unfolding eq validator_set_ok_def record_members validator_set.simps un
      using fin m post sorted True disj by (auto intro: less_imp_le)
  next
    case False
    have eq: "replace_validator addr pre post vs =
        \<lparr> active = ?A, inactive = insert ?post (?I - {?pre}) \<rparr>"
      using pre ne False by (simp add: replace_validator_def shim_simps m_def record_updates)
    have un: "?A \<union> insert ?post (?I - {?pre}) = insert ?post (members vs - {?pre})"
      using post by (auto simp: members_def)
    from facts(2) show ?thesis
      unfolding eq validator_set_ok_def record_members validator_set.simps un
      using fin m post sorted False disj card by (auto intro: order_trans dest: not_less [THEN iffD1])
  qed
qed

lemma replace_validator_active:
  assumes ok: "validator_set_ok slots vs" and "pre \<noteq> post"
    and pre: "WeightedValidator pre addr \<in> active vs"
  shows "validator_set_ok slots (replace_validator addr pre post vs) \<and>
    members (replace_validator addr pre post vs) =
      insert (WeightedValidator post addr) (members vs - {WeightedValidator pre addr})"
proof -
  let ?pre = "WeightedValidator pre addr" and ?post = "WeightedValidator post addr"
  let ?A = "active vs" and ?I = "inactive vs"
  have mem: "?pre \<in> members vs"
    using pre by (simp add: members_def)
  note facts = replace_facts [OF ok mem assms(2)]
  have fin: "finite ?A" "finite ?I" and disj: "?A \<inter> ?I = {}"
    and card: "card ?A \<le> slots" "?I \<noteq> {} \<Longrightarrow> card ?A = slots"
    and sorted: "\<And>a i. a \<in> ?A \<Longrightarrow> i \<in> ?I \<Longrightarrow> wv_power i \<le> wv_power a"
    using ok by (auto simp: validator_set_ok_def)
  have post: "?post \<notin> ?A" "?post \<notin> ?I" "?pre \<notin> ?I"
    using facts(1) pre disj by (auto simp: members_def)
  have same: "card (insert x (?A - {?pre})) = card ?A" if "x \<notin> ?A" for x
    using that pre fin card_Suc_Diff1 [of ?A ?pre] by simp
  show ?thesis
  proof (cases "?I \<noteq> {} \<and> post < wv_power (Max ?I)")
    case True
    define m where "m = Max ?I"
    have "m \<in> ?I"
      using True fin by (simp add: m_def)
    then have m: "m \<in> ?I" "m \<notin> ?A" "\<And>i. i \<in> ?I \<Longrightarrow> wv_power i \<le> wv_power m"
      using fin disj by (auto simp: m_def intro: Max_power_ge)
    have eq: "replace_validator addr pre post vs =
        \<lparr> active = insert m (?A - {?pre}), inactive = insert ?post (?I - {m}) \<rparr>"
      using post True by (simp add: replace_validator_def shim_simps m_def)
    have un: "insert m (?A - {?pre}) \<union> insert ?post (?I - {m}) = insert ?post (members vs - {?pre})"
      using m post by (auto simp: members_def)
    have "post < wv_power m"
      using True by (simp add: m_def)
    with facts(2) same [OF m(2)] show ?thesis
      unfolding eq validator_set_ok_def record_members validator_set.simps un
      using fin m post sorted disj card \<open>post < wv_power m\<close>
      by (auto intro: order_trans [OF less_imp_le])
  next
    case False
    have eq: "replace_validator addr pre post vs =
        \<lparr> active = insert ?post (?A - {?pre}), inactive = ?I \<rparr>"
      using post False
      by (cases "?I = {}") (auto simp: replace_validator_def shim_simps record_updates)
    have un: "insert ?post (?A - {?pre}) \<union> ?I = insert ?post (members vs - {?pre})"
      using post by (auto simp: members_def)
    have "wv_power i \<le> post" if "i \<in> ?I" for i
      using Max_power_ge [OF fin(2) that] that False by (auto simp: not_less)
    with facts(2) same [OF post(1)] show ?thesis
      unfolding eq validator_set_ok_def record_members validator_set.simps un
      using fin post sorted disj card by auto
  qed
qed

lemma replace_validator_preserves:
  assumes "validator_set_ok slots vs" "0 < slots" "pre \<noteq> post"
    and "WeightedValidator pre addr \<in> members vs"
  shows "validator_set_ok slots (replace_validator addr pre post vs)"
    and "members (replace_validator addr pre post vs) =
      insert (WeightedValidator post addr) (members vs - {WeightedValidator pre addr})"
  using replace_validator_inactive [OF assms(1-3)] replace_validator_active [OF assms(1,3)] assms(4)
  by (cases "WeightedValidator pre addr \<in> inactive vs"; simp add: members_def)+

text \<open>
  Claim C6. When a validator's voting power changes, the new sets hold exactly the old entries with
  the validator's entry replaced, and the validator set stays well-formed: the slots are respected,
  no inactive validator outweighs an active one, and no address occurs twice.
\<close>

theorem replace_validator_ok:
  assumes "validator_set_ok slots vs" "0 < slots" "pre \<noteq> post"
    and "WeightedValidator pre addr \<in> members vs"
  shows "validator_set_ok slots (replace_validator addr pre post vs) \<and>
    members (replace_validator addr pre post vs) =
      insert (WeightedValidator post addr) (members vs - {WeightedValidator pre addr})"
  using replace_validator_preserves [OF assms] by blast

theorem replace_validator_ok_witness:
  "validator_set_ok 1
     (replace_validator (2 :: int) 3 9
        \<lparr> active = {WeightedValidator 5 1}, inactive = {WeightedValidator 3 2} \<rparr>)"
  using replace_validator_ok [of 1
      "\<lparr> active = {WeightedValidator 5 (1 :: int)}, inactive = {WeightedValidator 3 2} \<rparr>" 3 9 2]
  by (simp add: validator_set_ok_def members_def)

lemma add_new_validator_members:
  "members (add_new_validator p addr vs) = insert (WeightedValidator 0 addr) (members vs)"
  by (auto simp: add_new_validator_def members_def Let_def)

lemma add_new_validator_preserves:
  assumes "validator_set_ok (unat (max_validator_slots p)) vs" "addr \<notin> wv_address ` members vs"
  shows "validator_set_ok (unat (max_validator_slots p)) (add_new_validator p addr vs)"
proof -
  let ?v = "WeightedValidator 0 addr"
  have new: "?v \<notin> active vs" "?v \<notin> inactive vs"
    using assms(2) by (force simp: members_def)+
  have "inj_on wv_address (insert ?v (members vs))"
    using assms by (auto simp: validator_set_ok_def members_def)
  then have inj: "inj_on wv_address (members (add_new_validator p addr vs))"
    by (simp add: add_new_validator_members)
  show ?thesis
  proof (cases "card (active vs) < unat (max_validator_slots p)")
    case True
    moreover from this have "inactive vs = {}"
      using assms(1) by (auto simp: validator_set_ok_def)
    ultimately show ?thesis
      using assms(1) inj new
      by (simp add: validator_set_ok_def add_new_validator_def Let_def members_def)
  next
    case False
    then show ?thesis
      using assms(1) inj new
      by (auto simp: validator_set_ok_def add_new_validator_def Let_def members_def)
  qed
qed

text \<open>
  Claim C20. The set change of a new validator adds exactly its entry with no voting power and keeps
  the validator set well-formed, for an address that is not in the set yet.
\<close>

theorem add_new_validator_ok:
  assumes "validator_set_ok (unat (max_validator_slots p)) vs" "addr \<notin> wv_address ` members vs"
  shows "validator_set_ok (unat (max_validator_slots p)) (add_new_validator p addr vs) \<and>
    members (add_new_validator p addr vs) = insert (WeightedValidator 0 addr) (members vs)"
  using add_new_validator_preserves [OF assms] add_new_validator_members by blast

theorem add_new_validator_ok_witness:
  "validator_set_ok 128
     (add_new_validator pos_params_default (2 :: int)
        \<lparr> active = {WeightedValidator 5 1}, inactive = {} \<rparr>)"
  using add_new_validator_ok [of pos_params_default
      "\<lparr> active = {WeightedValidator 5 (1 :: int)}, inactive = {} \<rparr>" 2]
  by (simp add: validator_set_ok_def members_def pos_params_default_def)

text \<open>Popping moves the least elements over until the rest fits.\<close>

lemma genesis_pop_correct:
  assumes "finite act" "finite inact" "act \<inter> inact = {}" "\<And>a i. a \<in> act \<Longrightarrow> i \<in> inact \<Longrightarrow> i \<le> a"
    and "inact \<noteq> {} \<Longrightarrow> n \<le> card act" "genesis_pop n act inact = (A, I)"
  shows "A \<union> I = act \<union> inact \<and> A \<inter> I = {} \<and> finite A \<and> finite I \<and> card A = min n (card act) \<and>
    (\<forall>a\<in>A. \<forall>i\<in>I. i \<le> a) \<and> (I \<noteq> {} \<longrightarrow> card A = n)"
  using assms
proof (induct n act inact arbitrary: A I rule: genesis_pop.induct)
  case (1 n act inact)
  show ?case
  proof (cases "n < card act")
    case True
    then have ne: "act \<noteq> {}" by auto
    let ?m = "Min act"
    have m: "?m \<in> act" "\<And>a. a \<in> act \<Longrightarrow> ?m \<le> a"
      using 1(2) ne by simp_all
    have card: "card (act - {?m}) = card act - 1"
      using m(1) 1(2) by simp
    have step: "genesis_pop n (act - {?m}) (insert ?m inact) = (A, I)"
      using 1(7) True ne by (simp add: genesis_pop.simps [of n act] shim_simps)
    have "A \<union> I = (act - {?m}) \<union> insert ?m inact \<and> A \<inter> I = {} \<and> finite A \<and> finite I \<and>
        card A = min n (card (act - {?m})) \<and> (\<forall>a\<in>A. \<forall>i\<in>I. i \<le> a) \<and> (I \<noteq> {} \<longrightarrow> card A = n)"
      using 1(2-5) True m card
      by (intro 1(1) [OF True _ _ _ _ _ _ _ step]) (auto simp: shim_simps ne)
    then show ?thesis
      using True m(1) card by auto
  next
    case False
    with 1 show ?thesis
      by (auto simp: genesis_pop.simps [of n act])
  qed
qed

lemma genesis_validator_set_members:
  assumes "finite validators" "inj_on wv_address validators"
  shows "validator_set_ok (unat (max_validator_slots p)) (genesis_validator_set p validators)"
    and "members (genesis_validator_set p validators) = validators"
proof -
  obtain A I where AI: "genesis_pop (unat (max_validator_slots p)) validators {} = (A, I)"
    by (cases "genesis_pop (unat (max_validator_slots p)) validators {}")
  with genesis_pop_correct [OF assms(1) _ _ _ _ AI] assms(2)
  show "validator_set_ok (unat (max_validator_slots p)) (genesis_validator_set p validators)"
    "members (genesis_validator_set p validators) = validators"
    by (auto simp: genesis_validator_set_def validator_set_ok_def members_def
        intro: wv_less_eq_power)
qed

text \<open>
  Claim C21. At genesis the active set is filled with the validators of the greatest voting power:
  the sets hold exactly the genesis validators, the active set takes as many of them as there are
  slots, and the validator set is well-formed.
\<close>

theorem genesis_validator_set_ok:
  assumes "finite validators" "inj_on wv_address validators"
  shows "validator_set_ok (unat (max_validator_slots p)) (genesis_validator_set p validators) \<and>
    members (genesis_validator_set p validators) = validators \<and>
    card (active (genesis_validator_set p validators)) =
      min (unat (max_validator_slots p)) (card validators)"
proof -
  obtain A I where AI: "genesis_pop (unat (max_validator_slots p)) validators {} = (A, I)"
    by (cases "genesis_pop (unat (max_validator_slots p)) validators {}")
  with genesis_pop_correct [OF assms(1) _ _ _ _ AI]
  have "card (active (genesis_validator_set p validators)) =
      min (unat (max_validator_slots p)) (card validators)"
    by (simp add: genesis_validator_set_def)
  then show ?thesis
    using genesis_validator_set_members [OF assms] by simp
qed

theorem genesis_validator_set_ok_witness:
  "card (active (genesis_validator_set pos_params_default
     {WeightedValidator 5 (1 :: int), WeightedValidator 3 2})) = 2"
  using genesis_validator_set_ok [of "{WeightedValidator 5 (1 :: int), WeightedValidator 3 2}"
      pos_params_default]
  by (simp add: pos_params_default_def)

section \<open>Validator sets over epochs\<close>

text \<open>
  The validator sets of all epochs from \<open>c\<close> on are well-formed, and from the epoch \<open>s\<close> on, in which
  a validator enters the sets, its entry in them follows its total deltas. The second part of \<open>synced\<close> is what keeps this true when a change of
  the total deltas crosses a rounding boundary of the voting power: whenever the total deltas have
  a delta of their own in an epoch, the validator sets have an entry of their own there.
\<close>

definition validator_sets_ok ::
  "nat \<Rightarrow> epoch \<Rightarrow> ('a :: linorder) validator_set epoched \<Rightarrow> bool" where
  "validator_sets_ok slots c vsets \<longleftrightarrow>
     (\<forall>e\<ge>c. \<exists>vs. epoched_get vsets e = Some vs \<and> validator_set_ok slots vs)"

definition has_power ::
  "pos_params \<Rightarrow> token_change \<Rightarrow> 'a \<Rightarrow> 'a validator_set \<Rightarrow> bool" where
  "has_power p tokens addr vs \<longleftrightarrow>
     (\<exists>t. u64_try_from_i128 tokens = Some t \<and>
          WeightedValidator (voting_power_from_tokens t p) addr \<in> members vs)"

definition synced ::
  "pos_params \<Rightarrow> epoch \<Rightarrow> ('a :: linorder) validator_set epoched \<Rightarrow> 'a
     \<Rightarrow> token_change epoched_delta \<Rightarrow> bool" where
  "synced p s vsets addr td \<longleftrightarrow>
     (\<forall>e\<ge>s. \<exists>vs. epoched_get vsets e = Some vs \<and> has_power p (tokens_at (Some td) e) addr vs) \<and>
     (\<forall>x>s. epoched_delta_get_delta_at_epoch td x \<noteq> None \<longrightarrow> epoched_get_at_epoch vsets x \<noteq> None)"

definition others :: "'a \<Rightarrow> 'a validator_set \<Rightarrow> 'a weighted_validator set" where
  "others addr vs = {v \<in> members vs. wv_address v \<noteq> addr}"

lemma tokens_at_total: "tokens_at (Some td) e = delta_total (+) (\<lambda>x. x) td e"
  by (simp add: tokens_at_def delta_total_def opt_amount_def)

lemma update_validator_set_at_ok:
  assumes "validator_set_ok slots vs" "0 < slots" "has_power p (tokens_at td e) addr vs"
    and "update_validator_set_at p addr change td vs e = Some vs'"
  shows "validator_set_ok slots vs'" "has_power p (tokens_at td e + change) addr vs'"
    and "others addr vs' = others addr vs"
proof -
  obtain pre post where t: "u64_try_from_i128 (tokens_at td e) = Some pre"
    "u64_try_from_i128 (tokens_at td e + change) = Some post"
    using assms(4) unfolding update_validator_set_at_def Let_def
    by (cases "u64_try_from_i128 (tokens_at td e)"; cases "u64_try_from_i128 (tokens_at td e + change)")
      simp_all
  let ?pre = "voting_power_from_tokens pre p" and ?post = "voting_power_from_tokens post p"
  have mem: "WeightedValidator ?pre addr \<in> members vs"
    using assms(3) by (simp add: has_power_def t)
  have vs': "vs' = (if ?pre \<noteq> ?post then replace_validator addr ?pre ?post vs else vs)"
    using assms(4) by (simp add: update_validator_set_at_def Let_def t split: if_splits)
  show "validator_set_ok slots vs'" "has_power p (tokens_at td e + change) addr vs'"
    "others addr vs' = others addr vs"
  proof (atomize(full), cases "?pre = ?post")
    case False
    then have eq: "vs' = replace_validator addr ?pre ?post vs"
      using vs' by simp
    note R = replace_validator_preserves [OF assms(1,2) False mem]
    have "others addr vs' = others addr vs"
      by (auto simp: others_def eq R(2))
    then show "validator_set_ok slots vs' \<and> has_power p (tokens_at td e + change) addr vs' \<and>
        others addr vs' = others addr vs"
      using R by (simp add: eq has_power_def t)
  next
    case True
    with vs' assms(1) mem t show "validator_set_ok slots vs' \<and>
        has_power p (tokens_at td e + change) addr vs' \<and> others addr vs' = others addr vs"
      by (simp add: has_power_def)
  qed
qed

text \<open>The hypotheses that the operations on the sets of all epochs share.\<close>

definition sets_at_epoch ::
  "pos_params \<Rightarrow> epoch \<Rightarrow> ('a :: linorder) validator_set epoched \<Rightarrow> bool" where
  "sets_at_epoch p c vsets \<longleftrightarrow>
     epoched_wf UnbondingLen p vsets \<and> last_update vsets \<le> c \<and>
     unat c + unat (unbonding_len p) < 2 ^ 64 \<and> pipeline_len p \<le> unbonding_len p \<and>
     0 < max_validator_slots p \<and> validator_sets_ok (unat (max_validator_slots p)) c vsets"

lemma sets_at_epochD:
  assumes "sets_at_epoch p c vsets"
  shows "epoched_wf UnbondingLen p vsets" "last_update vsets \<le> c"
    "unat c + offset_ix UnbondingLen p < 2 ^ 64" "offset_ix off p \<le> offset_ix UnbondingLen p"
    "0 < unat (max_validator_slots p)"
    "\<And>e. c \<le> e \<Longrightarrow> \<exists>vs. epoched_get vsets e = Some vs \<and>
       validator_set_ok (unat (max_validator_slots p)) vs"
  using assms
  by (cases off; simp add: sets_at_epoch_def validator_sets_ok_def word_le_nat_alt
      word_less_nat_alt)+

lemma update_validator_set_epoch:
  assumes sets: "sets_at_epoch p c vsets" and "c \<le> e"
    and sync: "synced p s vsets addr td" "d_last_update td \<le> c"
    and s: "c \<le> s" "unat s \<le> unat c + offset_ix off p"
    and res: "update_validator_set p addr change off vsets (Some td) c = Some vsets'"
  shows "\<exists>vs vs'. epoched_get vsets e = Some vs \<and> epoched_get vsets' e = Some vs' \<and>
    validator_set_ok (unat (max_validator_slots p)) vs' \<and> others addr vs' = others addr vs \<and>
    (s \<le> e \<longrightarrow> has_power p (tokens_at (Some td) e
       + (if unat c + offset_ix off p \<le> unat e then change else 0)) addr vs')"
proof -
  note D = sets_at_epochD [OF sets]
  note upd = res [unfolded update_validator_set_def]
  obtain vs where vs: "epoched_get vsets e = Some vs"
    "validator_set_ok (unat (max_validator_slots p)) vs"
    using D(6) [OF \<open>c \<le> e\<close>] by auto
  have power: "has_power p (tokens_at (Some td) e) addr vs" if "s \<le> e"
    using sync(1) vs(1) that by (auto simp: synced_def)
  show ?thesis
  proof (cases "unat c + offset_ix off p \<le> unat e")
    case False
    then show ?thesis
      using epoched_update_from_offset_earlier [OF D(1,2) \<open>c \<le> e\<close> D(4) upd] vs power by auto
  next
    case True
    then have "s \<le> e"
      using s(2) by (simp add: word_le_nat_alt)
    from epoched_update_from_offset_later [OF D(1,2) \<open>c \<le> e\<close> D(4,3) upd True] vs(1)
    obtain e' vs' where e': "unat c + offset_ix off p \<le> unat e'" "e' \<le> e"
      "\<forall>x. e' < x \<and> x \<le> e \<longrightarrow> epoched_get_at_epoch vsets x = None"
      "epoched_get vsets e' = Some vs"
      "update_validator_set_at p addr change (Some td) vs e' = Some vs'" "epoched_get vsets' e = Some vs'"
      by auto
    have "s \<le> e'"
      using e'(1) s(2) by (simp add: word_le_nat_alt)
    have "epoched_delta_get (+) td e = epoched_delta_get (+) td e'"
    proof (rule epoched_delta_get_unchanged)
      show "d_last_update td \<le> e'" "e' \<le> e"
        using sync(2) s(1) \<open>s \<le> e'\<close> e'(2) by simp_all
      show "epoched_delta_get_delta_at_epoch td x = None" if "e' < x" "x \<le> e" for x
        using sync(1) e'(3) that \<open>s \<le> e'\<close> by (auto simp: synced_def dest: order.strict_trans1)
    qed
    then have "tokens_at (Some td) e' = tokens_at (Some td) e"
      by (simp add: tokens_at_def)
    with update_validator_set_at_ok [OF vs(2) D(5) _ e'(5)] vs power [OF \<open>s \<le> e\<close>] e' True show ?thesis
      by auto
  qed
qed

lemma has_power_others:
  "w \<noteq> addr \<Longrightarrow> others addr vs' = others addr vs \<Longrightarrow> has_power p t w vs' \<longleftrightarrow> has_power p t w vs"
  by (force simp: has_power_def others_def set_eq_iff)

lemma update_validator_set_frame:
  assumes "sets_at_epoch p c vsets" "synced p s vsets addr td" "d_last_update td \<le> c"
    and s: "c \<le> s" "unat s \<le> unat c + offset_ix off p"
    and res: "update_validator_set p addr change off vsets (Some td) c = Some vsets'"
  shows "sets_at_epoch p c vsets'" "last_update vsets' = c"
    and "\<And>x. c < x \<Longrightarrow> epoched_get_at_epoch vsets x \<noteq> None \<Longrightarrow> epoched_get_at_epoch vsets' x \<noteq> None"
    and "w \<noteq> addr \<Longrightarrow> c \<le> sw \<Longrightarrow> synced p sw vsets w tdw \<Longrightarrow> synced p sw vsets' w tdw"
proof -
  note D = sets_at_epochD [OF assms(1)]
  note upd = res [unfolded update_validator_set_def]
  have wf: "epoched_wf UnbondingLen p vsets'" "last_update vsets' = c"
    by (rule epoched_update_from_offset_wf [OF D(1,4) upd])+
  have ok: "validator_sets_ok (unat (max_validator_slots p)) c vsets'"
    unfolding validator_sets_ok_def
  proof (intro allI impI)
    fix e assume "c \<le> e"
    from update_validator_set_epoch [OF assms(1) this assms(2,3) s res]
    show "\<exists>vs. epoched_get vsets' e = Some vs \<and> validator_set_ok (unat (max_validator_slots p)) vs"
      by blast
  qed
  show "sets_at_epoch p c vsets'" "last_update vsets' = c"
    using assms(1) wf ok by (simp_all add: sets_at_epoch_def)
  show entry: "epoched_get_at_epoch vsets' x \<noteq> None"
    if "c < x" "epoched_get_at_epoch vsets x \<noteq> None" for x
    using epoched_update_from_offset_entries [OF D(1,2) that(1) D(4) upd] that(2) by blast
  show "synced p sw vsets' w tdw" if w: "w \<noteq> addr" "c \<le> sw" "synced p sw vsets w tdw"
    unfolding synced_def
  proof (intro conjI allI impI)
    fix e assume "sw \<le> e"
    with w(2) have "c \<le> e" by simp
    from w(3) \<open>sw \<le> e\<close> obtain vs where vs: "epoched_get vsets e = Some vs"
      "has_power p (tokens_at (Some tdw) e) w vs"
      by (auto simp: synced_def)
    with update_validator_set_epoch [OF assms(1) \<open>c \<le> e\<close> assms(2,3) s res]
    obtain vs' where "epoched_get vsets' e = Some vs'" "others addr vs' = others addr vs"
      by auto
    with vs(2) has_power_others [OF w(1)]
    show "\<exists>vs. epoched_get vsets' e = Some vs \<and> has_power p (tokens_at (Some tdw) e) w vs"
      by blast
  next
    fix x assume "sw < x" "epoched_delta_get_delta_at_epoch tdw x \<noteq> None"
    with w(2,3) show "epoched_get_at_epoch vsets' x \<noteq> None"
      by (intro entry) (simp_all add: synced_def)
  qed
qed

lemma update_validator_set_sync:
  assumes sets: "sets_at_epoch p c vsets" and sync: "synced p s vsets addr td" "d_last_update td \<le> c"
    and s: "c \<le> s" "unat s \<le> unat c + offset_ix off p"
    and td: "epoched_delta_wf UnbondingLen p td"
      "epoched_delta_add_at_offset (+) UnbondingLen td change c off p = Some td'"
    and res: "update_validator_set p addr change off vsets (Some td) c = Some vsets'"
  shows "synced p s vsets' addr td'"
  unfolding synced_def
proof (intro conjI allI impI)
  fix e assume "s \<le> e"
  with s(1) have "c \<le> e" by simp
  from update_validator_set_epoch [OF sets this sync s res] \<open>s \<le> e\<close>
    number_delta.total_add_at_offset [OF td(1) sync(2) this td(2)]
  show "\<exists>vs. epoched_get vsets' e = Some vs \<and> has_power p (tokens_at (Some td') e) addr vs"
    by (auto simp: tokens_at_total)
next
  fix x assume "s < x" and td': "epoched_delta_get_delta_at_epoch td' x \<noteq> None"
  with s(1) have x: "c < x" "epoched_delta_get_delta_at_epoch td' x \<noteq> None"
    by auto
  then have "epoched_delta_get_delta_at_epoch td x \<noteq> None \<or> unat x = unat c + offset_ix off p"
    using delta_at_epoch_ops(2) [OF td(1) sync(2) x(1) td(2)] by blast
  moreover have "epoched_get vsets x \<noteq> None"
    using sets_at_epochD(6) [OF sets less_imp_le [OF x(1)]] by auto
  ultimately show "epoched_get_at_epoch vsets' x \<noteq> None"
    using sync(1) \<open>s < x\<close> epoched_update_from_offset_entries [OF sets_at_epochD(1,2) [OF sets] x(1)
        sets_at_epochD(4) [OF sets] res [unfolded update_validator_set_def]]
    by (auto simp: synced_def)
qed

text \<open>
  Claim C5. Applying a token change to a validator keeps the validator sets of every epoch
  well-formed and in step with the total deltas: in every epoch from the one on in which the
  validator enters the sets, its entry has the voting power of its total deltas after the change,
  and the entries of all other validators that were in step before still are.
\<close>

theorem update_validator_set_synced:
  assumes "sets_at_epoch p c vsets" "synced p s vsets addr td" "d_last_update td \<le> c"
    and "c \<le> s" "unat s \<le> unat c + offset_ix off p" "epoched_delta_wf UnbondingLen p td"
    and "epoched_delta_add_at_offset (+) UnbondingLen td change c off p = Some td'"
    and "update_validator_set p addr change off vsets (Some td) c = Some vsets'"
  shows "sets_at_epoch p c vsets' \<and> synced p s vsets' addr td' \<and>
    (\<forall>w sw tdw. w \<noteq> addr \<longrightarrow> c \<le> sw \<longrightarrow> synced p sw vsets w tdw \<longrightarrow> synced p sw vsets' w tdw)"
  using update_validator_set_frame [OF assms(1-5,8)] update_validator_set_sync [OF assms]
  by blast

text \<open>Epoched data at genesis, where every epoch reads the initial value.\<close>

lemma epoched_genesis [simp]:
  "epoched_get (epoched_init_at_genesis v c) e = Some v"
  "last_update (epoched_init_at_genesis v c) = c"
  by (simp_all add: epoched_get_eq epoched_init_at_genesis_def)

lemma epoched_delta_genesis [simp]:
  "epoched_delta_get add (epoched_delta_init_at_genesis v c) e = Some v"
  "d_last_update (epoched_delta_init_at_genesis v c) = c"
  "c < x \<Longrightarrow> epoched_delta_get_delta_at_epoch (epoched_delta_init_at_genesis v c) x = None"
  by (simp_all add: epoched_delta_get_eq epoched_delta_init_at_genesis_def
      epoched_delta_init_at_index_def delta_agg_def delta_at_epoch_eq word_less_nat_alt word_le_nat_alt)

lemma update_validator_set_total:
  assumes "sets_at_epoch p c vsets"
    and "\<And>e. unat c + offset_ix off p \<le> unat e \<Longrightarrow> u64_try_from_i128 (tokens_at td e) \<noteq> None"
    and "\<And>e. unat c + offset_ix off p \<le> unat e \<Longrightarrow> u64_try_from_i128 (tokens_at td e + change) \<noteq> None"
  shows "\<exists>vsets'. update_validator_set p addr change off vsets td c = Some vsets'"
  unfolding update_validator_set_def
proof (rule epoched_update_from_offset_total)
  note D = sets_at_epochD [OF assms(1)]
  show "update_validator_set_at p addr change td d (c + of_nat i) \<noteq> None"
    if "offset_ix off p \<le> i" "i \<le> offset_ix UnbondingLen p" for d i
    using that D(3) assms(2,3) [of "c + of_nat i"]
    by (auto simp: update_validator_set_at_def Let_def unat_add_of_nat)
qed (use sets_at_epochD [OF assms(1)] in auto)

theorem update_validator_set_synced_witness:
  "\<exists>vsets' td'. update_validator_set pos_params_default (1 :: int) 40000000000 PipelineLen
       (epoched_init_at_genesis \<lparr> active = {WeightedValidator 20 1}, inactive = {} \<rparr> 3)
       (Some (epoched_delta_init_at_genesis 20000000000 3)) 5 = Some vsets' \<and>
     synced pos_params_default 5 vsets' 1 td' \<and> tokens_at (Some td') 7 = 60000000000"
proof -
  let ?p = pos_params_default
  let ?vs = "\<lparr> active = {WeightedValidator 20 (1 :: int)}, inactive = {} \<rparr>"
  let ?sets = "epoched_init_at_genesis ?vs 3" and ?td = "epoched_delta_init_at_genesis (20000000000 :: i128) 3"
  have sets: "sets_at_epoch ?p 5 ?sets"
    by (simp add: sets_at_epoch_def epoched_wf_ops pos_params_default_def validator_sets_ok_def
        validator_set_ok_def)
  have tokens: "tokens_at (Some ?td) e = 20000000000" for e
    by (simp add: tokens_at_def)
  have conv: "u64_try_from_i128 20000000000 = Some 20000000000" "u64_try_from_i128 60000000000 = Some 60000000000"
    by (simp_all add: u64_try_from_i128_def)
  have sync: "synced ?p 5 ?sets 1 ?td"
    using epoched_delta_genesis(3) [of 3 _ "20000000000 :: i128"] order.strict_trans [of "3 :: epoch" 5]
    by (auto simp: synced_def has_power_def tokens conv members_def voting_power_from_tokens_def
        pos_params_default_def basis_points_mul_u64_def)
  obtain vsets' where vsets': "update_validator_set ?p 1 40000000000 PipelineLen ?sets (Some ?td) 5 = Some vsets'"
    using update_validator_set_total [OF sets, of PipelineLen "Some ?td" 40000000000 1]
    by (auto simp: tokens conv)
  have wf: "epoched_delta_wf UnbondingLen ?p ?td"
    by (rule epoched_delta_wf_ops)
  obtain td' where td': "epoched_delta_add_at_offset (+) UnbondingLen ?td 40000000000 5 PipelineLen ?p = Some td'"
    using length_epoched_delta_update_data [OF wf, of "(+)" 5]
    by (auto simp: epoched_delta_add_at_offset_def Let_def pos_params_default_def)
  have "tokens_at (Some td') 7 = 60000000000"
    using number_delta.total_add_at_offset [OF wf _ _ td', of 7]
    by (simp add: tokens_at_total [symmetric] tokens pos_params_default_def)
  moreover have "synced ?p 5 vsets' 1 td'"
    using update_validator_set_synced [OF sets sync _ _ _ wf td' vsets'] by simp
  ultimately show ?thesis
    using vsets' by blast
qed

end
