(* ===== verification/Pos_Voting.thy ===== *)
theory Pos_Voting
  imports Validator_Set
begin

text \<open>
  The voting powers of \<^verbatim>\<open>proof_of_stake/src/lib.rs\<close>: \<^verbatim>\<open>update_voting_powers\<close>, which recomputes a
  validator's voting power from its total deltas and adds the same change to the total voting power,
  the free function \<^verbatim>\<open>slash\<close>, and the free function \<^verbatim>\<open>become_validator\<close>.
\<close>

section \<open>Updating voting powers\<close>

datatype try_from_int_error = TryFromIntError

definition voting_power_at :: "voting_power_delta epoched_delta \<Rightarrow> epoch \<Rightarrow> voting_power_delta" where
  "voting_power_at vp e = (case epoched_delta_get (+) vp e of None \<Rightarrow> 0 | Some d \<Rightarrow> d)"

fun update_voting_powers_loop ::
  "pos_params \<Rightarrow> token_change epoched_delta \<Rightarrow> epoch \<Rightarrow> epoch list
     \<Rightarrow> voting_power_delta epoched_delta \<Rightarrow> voting_power_delta epoched_delta
     \<Rightarrow> (voting_power_delta epoched_delta \<times> voting_power_delta epoched_delta, try_from_int_error) outcome"
where
  "update_voting_powers_loop p total_deltas current_epoch [] vp total_vp = Ok (vp, total_vp)"
| "update_voting_powers_loop p total_deltas current_epoch (e # es) vp total_vp =
     (case u64_try_from_i128 (tokens_at (Some total_deltas) e) of
        None \<Rightarrow> Panic
      | Some tokens \<Rightarrow>
          (case voting_power_delta_try_from_tokens tokens p of
             None \<Rightarrow> Err TryFromIntError
           | Some new_power \<Rightarrow>
               (let delta = new_power - voting_power_at vp e
                in case (epoched_delta_add_at_epoch (+) UnbondingLen vp delta current_epoch e p,
                         epoched_delta_add_at_epoch (+) UnbondingLen total_vp delta current_epoch e p) of
                     (Some vp', Some total_vp') \<Rightarrow>
                       update_voting_powers_loop p total_deltas current_epoch es vp' total_vp'
                   | _ \<Rightarrow> Panic)))"

definition update_voting_powers ::
  "pos_params \<Rightarrow> dyn_epoch_offset \<Rightarrow> token_change epoched_delta
     \<Rightarrow> voting_power_delta epoched_delta \<Rightarrow> voting_power_delta epoched_delta \<Rightarrow> epoch
     \<Rightarrow> (voting_power_delta epoched_delta \<times> voting_power_delta epoched_delta, try_from_int_error) outcome"
where
  "update_voting_powers p offset total_deltas vp total_vp current_epoch =
     (let change_offset = offset_value offset p;
          start_epoch = current_epoch + change_offset;
          epochs = epoch_iter_range start_epoch (offset_value UnbondingLen p - change_offset + 1)
      in update_voting_powers_loop p total_deltas current_epoch epochs vp total_vp)"

section \<open>Slashing a validator\<close>

datatype 'a slash_error =
    ValidatorHasNoTotalDeltas 'a
  | SlashValidatorHasNoVotingPower 'a
  | InvalidSlashChange i128
  | SlashVotingPowerOverflow try_from_int_error
  | NegativeStake i128 'a

record 'a slash_data =
  sd_slashed :: token_change
  sd_total_deltas :: "token_change epoched_delta"
  sd_voting_power :: "voting_power_delta epoched_delta"
  sd_validator_set :: "'a validator_set epoched"
  sd_total_voting_power :: "voting_power_delta epoched_delta"

definition slash_validator ::
  "pos_params \<Rightarrow> epoch \<Rightarrow> 'a \<Rightarrow> slash \<Rightarrow> token_change epoched_delta
     \<Rightarrow> voting_power_delta epoched_delta \<Rightarrow> ('a :: linorder) validator_set epoched
     \<Rightarrow> voting_power_delta epoched_delta \<Rightarrow> ('a slash_data, 'a slash_error) outcome" where
  "slash_validator p current_epoch validator sl total_deltas vp vsets total_vp =
     (let current_stake = tokens_at (Some total_deltas) current_epoch
      in if sint current_stake < 0 then Err (NegativeStake current_stake validator)
         else
           (let slashed_amount = basis_points_mul_i128 (slash_rate sl) current_stake;
                change = - slashed_amount;
                update_offset = PipelineLen
            in case update_validator_set p validator change update_offset vsets (Some total_deltas)
                      current_epoch of
                 None \<Rightarrow> Panic
               | Some vsets' \<Rightarrow>
                   (case epoched_delta_add_at_offset (+) UnbondingLen total_deltas change current_epoch
                           update_offset p of
                      None \<Rightarrow> Panic
                    | Some total_deltas' \<Rightarrow>
                        outcome_bind
                          (map_err SlashVotingPowerOverflow
                            (update_voting_powers p update_offset total_deltas' vp total_vp
                              current_epoch))
                          (\<lambda>(vp', total_vp').
                             Ok \<lparr> sd_slashed = slashed_amount, sd_total_deltas = total_deltas',
                                  sd_voting_power = vp', sd_validator_set = vsets',
                                  sd_total_voting_power = total_vp' \<rparr>))))"

section \<open>Becoming a validator\<close>

record ('a, 'k) become_validator_data =
  bv_consensus_key :: "'k epoched"
  bv_state :: "validator_state epoched"
  bv_total_deltas :: "token_change epoched_delta"
  bv_voting_power :: "voting_power_delta epoched_delta"
  bv_validator_set :: "'a validator_set epoched"

definition become_validator ::
  "pos_params \<Rightarrow> 'a \<Rightarrow> 'k \<Rightarrow> ('a :: linorder) validator_set epoched \<Rightarrow> epoch
     \<Rightarrow> ('a, 'k) become_validator_data option" where
  "become_validator p addr consensus_key vsets current_epoch =
     (let state = epoched_set PipelineLen (epoched_init_at_genesis Pending current_epoch)
                    Candidate current_epoch p
      in map_option
           (\<lambda>vsets'.
              \<lparr> bv_consensus_key = epoched_init PipelineLen consensus_key current_epoch p,
                bv_state = state,
                bv_total_deltas = epoched_delta_init_at_offset 0 current_epoch PipelineLen p,
                bv_voting_power = epoched_delta_init_at_offset 0 current_epoch PipelineLen p,
                bv_validator_set = vsets' \<rparr>)
           (epoched_update_from_offset UnbondingLen vsets
              (\<lambda>vs _. Some (add_new_validator p addr vs)) current_epoch PipelineLen p))"

section \<open>What the update of voting powers establishes\<close>

text \<open>The voting power that the total deltas of an epoch stand for.\<close>

definition power_of_deltas ::
  "pos_params \<Rightarrow> token_change epoched_delta \<Rightarrow> epoch \<Rightarrow> voting_power_delta option" where
  "power_of_deltas p total_deltas e =
     Option.bind (u64_try_from_i128 (tokens_at (Some total_deltas) e))
       (\<lambda>t. voting_power_delta_try_from_tokens t p)"

definition delta_at_epoch :: "pos_params \<Rightarrow> epoch \<Rightarrow> 'd epoched_delta \<Rightarrow> bool" where
  "delta_at_epoch p c ed \<longleftrightarrow> epoched_delta_wf UnbondingLen p ed \<and> d_last_update ed \<le> c"

lemma voting_power_at_total: "voting_power_at vp e = delta_total (+) (\<lambda>x. x) vp e"
  by (simp add: voting_power_at_def delta_total_def opt_amount_def)

lemma add_at_epoch_voting_power:
  assumes "delta_at_epoch p c vp" "c \<le> u"
    and "epoched_delta_add_at_epoch (+) UnbondingLen vp d c u p = Some vp'"
  shows "delta_at_epoch p c vp'"
    and "c \<le> e \<Longrightarrow> voting_power_at vp' e = voting_power_at vp e + (if u \<le> e then d else 0)"
proof -
  have wf: "epoched_delta_wf UnbondingLen p vp" "d_last_update vp \<le> c"
    using assms(1) by (simp_all add: delta_at_epoch_def)
  have "d_last_update vp' = c"
    using assms(3) by (auto simp: epoched_delta_add_at_epoch_def Let_def split: if_splits)
  with epoched_delta_wf_add(5) [OF wf(1) assms(3)] show "delta_at_epoch p c vp'"
    by (simp add: delta_at_epoch_def)
  show "voting_power_at vp' e = voting_power_at vp e + (if u \<le> e then d else 0)" if "c \<le> e"
    using number_delta.total_add_at_epoch [OF wf that assms(2,3)] by (simp add: voting_power_at_total)
qed

lemma update_voting_powers_loop_ok:
  assumes "delta_at_epoch p c vp" "delta_at_epoch p c tot"
    and "sorted_wrt (<) es" "\<And>x. x \<in> set es \<Longrightarrow> c \<le> x"
    and "update_voting_powers_loop p td c es vp tot = Ok (vp', tot')"
  shows "delta_at_epoch p c vp' \<and> delta_at_epoch p c tot' \<and>
    (\<forall>e\<in>set es. power_of_deltas p td e = Some (voting_power_at vp' e)) \<and>
    (\<forall>e\<ge>c. (\<forall>x\<in>set es. e < x) \<longrightarrow> voting_power_at vp' e = voting_power_at vp e) \<and>
    (\<forall>e\<ge>c. voting_power_at tot' e - voting_power_at vp' e
             = voting_power_at tot e - voting_power_at vp e)"
  using assms
proof (induct es arbitrary: vp tot)
  case (Cons u es)
  define d where "d = the (power_of_deltas p td u) - voting_power_at vp u"
  obtain vp1 tot1 where step:
      "power_of_deltas p td u = Some (the (power_of_deltas p td u))"
      "epoched_delta_add_at_epoch (+) UnbondingLen vp d c u p = Some vp1"
      "epoched_delta_add_at_epoch (+) UnbondingLen tot d c u p = Some tot1"
      "update_voting_powers_loop p td c es vp1 tot1 = Ok (vp', tot')"
    using Cons.prems(5)
    by (auto simp: Let_def d_def power_of_deltas_def split: option.splits)
  have cu: "c \<le> u" and es: "sorted_wrt (<) es" "\<And>x. x \<in> set es \<Longrightarrow> u < x"
    "\<And>x. x \<in> set es \<Longrightarrow> c \<le> x"
    using Cons.prems(3,4) by auto
  note vp1 = add_at_epoch_voting_power [OF Cons.prems(1) cu step(2)]
  note tot1 = add_at_epoch_voting_power [OF Cons.prems(2) cu step(3)]
  note IH = Cons.hyps [OF vp1(1) tot1(1) es(1,3) step(4)]
  have u: "power_of_deltas p td u = Some (voting_power_at vp' u)"
  proof -
    have "voting_power_at vp' u = voting_power_at vp1 u"
      using IH es(2) cu by blast
    also have "\<dots> = the (power_of_deltas p td u)"
      using vp1(2) [OF cu] by (simp add: d_def)
    finally show ?thesis
      using step(1) by simp
  qed
  have before: "voting_power_at vp' e = voting_power_at vp e"
    if "c \<le> e" "\<forall>x\<in>set (u # es). e < x" for e
  proof -
    have "voting_power_at vp' e = voting_power_at vp1 e"
      using IH that by simp
    moreover have "\<not> u \<le> e"
      using that(2) by (auto simp: not_le)
    ultimately show ?thesis
      using vp1(2) [OF that(1)] by simp
  qed
  have "voting_power_at tot' e - voting_power_at vp' e = voting_power_at tot e - voting_power_at vp e"
    if "c \<le> e" for e
    using IH vp1(2) [OF that] tot1(2) [OF that] that by simp
  with IH u before show ?case
    by simp
qed simp

lemma epoch_iter_range_sorted:
  assumes "unat s + unat len < 2 ^ 64"
  shows "set (epoch_iter_range s len) = {e. s \<le> e \<and> unat e < unat s + unat len}"
    and "sorted_wrt (<) (epoch_iter_range s len)"
proof -
  have range: "epoch_iter_range s len = map of_nat [unat s ..< unat s + unat len]"
    using assms by (simp add: epoch_iter_range_def unat_add_no_wrap)
  have unat: "unat (of_nat i :: epoch) = i" if "i < unat s + unat len" for i
    using that assms by (intro unat_of_nat_u64) simp
  have "e \<in> of_nat ` {unat s ..< unat s + unat len} \<longleftrightarrow> s \<le> e \<and> unat e < unat s + unat len" for e
    using unat by (auto simp: word_le_nat_alt image_iff intro!: bexI [of _ "unat e"])
  then show "set (epoch_iter_range s len) = {e. s \<le> e \<and> unat e < unat s + unat len}"
    by (auto simp: range)
  show "sorted_wrt (<) (epoch_iter_range s len)"
    unfolding range sorted_wrt_map
    by (rule sorted_wrt_mono_rel [OF _ sorted_wrt_upt]) (use unat in \<open>auto simp: word_less_nat_alt\<close>)
qed

text \<open>Epochs after the last one that the data can hold read the value of that last epoch.\<close>

lemma delta_at_epoch_far:
  assumes "delta_at_epoch p c ed" "unat c + unat (unbonding_len p) \<le> unat e"
  shows "epoched_delta_get add ed e = delta_agg add (d_data ed)"
proof -
  have "length (d_data ed) \<le> Suc (unat e - unat (d_last_update ed))"
    using assms by (auto simp: delta_at_epoch_def epoched_delta_wf_def word_le_nat_alt)
  then show ?thesis
    by (simp add: epoched_delta_get_eq)
qed

lemma update_epochs:
  fixes off p c
  assumes "offset_ix off p \<le> unat (unbonding_len p)" "unat c + unat (unbonding_len p) + 1 < 2 ^ 64"
  defines "es \<equiv> epoch_iter_range (c + offset_value off p)
    (offset_value UnbondingLen p - offset_value off p + 1)"
  shows "set es = {e. unat c + offset_ix off p \<le> unat e \<and> unat e \<le> unat c + unat (unbonding_len p)}"
    and "sorted_wrt (<) es"
proof -
  define k u s l where "k = offset_value off p" and "u = unbonding_len p" and "s = c + k"
    and "l = u - k + 1"
  have k: "unat k \<le> unat u" "unat c + unat u + 1 < 2 ^ 64"
    using assms(1,2) by (simp_all add: k_def u_def)
  have s: "unat s = unat c + unat k"
    unfolding s_def using k by (intro unat_add_no_wrap) linarith
  have "unat (u - k) = unat u - unat k"
    using k(1) by (intro unat_sub) (simp add: word_le_nat_alt)
  moreover have "unat (u - k) + unat (1 :: u64) < 2 ^ 64"
    using calculation k by simp
  ultimately have l: "unat l = unat u - unat k + 1"
    using unat_add_no_wrap [of "u - k" 1] by (simp add: l_def)
  have "unat s + unat l < 2 ^ 64"
    using s l k by simp
  note range = epoch_iter_range_sorted [OF this]
  have es: "es = epoch_iter_range s l"
    unfolding es_def s_def l_def k_def u_def by simp
  show "sorted_wrt (<) es"
    using range(2) by (simp only: es)
  show "set es = {e. unat c + offset_ix off p \<le> unat e \<and> unat e \<le> unat c + unat (unbonding_len p)}"
    unfolding es range(1) word_le_nat_alt s l k_def [symmetric] u_def [symmetric]
    using k(1) by (auto simp: less_Suc_eq_le)
qed

lemma update_voting_powers_ok:
  assumes vp: "delta_at_epoch p c vp" "delta_at_epoch p c tot" "delta_at_epoch p c td"
    and off: "offset_ix off p \<le> unat (unbonding_len p)" "unat c + unat (unbonding_len p) + 1 < 2 ^ 64"
    and res: "update_voting_powers p off td vp tot c = Ok (vp', tot')"
  shows "delta_at_epoch p c vp'" "delta_at_epoch p c tot'"
    and "\<And>e. c \<le> e \<Longrightarrow> unat e < unat c + offset_ix off p \<Longrightarrow> voting_power_at vp' e = voting_power_at vp e"
    and "\<And>e. unat c + offset_ix off p \<le> unat e \<Longrightarrow>
           power_of_deltas p td e = Some (voting_power_at vp' e)"
    and "\<And>e. c \<le> e \<Longrightarrow> voting_power_at tot' e - voting_power_at vp' e
           = voting_power_at tot e - voting_power_at vp e"
proof -
  define es where "es = epoch_iter_range (c + offset_value off p)
    (offset_value UnbondingLen p - offset_value off p + 1)"
  note es = update_epochs [OF off, folded es_def]
  have "c \<le> x" if "x \<in> set es" for x
    using that by (simp add: es word_le_nat_alt)
  note loop = update_voting_powers_loop_ok [OF vp(1,2) es(2) this
      res [unfolded update_voting_powers_def Let_def, folded es_def]]
  show vp': "delta_at_epoch p c vp'" and "delta_at_epoch p c tot'"
    using loop by blast+
  show "voting_power_at vp' e = voting_power_at vp e"
    if "c \<le> e" "unat e < unat c + offset_ix off p" for e
    using loop that by (auto simp: es word_less_nat_alt)
  show "voting_power_at tot' e - voting_power_at vp' e = voting_power_at tot e - voting_power_at vp e"
    if "c \<le> e" for e
    using loop that by blast
  show "power_of_deltas p td e = Some (voting_power_at vp' e)"
    if e: "unat c + offset_ix off p \<le> unat e" for e
  proof (cases "unat e \<le> unat c + unat (unbonding_len p)")
    case True
    with e loop show ?thesis by (simp add: es)
  next
    case False
    let ?l = "c + unbonding_len p"
    have l: "unat ?l = unat c + unat (unbonding_len p)"
      using off(2) by (intro unat_add_no_wrap) simp
    then have "power_of_deltas p td ?l = Some (voting_power_at vp' ?l)"
      using loop off(1) by (simp add: es)
    with False l show ?thesis
      by (simp add: power_of_deltas_def tokens_at_def voting_power_at_def
          delta_at_epoch_far [OF vp(3)] delta_at_epoch_far [OF vp'])
  qed
qed

lemma add_at_epoch_total:
  assumes "delta_at_epoch p c vp" "c \<le> u" "unat u \<le> unat c + unat (unbonding_len p)"
  shows "\<exists>vp'. epoched_delta_add_at_epoch add UnbondingLen vp d c u p = Some vp'"
  using assms length_epoched_delta_update_data [of UnbondingLen p vp add c]
  by (simp add: epoched_delta_add_at_epoch_def Let_def delta_at_epoch_def unat_sub)

lemma update_voting_powers_loop_total:
  assumes "delta_at_epoch p c vp" "delta_at_epoch p c tot"
    and "\<And>x. x \<in> set es \<Longrightarrow> c \<le> x \<and> unat x \<le> unat c + unat (unbonding_len p) \<and>
           power_of_deltas p td x \<noteq> None"
  shows "\<exists>vp' tot'. update_voting_powers_loop p td c es vp tot = Ok (vp', tot')"
  using assms
proof (induct es arbitrary: vp tot)
  case (Cons u es)
  obtain t w where t: "u64_try_from_i128 (tokens_at (Some td) u) = Some t"
    "voting_power_delta_try_from_tokens t p = Some w"
    using Cons.prems(3) [of u] by (auto simp: power_of_deltas_def bind_eq_Some_conv)
  let ?d = "w - voting_power_at vp u"
  obtain vp1 tot1 where step:
      "epoched_delta_add_at_epoch (+) UnbondingLen vp ?d c u p = Some vp1"
      "epoched_delta_add_at_epoch (+) UnbondingLen tot ?d c u p = Some tot1"
    using Cons.prems(3) [of u] add_at_epoch_total Cons.prems(1,2)
    by (metis list.set_intros(1))
  have "c \<le> u"
    using Cons.prems(3) by simp
  note next_wf = add_at_epoch_voting_power(1) [OF Cons.prems(1) this step(1)]
    add_at_epoch_voting_power(1) [OF Cons.prems(2) this step(2)]
  have "\<exists>vp' tot'. update_voting_powers_loop p td c es vp1 tot1 = Ok (vp', tot')"
    using Cons.prems(3) by (intro Cons.hyps next_wf) simp
  with t step show ?case by simp
qed simp

lemma update_voting_powers_total:
  assumes "delta_at_epoch p c vp" "delta_at_epoch p c tot"
    and "offset_ix off p \<le> unat (unbonding_len p)" "unat c + unat (unbonding_len p) + 1 < 2 ^ 64"
    and "\<And>e. c \<le> e \<Longrightarrow> power_of_deltas p td e \<noteq> None"
  shows "\<exists>vp' tot'. update_voting_powers p off td vp tot c = Ok (vp', tot')"
  unfolding update_voting_powers_def Let_def
  using assms update_epochs [OF assms(3,4)]
  by (intro update_voting_powers_loop_total) (auto simp: word_le_nat_alt)

text \<open>
  Claim C7. A successful update of the voting powers makes the validator's voting power equal to the
  one its total deltas stand for, in every epoch from the change offset on, leaves earlier epochs
  from the current one on as they were, and moves the total voting power in every epoch by exactly
  the validator's own change.
\<close>

theorem update_voting_powers_correct:
  assumes "delta_at_epoch p c vp" "delta_at_epoch p c tot" "delta_at_epoch p c td"
    and "offset_ix off p \<le> unat (unbonding_len p)" "unat c + unat (unbonding_len p) + 1 < 2 ^ 64"
    and "update_voting_powers p off td vp tot c = Ok (vp', tot')" and "c \<le> e"
  shows "(if unat e < unat c + offset_ix off p then voting_power_at vp' e = voting_power_at vp e
          else power_of_deltas p td e = Some (voting_power_at vp' e)) \<and>
    voting_power_at tot' e - voting_power_at tot e = voting_power_at vp' e - voting_power_at vp e"
proof -
  note upd = update_voting_powers_ok [OF assms(1-6)]
  from upd(5) [OF assms(7)] have
    "voting_power_at tot' e - voting_power_at tot e = voting_power_at vp' e - voting_power_at vp e"
    by (simp add: algebra_simps)
  with upd(3,4) [of e] assms(7) show ?thesis
    by (simp add: not_less)
qed

theorem update_voting_powers_correct_witness:
  "\<exists>vp' tot'. update_voting_powers pos_params_default PipelineLen
       (epoched_delta_init_at_genesis 60000000000 3) (epoched_delta_init_at_genesis 20 3)
       (epoched_delta_init_at_genesis 100 3) 5 = Ok (vp', tot') \<and>
     voting_power_at vp' 6 = 20 \<and> voting_power_at vp' 8 = 60 \<and> voting_power_at tot' 8 = 140"
proof -
  let ?p = pos_params_default
  let ?td = "epoched_delta_init_at_genesis (60000000000 :: i128) 3"
  let ?vp = "epoched_delta_init_at_genesis (20 :: i64) 3"
  let ?tot = "epoched_delta_init_at_genesis (100 :: i64) 3"
  have genesis: "delta_at_epoch ?p 5 (epoched_delta_init_at_genesis v 3)" for v :: 'd
    by (simp add: delta_at_epoch_def epoched_delta_wf_ops)
  have "u64_try_from_i128 60000000000 = Some 60000000000"
    by (simp add: u64_try_from_i128_def)
  then have power: "power_of_deltas ?p ?td e = Some 60" for e
    by (simp add: power_of_deltas_def tokens_at_def voting_power_delta_try_from_tokens_def
        i64_try_from_u64_def basis_points_mul_u64_def pos_params_default_def)
  have vp: "voting_power_at ?vp e = 20" "voting_power_at ?tot e = 100" for e
    by (simp_all add: voting_power_at_def)
  have off: "offset_ix PipelineLen ?p \<le> unat (unbonding_len ?p)"
    "unat (5 :: epoch) + unat (unbonding_len ?p) + 1 < 2 ^ 64"
    by (simp_all add: pos_params_default_def)
  obtain vp' tot' where res: "update_voting_powers ?p PipelineLen ?td ?vp ?tot 5 = Ok (vp', tot')"
    using update_voting_powers_total [OF genesis genesis off, of ?td 20 100] power by auto
  have len: "unat (pipeline_len ?p) = 2"
    by (simp add: pos_params_default_def)
  note upd = update_voting_powers_correct [OF genesis genesis genesis off res]
  have "voting_power_at vp' 6 = 20" "voting_power_at vp' 8 = 60"
    using upd [of 6] upd [of 8] by (simp_all add: vp power len)
  moreover have "voting_power_at tot' 8 = 140"
    using conjunct2 [OF upd [of 8]] calculation by (simp add: vp diff_eq_eq)
  ultimately show ?thesis
    using res by blast
qed

section \<open>Changing the stake of a validator\<close>

text \<open>
  What ties a validator's data together: from the current epoch \<open>c\<close> on its voting power, and from the
  epoch \<open>s\<close> on in which it enters the validator sets its entry in them, are the ones its total deltas
  stand for. A validator enters the sets at the latest at the pipeline offset.
\<close>

definition validator_ok ::
  "pos_params \<Rightarrow> epoch \<Rightarrow> epoch \<Rightarrow> ('a :: linorder) validator_set epoched \<Rightarrow> 'a
     \<Rightarrow> token_change epoched_delta \<Rightarrow> voting_power_delta epoched_delta \<Rightarrow> bool" where
  "validator_ok p c s vsets addr td vp \<longleftrightarrow>
     c \<le> s \<and> unat s \<le> unat c + unat (pipeline_len p) \<and>
     delta_at_epoch p c td \<and> delta_at_epoch p c vp \<and> synced p s vsets addr td \<and>
     (\<forall>e\<ge>c. power_of_deltas p td e = Some (voting_power_at vp e))"

text \<open>A validator of the genesis set, with the data that genesis gives it.\<close>

lemma genesis_validator_data_ok:
  assumes "g \<le> c" "u64_try_from_i128 t = Some n" "voting_power_delta_try_from_tokens n p = Some w"
    and "WeightedValidator (voting_power_from_tokens n p) addr \<in> members vs"
  shows "validator_ok p c c (epoched_init_at_genesis vs g) addr (epoched_delta_init_at_genesis t g)
    (epoched_delta_init_at_genesis w g)"
proof -
  have "epoched_delta_get_delta_at_epoch (epoched_delta_init_at_genesis t g) x = None" if "c < x" for x
    using assms(1) that by (simp add: order.strict_trans1)
  with assms show ?thesis
    by (simp add: validator_ok_def delta_at_epoch_def epoched_delta_wf_ops synced_def has_power_def
        tokens_at_def power_of_deltas_def voting_power_at_def)
qed

text \<open>
  The core that bonding, unbonding and slashing share: the validator sets, the total deltas and the
  voting powers change together.
\<close>

lemma stake_change_ok:
  assumes sets: "sets_at_epoch p c vsets" and v: "validator_ok p c s vsets addr td vp"
    and tot: "delta_at_epoch p c tot" and c: "unat c + unat (unbonding_len p) + 1 < 2 ^ 64"
    and res: "update_validator_set p addr change off vsets (Some td) c = Some vsets'"
      "epoched_delta_add_at_offset (+) UnbondingLen td change c off p = Some td'"
      "update_voting_powers p off td' vp tot c = Ok (vp', tot')"
  shows "sets_at_epoch p c vsets'" "validator_ok p c s vsets' addr td' vp'" "delta_at_epoch p c tot'"
    and "w \<noteq> addr \<Longrightarrow> validator_ok p c sw vsets w tdw vpw \<Longrightarrow> validator_ok p c sw vsets' w tdw vpw"
    and "c \<le> e \<Longrightarrow> tokens_at (Some td') e =
           tokens_at (Some td) e + (if unat c + offset_ix off p \<le> unat e then change else 0)"
    and "c \<le> e \<Longrightarrow> voting_power_at tot' e - voting_power_at vp' e
           = voting_power_at tot e - voting_power_at vp e"
    and "c \<le> e \<Longrightarrow> epoched_get vsets' e = Some vs' \<Longrightarrow>
           \<exists>vs. epoched_get vsets e = Some vs \<and> others addr vs' = others addr vs"
proof -
  have td: "epoched_delta_wf UnbondingLen p td" "d_last_update td \<le> c"
    and vp: "delta_at_epoch p c td" "delta_at_epoch p c vp" and sync: "synced p s vsets addr td"
    using v by (simp_all add: validator_ok_def delta_at_epoch_def)
  have off: "offset_ix off p \<le> unat (unbonding_len p)"
    using sets_at_epochD(4) [OF sets] by simp
  have "pipeline_len p \<le> offset_value off p"
    using sets by (cases off) (simp_all add: sets_at_epoch_def)
  then have s: "c \<le> s" "unat s \<le> unat c + offset_ix off p"
    using v by (simp_all add: validator_ok_def word_le_nat_alt)
  note frame = update_validator_set_frame [OF sets sync td(2) s res(1)]
  show "sets_at_epoch p c vsets'"
    by (rule frame)
  show "\<exists>vs. epoched_get vsets e = Some vs \<and> others addr vs' = others addr vs"
    if "c \<le> e" "epoched_get vsets' e = Some vs'"
    using update_validator_set_epoch [OF sets that(1) sync td(2) s res(1)] that(2) by auto
  show "validator_ok p c sw vsets' w tdw vpw" if "w \<noteq> addr" "validator_ok p c sw vsets w tdw vpw"
    using that frame(4) by (simp add: validator_ok_def)
  have "d_last_update td' = c"
    using res(2) by (auto simp: epoched_delta_add_at_offset_def Let_def split: if_splits)
  then have td': "delta_at_epoch p c td'"
    using epoched_delta_wf_add(4) [OF td(1) res(2)] by (simp add: delta_at_epoch_def)
  note powers = update_voting_powers_ok [OF vp(2) tot td' off c res(3)]
  show "delta_at_epoch p c tot'"
    by (rule powers)
  show tokens: "tokens_at (Some td') e =
      tokens_at (Some td) e + (if unat c + offset_ix off p \<le> unat e then change else 0)" if "c \<le> e" for e
    using number_delta.total_add_at_offset [OF td that res(2)] by (simp add: tokens_at_total)
  show "voting_power_at tot' e - voting_power_at vp' e = voting_power_at tot e - voting_power_at vp e"
    if "c \<le> e" by (rule powers(5) [OF that])
  have "power_of_deltas p td' e = Some (voting_power_at vp' e)" if "c \<le> e" for e
  proof (cases "unat c + offset_ix off p \<le> unat e")
    case True
    then show ?thesis by (rule powers(4))
  next
    case False
    then have "power_of_deltas p td' e = power_of_deltas p td e"
      using tokens [OF that] by (simp add: power_of_deltas_def)
    with False powers(3) [OF that] v that show ?thesis
      by (simp add: validator_ok_def)
  qed
  with v td' powers(1) update_validator_set_sync [OF sets sync td(2) s td(1) res(2,1)]
  show "validator_ok p c s vsets' addr td' vp'"
    by (simp add: validator_ok_def)
qed

lemma sint_basis_points_mul_i128:
  assumes "0 \<le> sint x" "sint x < 2 ^ 64" "bp \<le> 10000"
  shows "sint (basis_points_mul_i128 bp x) = sint x * uint bp div 10000"
proof -
  have bp: "0 \<le> uint bp" "uint bp \<le> 10000"
    using assms(3) by (simp_all add: word_le_def)
  have "sint x * uint bp \<le> 2 ^ 64 * 10000"
    using assms(1,2) bp by (intro mult_mono) simp_all
  then have m: "0 \<le> sint x * uint bp" "sint x * uint bp \<le> 2 ^ 64 * 10000"
    using assms(1) bp(1) by simp_all
  have prod: "x * i128_from_u64 bp = word_of_int (sint x * uint bp)"
    by (simp add: i128_from_u64_def)
  have "sint (x * i128_from_u64 bp) = sint x * uint bp"
    unfolding prod using m by (intro sint_of_int_i128) simp_all
  moreover have "0 \<le> sint x * uint bp div 10000" "sint x * uint bp div 10000 \<le> 2 ^ 64"
    using m zdiv_mono1 [OF m(2), of 10000] by (simp_all add: pos_imp_zdiv_nonneg_iff)
  ultimately show ?thesis
    using m(1) by (simp add: basis_points_mul_i128_def i128_div_def sint_of_int_i128
        signed_divide_int_def sgn_if)
qed

lemma basis_points_mul_i128_le:
  assumes "0 \<le> sint x" "sint x < 2 ^ 64" "bp \<le> 10000"
  shows "0 \<le> sint (basis_points_mul_i128 bp x)" "sint (basis_points_mul_i128 bp x) \<le> sint x"
proof -
  have bp: "0 \<le> uint bp" "uint bp \<le> 10000"
    using assms(3) by (simp_all add: word_le_def)
  have "sint x * uint bp div 10000 \<le> sint x * 10000 div 10000"
    using assms(1) bp by (intro zdiv_mono1 mult_left_mono) simp_all
  then show "sint (basis_points_mul_i128 bp x) \<le> sint x"
    by (simp add: sint_basis_points_mul_i128 [OF assms])
  show "0 \<le> sint (basis_points_mul_i128 bp x)"
    using assms(1) bp by (simp add: sint_basis_points_mul_i128 [OF assms] pos_imp_zdiv_nonneg_iff)
qed

lemma u64_try_from_i128_bounds:
  "u64_try_from_i128 x = Some t \<Longrightarrow> 0 \<le> sint x \<and> sint x < 2 ^ 64"
  by (auto simp: u64_try_from_i128_def split: if_splits)

text \<open>The successful runs of \<^verbatim>\<open>slash\<close>.\<close>

lemma slash_validator_OkD:
  assumes "slash_validator p c addr sl td vp vsets tot = Ok sd"
  shows "update_validator_set p addr (- sd_slashed sd) PipelineLen vsets (Some td) c
      = Some (sd_validator_set sd)"
    and "epoched_delta_add_at_offset (+) UnbondingLen td (- sd_slashed sd) c PipelineLen p
      = Some (sd_total_deltas sd)"
    and "update_voting_powers p PipelineLen (sd_total_deltas sd) vp tot c
      = Ok (sd_voting_power sd, sd_total_voting_power sd)"
    and "sd_slashed sd = basis_points_mul_i128 (slash_rate sl) (tokens_at (Some td) c)"
  using assms
  by (auto simp: slash_validator_def Let_def outcome_simps split: if_splits option.splits)

text \<open>
  Claim C4. A successful slash takes the rate's share of the stake in the current epoch, between
  nothing and all of it, off the validator's stake from the pipeline offset on, and the validator
  sets, the voting power and the total voting power follow: the validator's data stay tied together
  in every epoch.
\<close>

theorem slash_validator_correct:
  assumes "sets_at_epoch p c vsets" "validator_ok p c s vsets addr td vp" "delta_at_epoch p c tot"
    and "unat c + unat (unbonding_len p) + 1 < 2 ^ 64" "slash_rate sl \<le> 10000"
    and "slash_validator p c addr sl td vp vsets tot = Ok sd" and "c \<le> e"
  shows "sint (sd_slashed sd) = sint (tokens_at (Some td) c) * uint (slash_rate sl) div 10000 \<and>
    0 \<le> sint (sd_slashed sd) \<and> sint (sd_slashed sd) \<le> sint (tokens_at (Some td) c) \<and>
    tokens_at (Some (sd_total_deltas sd)) e =
      tokens_at (Some td) e - (if unat c + unat (pipeline_len p) \<le> unat e then sd_slashed sd else 0) \<and>
    sets_at_epoch p c (sd_validator_set sd) \<and>
    validator_ok p c s (sd_validator_set sd) addr (sd_total_deltas sd) (sd_voting_power sd) \<and>
    voting_power_at (sd_total_voting_power sd) e - voting_power_at tot e =
      voting_power_at (sd_voting_power sd) e - voting_power_at vp e"
proof -
  obtain stake where "u64_try_from_i128 (tokens_at (Some td) c) = Some stake"
    using assms(2) by (auto simp: validator_ok_def power_of_deltas_def bind_eq_Some_conv)
  note stake = u64_try_from_i128_bounds [OF this]
  note res = slash_validator_OkD [OF assms(6)]
  note change = stake_change_ok [OF assms(1-4) res(1-3)]
  have "voting_power_at (sd_total_voting_power sd) e - voting_power_at tot e =
      voting_power_at (sd_voting_power sd) e - voting_power_at vp e"
    using change(6) [OF assms(7)] by (simp add: algebra_simps)
  with change(1,2) change(5) [OF assms(7)] res(4)
    sint_basis_points_mul_i128 [OF conjunct1 [OF stake] conjunct2 [OF stake] assms(5)]
    basis_points_mul_i128_le [OF conjunct1 [OF stake] conjunct2 [OF stake] assms(5)]
  show ?thesis by simp
qed

lemma example_sets:
  "sets_at_epoch pos_params_default 5 (epoched_init_at_genesis \<lparr> active = {WeightedValidator 20 (1 :: int)}, inactive = {} \<rparr> 3)"
  by (simp add: sets_at_epoch_def epoched_wf_ops pos_params_default_def validator_sets_ok_def validator_set_ok_def)

lemma example_validator:
  "validator_ok pos_params_default 5 5
     (epoched_init_at_genesis \<lparr> active = {WeightedValidator 20 (1 :: int)}, inactive = {} \<rparr> 3) 1
     (epoched_delta_init_at_genesis 20000000000 3) (epoched_delta_init_at_genesis 20 3)"
proof -
  have conv: "u64_try_from_i128 20000000000 = Some 20000000000"
    by (simp add: u64_try_from_i128_def)
  show ?thesis
    by (rule genesis_validator_data_ok [OF _ conv])
      (simp_all add: voting_power_delta_try_from_tokens_def i64_try_from_u64_def members_def
        basis_points_mul_u64_def voting_power_from_tokens_def pos_params_default_def)
qed

theorem slash_validator_correct_witness:
  "\<exists>sd. slash_validator pos_params_default 5 (1 :: int)
       \<lparr> slash_epoch = 5, slash_block_height = 10, slash_kind = DuplicateVote, slash_rate = 500 \<rparr>
       (epoched_delta_init_at_genesis 20000000000 3) (epoched_delta_init_at_genesis 20 3)
       (epoched_init_at_genesis \<lparr> active = {WeightedValidator 20 1}, inactive = {} \<rparr> 3)
       (epoched_delta_init_at_genesis 20 3) = Ok sd \<and>
     sint (sd_slashed sd) = 1000000000 \<and>
     validator_ok pos_params_default 5 5 (sd_validator_set sd) 1 (sd_total_deltas sd) (sd_voting_power sd)"
proof -
  let ?p = pos_params_default
  let ?sl = "\<lparr> slash_epoch = 5, slash_block_height = 10, slash_kind = DuplicateVote, slash_rate = 500 \<rparr>"
  let ?vsets = "epoched_init_at_genesis \<lparr> active = {WeightedValidator 20 (1 :: int)}, inactive = {} \<rparr> 3"
  let ?td = "epoched_delta_init_at_genesis (20000000000 :: i128) 3"
  let ?vp = "epoched_delta_init_at_genesis (20 :: i64) 3"
  note sets = example_sets and ok = example_validator
  have "case slash_validator ?p 5 1 ?sl ?td ?vp ?vsets ?vp of Ok sd \<Rightarrow> True | _ \<Rightarrow> False"
    by code_simp
  then obtain sd where sd: "slash_validator ?p 5 1 ?sl ?td ?vp ?vsets ?vp = Ok sd"
    by (auto split: outcome.splits)
  moreover have "delta_at_epoch ?p 5 ?vp"
    using ok by (simp add: validator_ok_def)
  ultimately show ?thesis
    using slash_validator_correct [OF sets ok _ _ _ sd, of 5]
    by (auto simp: tokens_at_def pos_params_default_def)
qed

section \<open>When slashing panics\<close>

lemma voting_power_delta_total: "\<exists>w. voting_power_delta_try_from_tokens t p = Some w"
proof -
  have "uint (x div 10000 :: u64) < 2 ^ 63" for x
    using zdiv_mono1 [of "uint x" 18446744073709551615 10000] uint_u64_bound [of x] by (simp add: uint_div_distrib)
  then show ?thesis
    by (simp add: voting_power_delta_try_from_tokens_def i64_try_from_u64_def basis_points_mul_u64_def)
qed

lemma u64_try_from_i128_iff: "u64_try_from_i128 x \<noteq> None \<longleftrightarrow> 0 \<le> sint x \<and> sint x < 2 ^ 64"
  by (simp add: u64_try_from_i128_def)

lemma sint_minus_i128:
  assumes "0 \<le> sint x" "sint x < 2 ^ 64" "0 \<le> sint y" "sint y < 2 ^ 64"
  shows "sint (x - y :: i128) = sint x - sint y"
proof -
  have "x - y = word_of_int (sint x - sint y)" by simp
  then show ?thesis
    using assms sint_of_int_i128 [of "sint x - sint y"] by simp
qed

lemma slash_validator_cases:
  assumes "sets_at_epoch p c vsets" "validator_ok p c s vsets addr td vp" "delta_at_epoch p c tot"
    and "unat c + unat (unbonding_len p) + 1 < 2 ^ 64" "slash_rate sl \<le> 10000"
  defines "slashed \<equiv> basis_points_mul_i128 (slash_rate sl) (tokens_at (Some td) c)"
  shows "if \<forall>e. unat c + unat (pipeline_len p) \<le> unat e \<longrightarrow> sint slashed \<le> sint (tokens_at (Some td) e)
    then \<exists>sd. slash_validator p c addr sl td vp vsets tot = Ok sd
    else slash_validator p c addr sl td vp vsets tot = Panic"
proof -
  have stake: "0 \<le> sint (tokens_at (Some td) e)" "sint (tokens_at (Some td) e) < 2 ^ 64" if "c \<le> e" for e
    using assms(2) that u64_try_from_i128_bounds by (auto simp: validator_ok_def power_of_deltas_def bind_eq_Some_conv)
  have slashed: "0 \<le> sint slashed" "sint slashed < 2 ^ 64"
    using basis_points_mul_i128_le [OF stake [OF order_refl] assms(5)] stake(2) [OF order_refl] by (simp_all add: slashed_def)
  have later: "c \<le> e" if "unat c + unat (pipeline_len p) \<le> unat e" for e
    using that by (simp add: word_le_nat_alt)
  have td: "epoched_delta_wf UnbondingLen p td" "d_last_update td \<le> c" "delta_at_epoch p c vp" "synced p s vsets addr td"
    and s: "c \<le> s" "unat s \<le> unat c + offset_ix PipelineLen p"
    using assms(2) by (simp_all add: validator_ok_def delta_at_epoch_def)
  have off: "offset_ix PipelineLen p \<le> unat (unbonding_len p)"
    using sets_at_epochD(4) [OF assms(1), of PipelineLen] by simp
  show ?thesis
  proof (cases "\<forall>e. unat c + unat (pipeline_len p) \<le> unat e \<longrightarrow> sint slashed \<le> sint (tokens_at (Some td) e)")
    case True
    have post: "u64_try_from_i128 (tokens_at (Some td) e - slashed) \<noteq> None" if "unat c + unat (pipeline_len p) \<le> unat e" for e
      using sint_minus_i128 [OF stake [OF later [OF that]] slashed] True that stake [OF later [OF that]] slashed
      unfolding u64_try_from_i128_iff by simp
    obtain vsets' where vsets': "update_validator_set p addr (- slashed) PipelineLen vsets (Some td) c = Some vsets'"
      using update_validator_set_total [OF assms(1), of PipelineLen "Some td" "- slashed" addr] post stake later
      unfolding u64_try_from_i128_iff by auto
    obtain td' where td': "epoched_delta_add_at_offset (+) UnbondingLen td (- slashed) c PipelineLen p = Some td'"
      using length_epoched_delta_update_data [OF td(1), of "(+)" c] off
      by (auto simp: epoched_delta_add_at_offset_def Let_def)
    have "tokens_at (Some td') e = tokens_at (Some td) e + (if unat c + offset_ix PipelineLen p \<le> unat e then - slashed else 0)"
      if "c \<le> e" for e
      using number_delta.total_add_at_offset [OF td(1,2) that td'] by (simp add: tokens_at_total)
    then have "u64_try_from_i128 (tokens_at (Some td') e) \<noteq> None" if "c \<le> e" for e
      using post [of e] stake [OF that] that unfolding u64_try_from_i128_iff by simp
    then have "power_of_deltas p td' e \<noteq> None" if "c \<le> e" for e
      using voting_power_delta_total that by (fastforce simp: power_of_deltas_def)
    with update_voting_powers_total [OF td(3) assms(3) off assms(4)]
    obtain vp' tot' where "update_voting_powers p PipelineLen td' vp tot c = Ok (vp', tot')" by blast
    with True vsets' td' stake(1) [OF order_refl] show ?thesis
      by (simp add: slash_validator_def slashed_def [symmetric] not_less Let_def)
  next
    case False
    then obtain e where e: "unat c + unat (pipeline_len p) \<le> unat e" "sint (tokens_at (Some td) e) < sint slashed"
      by (auto simp: not_le)
    have "update_validator_set p addr (- slashed) PipelineLen vsets (Some td) c = None"
    proof (rule ccontr)
      assume "\<not> ?thesis"
      then obtain vsets' where "update_validator_set p addr (- slashed) PipelineLen vsets (Some td) c = Some vsets'" by auto
      from update_validator_set_epoch [OF assms(1) later [OF e(1)] td(4,2) s this] e(1) s(2)
      have "u64_try_from_i128 (tokens_at (Some td) e - slashed) \<noteq> None"
        by (auto simp: has_power_def word_le_nat_alt)
      with sint_minus_i128 [OF stake [OF later [OF e(1)]] slashed] e(2) show False
        unfolding u64_try_from_i128_iff by simp
    qed
    with False stake(1) [OF order_refl] show ?thesis
      by (auto simp: slash_validator_def slashed_def [symmetric] not_less Let_def)
  qed
qed

text \<open>
  Claim C15. Slashing returns or panics, and panics exactly when some epoch from the pipeline offset on has less
  stake than the slash: the slash is a share of the stake in the current epoch, but it is subtracted from
  the stake of every later epoch, where a pending unbonding may have left less than that.
\<close>

theorem slash_panics_iff:
  assumes "sets_at_epoch p c vsets" "validator_ok p c s vsets addr td vp" "delta_at_epoch p c tot"
    and "unat c + unat (unbonding_len p) + 1 < 2 ^ 64" "slash_rate sl \<le> 10000"
  shows "if \<exists>e. unat c + unat (pipeline_len p) \<le> unat e \<and>
         sint (tokens_at (Some td) e) < sint (tokens_at (Some td) c) * uint (slash_rate sl) div 10000
    then slash_validator p c addr sl td vp vsets tot = Panic
    else \<exists>sd. slash_validator p c addr sl td vp vsets tot = Ok sd"
proof -
  obtain stake where "u64_try_from_i128 (tokens_at (Some td) c) = Some stake"
    using assms(2) by (auto simp: validator_ok_def power_of_deltas_def bind_eq_Some_conv)
  note stake = u64_try_from_i128_bounds [OF this]
  show ?thesis
    using slash_validator_cases [OF assms]
    unfolding sint_basis_points_mul_i128 [OF conjunct1 [OF stake] conjunct2 [OF stake] assms(5)]
    by (simp add: not_less split: if_splits) (metis not_less)+
qed

theorem slash_panics_iff_witness:
  "\<exists>vsets td vp tot.
     update_validator_set pos_params_default (1 :: int) (- 19999000000) UnbondingLen
       (epoched_init_at_genesis \<lparr> active = {WeightedValidator 20 1}, inactive = {} \<rparr> 3)
       (Some (epoched_delta_init_at_genesis 20000000000 3)) 5 = Some vsets \<and>
     epoched_delta_add_at_offset (+) UnbondingLen (epoched_delta_init_at_genesis 20000000000 3) (- 19999000000) 5
       UnbondingLen pos_params_default = Some td \<and>
     slash_validator pos_params_default 5 1
       \<lparr> slash_epoch = 5, slash_block_height = 10, slash_kind = DuplicateVote, slash_rate = 500 \<rparr> td vp vsets tot = Panic"
proof -
  let ?p = pos_params_default
  let ?sl = "\<lparr> slash_epoch = 5, slash_block_height = 10, slash_kind = DuplicateVote, slash_rate = 500 \<rparr>"
  let ?vsets = "epoched_init_at_genesis \<lparr> active = {WeightedValidator 20 (1 :: int)}, inactive = {} \<rparr> 3"
  let ?td = "epoched_delta_init_at_genesis (20000000000 :: i128) 3"
  let ?vp = "epoched_delta_init_at_genesis (20 :: i64) 3"
  note sets = example_sets and ok = example_validator
  have vp: "delta_at_epoch ?p 5 ?vp"
    using ok by (simp add: validator_ok_def)
  have c: "unat (5 :: u64) + unat (unbonding_len ?p) + 1 < 2 ^ 64"
    by (simp add: pos_params_default_def)
  have "case update_validator_set ?p 1 (- 19999000000) UnbondingLen ?vsets (Some ?td) 5 of Some _ \<Rightarrow> True | None \<Rightarrow> False"
    by code_simp
  then obtain vsets where vsets: "update_validator_set ?p 1 (- 19999000000) UnbondingLen ?vsets (Some ?td) 5 = Some vsets"
    by (auto split: option.splits)
  have "case epoched_delta_add_at_offset (+) UnbondingLen ?td (- 19999000000) 5 UnbondingLen ?p of
      None \<Rightarrow> False
    | Some td \<Rightarrow> (case update_voting_powers ?p UnbondingLen td ?vp ?vp 5 of Ok _ \<Rightarrow> True | _ \<Rightarrow> False)"
    by code_simp
  then obtain td vp tot where td: "epoched_delta_add_at_offset (+) UnbondingLen ?td (- 19999000000) 5 UnbondingLen ?p = Some td"
    "update_voting_powers ?p UnbondingLen td ?vp ?vp 5 = Ok (vp, tot)"
    by (auto split: option.splits outcome.splits)
  note new = stake_change_ok [OF sets ok vp c vsets td]
  have tokens: "tokens_at (Some td) 5 = 20000000000" "tokens_at (Some td) 11 = 1000000"
    using new(5) [of 5] new(5) [of 11] by (simp_all add: tokens_at_def pos_params_default_def)
  have "unat (5 :: u64) + unat (pipeline_len ?p) \<le> unat (11 :: u64) \<and>
      sint (tokens_at (Some td) 11) < sint (tokens_at (Some td) 5) * uint (slash_rate ?sl) div 10000"
    unfolding tokens by (simp add: pos_params_default_def)
  with slash_panics_iff [OF new(1-3) c, of ?sl] have "slash_validator ?p 5 1 ?sl td vp vsets tot = Panic"
    by (auto split: if_splits)
  with vsets td(1) show ?thesis by blast
qed

section \<open>New validators\<close>

lemma become_validator_total:
  assumes "sets_at_epoch p c vsets"
  shows "\<exists>bv. become_validator p addr key vsets c = Some bv"
proof -
  note D = sets_at_epochD [OF assms]
  have "\<exists>vsets'. epoched_update_from_offset UnbondingLen vsets
      (\<lambda>vs _. Some (add_new_validator p addr vs)) c PipelineLen p = Some vsets'"
    by (rule epoched_update_from_offset_total [OF D(1,4)]) simp
  then show ?thesis
    by (auto simp: become_validator_def Let_def)
qed

lemma become_validator_sets:
  assumes sets: "sets_at_epoch p c vsets" and res: "become_validator p addr key vsets c = Some bv"
    and fresh: "\<forall>e\<ge>c. \<forall>vs. epoched_get vsets e = Some vs \<longrightarrow> addr \<notin> wv_address ` members vs"
    and e: "c \<le> e"
  shows "\<exists>vs. epoched_get vsets e = Some vs \<and>
    epoched_get (bv_validator_set bv) e =
      Some (if unat c + unat (pipeline_len p) \<le> unat e then add_new_validator p addr vs else vs) \<and>
    validator_set_ok (unat (max_validator_slots p))
      (if unat c + unat (pipeline_len p) \<le> unat e then add_new_validator p addr vs else vs)"
proof -
  note D = sets_at_epochD [OF sets]
  have upd: "epoched_update_from_offset UnbondingLen vsets
      (\<lambda>vs _. Some (add_new_validator p addr vs)) c PipelineLen p = Some (bv_validator_set bv)"
    using res by (auto simp: become_validator_def Let_def)
  obtain vs where vs: "epoched_get vsets e = Some vs"
    "validator_set_ok (unat (max_validator_slots p)) vs"
    using D(6) [OF e] by auto
  show ?thesis
  proof (cases "unat c + offset_ix PipelineLen p \<le> unat e")
    case True
    from epoched_update_from_offset_later [OF D(1,2) e D(4,3) upd True] vs
      add_new_validator_preserves [OF vs(2)] fresh e True
    show ?thesis by auto
  next
    case False
    with epoched_update_from_offset_earlier [OF D(1,2) e D(4) upd] vs show ?thesis by auto
  qed
qed

lemma has_power_add_new:
  "has_power p t w vs \<Longrightarrow> has_power p t w (add_new_validator q addr vs)"
  by (auto simp: has_power_def add_new_validator_members)

lemma new_validator_zero:
  "tokens_at (Some (epoched_delta_init_at_offset 0 c off p)) e = 0"
  "voting_power_at (epoched_delta_init_at_offset 0 c off p) e = 0"
  by (simp_all add: tokens_at_total voting_power_at_total epoched_delta_init_at_offset_def
      number_delta.total_init_at_index)

lemma zero_power:
  "u64_try_from_i128 0 = Some 0" "voting_power_from_tokens 0 p = 0"
  "voting_power_delta_try_from_tokens 0 p = Some 0"
  by (simp_all add: u64_try_from_i128_def voting_power_from_tokens_def basis_points_mul_u64_def
      voting_power_delta_try_from_tokens_def i64_try_from_u64_def)

lemma delta_at_epoch_init:
  "sets_at_epoch p c vsets \<Longrightarrow> delta_at_epoch p c (epoched_delta_init_at_offset v c off p)"
  using sets_at_epochD(4) [of p c vsets off]
  by (simp add: delta_at_epoch_def epoched_delta_init_at_offset_def
      epoched_delta_init_at_index_def epoched_delta_wf_def)

lemma become_validator_frame:
  assumes sets: "sets_at_epoch p c vsets" and res: "become_validator p addr key vsets c = Some bv"
    and fresh: "\<forall>e\<ge>c. \<forall>vs. epoched_get vsets e = Some vs \<longrightarrow> addr \<notin> wv_address ` members vs"
  shows "sets_at_epoch p c (bv_validator_set bv)"
    and "c \<le> sw \<Longrightarrow> synced p sw vsets w tdw \<Longrightarrow> synced p sw (bv_validator_set bv) w tdw"
proof -
  note D = sets_at_epochD [OF sets]
  have upd: "epoched_update_from_offset UnbondingLen vsets
      (\<lambda>vs _. Some (add_new_validator p addr vs)) c PipelineLen p = Some (bv_validator_set bv)"
    using res by (auto simp: become_validator_def Let_def)
  note at_epoch = become_validator_sets [OF sets res fresh]
  have "validator_sets_ok (unat (max_validator_slots p)) c (bv_validator_set bv)"
    unfolding validator_sets_ok_def using at_epoch by blast
  then show "sets_at_epoch p c (bv_validator_set bv)"
    using sets epoched_update_from_offset_wf [OF D(1,4) upd] by (simp add: sets_at_epoch_def)
  show "synced p sw (bv_validator_set bv) w tdw" if w: "c \<le> sw" "synced p sw vsets w tdw"
    unfolding synced_def
  proof (intro conjI allI impI)
    fix e assume "sw \<le> e"
    with w obtain vs where vs: "epoched_get vsets e = Some vs"
      "has_power p (tokens_at (Some tdw) e) w vs"
      by (auto simp: synced_def)
    from at_epoch [of e] w(1) \<open>sw \<le> e\<close> vs(1)
    have "epoched_get (bv_validator_set bv) e =
        Some (if unat c + unat (pipeline_len p) \<le> unat e then add_new_validator p addr vs else vs)"
      by auto
    with vs(2) has_power_add_new
    show "\<exists>vs. epoched_get (bv_validator_set bv) e = Some vs \<and>
        has_power p (tokens_at (Some tdw) e) w vs"
      by auto
  next
    fix x assume x: "sw < x" "epoched_delta_get_delta_at_epoch tdw x \<noteq> None"
    with w(2) have "epoched_get_at_epoch vsets x \<noteq> None"
      by (simp add: synced_def)
    with epoched_update_from_offset_entries [OF D(1,2) order.strict_trans1 [OF w(1) x(1)] D(4) upd]
    show "epoched_get_at_epoch (bv_validator_set bv) x \<noteq> None"
      by blast
  qed
qed

lemma become_validator_ok:
  assumes sets: "sets_at_epoch p c vsets" and bv: "become_validator p addr key vsets c = Some bv"
    and fresh: "\<forall>e\<ge>c. \<forall>vs. epoched_get vsets e = Some vs \<longrightarrow> addr \<notin> wv_address ` members vs"
  shows "validator_ok p c (c + pipeline_len p) (bv_validator_set bv) addr (bv_total_deltas bv)
    (bv_voting_power bv)"
proof -
  let ?s = "c + pipeline_len p"
  have data: "bv_total_deltas bv = epoched_delta_init_at_offset 0 c PipelineLen p"
    "bv_voting_power bv = epoched_delta_init_at_offset 0 c PipelineLen p"
    using bv by (auto simp: become_validator_def Let_def)
  have "unat c + unat (pipeline_len p) < 2 ^ 64" "pipeline_len p \<le> unbonding_len p"
    using sets by (auto simp: sets_at_epoch_def word_le_nat_alt)
  then have s: "unat ?s = unat c + unat (pipeline_len p)" "c \<le> ?s"
    by (simp_all add: unat_add_no_wrap word_le_nat_alt)
  have "synced p ?s (bv_validator_set bv) addr (bv_total_deltas bv)"
    unfolding synced_def
  proof (intro conjI allI impI)
    fix e assume "?s \<le> e"
    with s become_validator_sets [OF sets bv fresh, of e]
    show "\<exists>vs. epoched_get (bv_validator_set bv) e = Some vs \<and>
        has_power p (tokens_at (Some (bv_total_deltas bv)) e) addr vs"
      by (force simp: word_le_nat_alt has_power_def data new_validator_zero zero_power
          add_new_validator_members)
  next
    fix x assume "?s < x" "epoched_delta_get_delta_at_epoch (bv_total_deltas bv) x \<noteq> None"
    moreover from this(1) s(1) have "c \<le> x" "unat c + unat (pipeline_len p) < unat x"
      by (simp_all add: word_le_nat_alt word_less_nat_alt)
    ultimately show "epoched_get_at_epoch (bv_validator_set bv) x \<noteq> None"
      by (auto simp: data delta_at_epoch_eq epoched_delta_init_at_offset_def
          epoched_delta_init_at_index_def split: if_splits)
  qed
  then show ?thesis
    using s
    by (simp add: delta_at_epoch_init [OF sets] validator_ok_def data power_of_deltas_def
        new_validator_zero zero_power)
qed

text \<open>
  Claim C16. A new validator without stake: it always gets its data, it is pending until the pipeline
  offset and a candidate from there on, it enters the validator sets of every epoch from the pipeline
  offset on, its voting power and its entry follow its (empty) total deltas, and the validator sets
  stay well-formed with everybody else's entries in step.
\<close>

theorem become_validator_correct:
  assumes "sets_at_epoch p c vsets"
    and "\<forall>e\<ge>c. \<forall>vs. epoched_get vsets e = Some vs \<longrightarrow> addr \<notin> wv_address ` members vs"
  shows "\<exists>bv. become_validator p addr key vsets c = Some bv \<and>
    sets_at_epoch p c (bv_validator_set bv) \<and>
    validator_ok p c (c + pipeline_len p) (bv_validator_set bv) addr (bv_total_deltas bv)
      (bv_voting_power bv) \<and>
    (\<forall>e\<ge>c. epoched_get (bv_state bv) e =
       Some (if unat c + unat (pipeline_len p) \<le> unat e then Candidate else Pending)) \<and>
    (\<forall>w sw tdw. c \<le> sw \<longrightarrow> synced p sw vsets w tdw \<longrightarrow> synced p sw (bv_validator_set bv) w tdw)"
proof -
  obtain bv where bv: "become_validator p addr key vsets c = Some bv"
    using become_validator_total [OF assms(1), of addr key] by blast
  then have "bv_state bv = epoched_set PipelineLen (epoched_init_at_genesis Pending c) Candidate c p"
    by (auto simp: become_validator_def Let_def)
  then have "epoched_get (bv_state bv) e =
      Some (if unat c + unat (pipeline_len p) \<le> unat e then Candidate else Pending)" if "c \<le> e" for e
    using epoched_get_set [of PipelineLen p "epoched_init_at_genesis Pending c" c e Candidate] that
    by (simp add: epoched_wf_ops)
  then show ?thesis
    using bv become_validator_frame [OF assms(1) bv assms(2)] become_validator_ok [OF assms(1) bv assms(2)]
    by blast
qed

theorem become_validator_correct_witness:
  "\<exists>bv. become_validator pos_params_default (2 :: int) (77 :: int)
       (epoched_init_at_genesis \<lparr> active = {WeightedValidator 20 1}, inactive = {} \<rparr> 3) 5 = Some bv \<and>
     validator_ok pos_params_default 5 7 (bv_validator_set bv) 2 (bv_total_deltas bv) (bv_voting_power bv)"
proof -
  let ?p = pos_params_default
  let ?vsets = "epoched_init_at_genesis \<lparr> active = {WeightedValidator 20 (1 :: int)}, inactive = {} \<rparr> 3"
  have sets: "sets_at_epoch ?p 5 ?vsets"
    by (simp add: sets_at_epoch_def epoched_wf_ops pos_params_default_def validator_sets_ok_def
        validator_set_ok_def)
  have "\<forall>e\<ge>5. \<forall>vs. epoched_get ?vsets e = Some vs \<longrightarrow> 2 \<notin> wv_address ` members vs"
    by (simp add: members_def)
  moreover have "(5 :: epoch) + pipeline_len ?p = 7"
    by (simp add: pos_params_default_def)
  ultimately show ?thesis
    using become_validator_correct [OF sets, of 2 "77 :: int"] by auto
qed

end
