(* ===== verification/Pos_Bonds.thy ===== *)
theory Pos_Bonds
  imports Pos_Voting
begin

text \<open>
  Bonding, unbonding and withdrawing of \<^verbatim>\<open>proof_of_stake/src/lib.rs\<close>: the free functions
  \<^verbatim>\<open>bond_tokens\<close>, \<^verbatim>\<open>unbond_tokens\<close> and \<^verbatim>\<open>withdraw_unbonds\<close>. The data that the functions change through
  mutable references are arguments and come back in a record of the result.

  The order in which \<^verbatim>\<open>HashMap::retain\<close> visits the bonds is not specified by Rust; it is the argument
  \<open>ord\<close> of the unbonding functions, and what is proved holds for every order that visits each bond once.
\<close>

section \<open>Bonding\<close>

datatype 'a bond_error =
    NotAValidator 'a
  | SourceMustNotBeAValidator 'a
  | InactiveValidator 'a
  | BondVotingPowerOverflow try_from_int_error
  | BondZeroAmount

record 'a bond_data =
  bd_bond :: "bond epoched_delta"
  bd_total_deltas :: "token_change epoched_delta"
  bd_voting_power :: "voting_power_delta epoched_delta"
  bd_total_voting_power :: "voting_power_delta epoched_delta"
  bd_validator_set :: "'a validator_set epoched"

definition bond_tokens ::
  "pos_params \<Rightarrow> validator_state epoched option \<Rightarrow> 'a bond_id \<Rightarrow> bond epoched_delta option
     \<Rightarrow> token_amount \<Rightarrow> token_change epoched_delta option \<Rightarrow> voting_power_delta epoched_delta option
     \<Rightarrow> voting_power_delta epoched_delta \<Rightarrow> ('a :: linorder) validator_set epoched \<Rightarrow> epoch
     \<Rightarrow> ('a bond_data, 'a bond_error) outcome" where
  "bond_tokens p state bid current_bond amount total_deltas vp total_vp vsets current_epoch =
     (if amount = 0 then Err BondZeroAmount
      else case state of
        None \<Rightarrow> Err (NotAValidator (bond_validator bid))
      | Some st \<Rightarrow>
          if \<exists>e\<in>set (epoch_iter_range current_epoch (offset_value PipelineLen p)).
               epoched_get st e = Some Inactive
          then Err (InactiveValidator (bond_validator bid))
          else
            (let update_offset = PipelineLen;
                 val = hm_insert (current_epoch + offset_value update_offset p) amount [];
                 new_bond =
                   (case current_bond of
                      None \<Rightarrow> epoched_delta_init PipelineLen val current_epoch p
                    | Some b \<Rightarrow> epoched_delta_add bond_add PipelineLen b val current_epoch p);
                 change = i128_from_u64 amount
             in case update_validator_set p (bond_validator bid) change update_offset vsets
                       total_deltas current_epoch of
                  None \<Rightarrow> Panic
                | Some vsets' \<Rightarrow>
                    (case (case total_deltas of
                             Some td \<Rightarrow> epoched_delta_add_at_offset (+) UnbondingLen td change
                                          current_epoch update_offset p
                           | None \<Rightarrow> Some (epoched_delta_init_at_offset change current_epoch
                                             update_offset p)) of
                       None \<Rightarrow> Panic
                     | Some td' \<Rightarrow>
                         (let vp0 = (case vp of
                                       Some v \<Rightarrow> v
                                     | None \<Rightarrow> epoched_delta_init_at_offset 0 current_epoch
                                                 update_offset p)
                          in outcome_bind
                               (map_err BondVotingPowerOverflow
                                 (update_voting_powers p update_offset td' vp0 total_vp current_epoch))
                               (\<lambda>(vp', total_vp').
                                  Ok \<lparr> bd_bond = new_bond, bd_total_deltas = td',
                                       bd_voting_power = vp', bd_total_voting_power = total_vp',
                                       bd_validator_set = vsets' \<rparr>)))))"

section \<open>Unbonding\<close>

datatype 'a unbond_error =
    NoBondFound
  | UnbondAmountGreaterThanBond token_amount token_amount
  | ValidatorHasNoBonds 'a
  | ValidatorHasNoVotingPower 'a
  | UnbondVotingPowerOverflow try_from_int_error
  | UnbondZeroAmount

text \<open>\<^verbatim>\<open>HashMap::retain\<close> with a closure that has captured mutable state.\<close>

fun hm_retain ::
  "('s \<Rightarrow> 'k \<Rightarrow> 'v \<Rightarrow> 's \<times> 'v \<times> bool) \<Rightarrow> 's \<Rightarrow> ('k \<times> 'v) list \<Rightarrow> 's \<times> ('k \<times> 'v) list" where
  "hm_retain f s [] = (s, [])"
| "hm_retain f s ((k, v) # m) =
     (let (s', v', keep) = f s k v;
          (s'', m') = hm_retain f s' m
      in (s'', if keep then (k, v') # m' else m'))"

text \<open>The variables that the closures of \<^verbatim>\<open>unbond_tokens\<close> capture.\<close>

record unbond_vars =
  uv_to_unbond :: token_amount
  uv_slashed_amount :: token_amount
  uv_unbond :: "unbond epoched_delta"

definition slash_bond_delta :: "slash list \<Rightarrow> epoch \<Rightarrow> token_amount \<Rightarrow> token_amount" where
  "slash_bond_delta slashes epoch_start applied_delta =
     fold (\<lambda>sl slashed_bond_delta.
             if epoch_start \<le> slash_epoch sl
             then slashed_bond_delta - basis_points_mul_u64 (slash_rate sl) slashed_bond_delta
             else slashed_bond_delta) slashes applied_delta"

definition unbond_retain_step ::
  "pos_params \<Rightarrow> slash list \<Rightarrow> epoch \<Rightarrow> unbond_vars \<Rightarrow> epoch \<Rightarrow> token_amount
     \<Rightarrow> unbond_vars \<times> token_amount \<times> bool" where
  "unbond_retain_step p slashes current_epoch s epoch_start bond_delta =
     (if uv_to_unbond s = 0 then (s, bond_delta, True)
      else
        (let unbond_end = current_epoch + offset_value UnbondingLen p - 1;
             applied_delta =
               (if bond_delta < uv_to_unbond s then bond_delta else uv_to_unbond s);
             unbonded = hm_insert (epoch_start, unbond_end) applied_delta [];
             to_unbond' =
               (if bond_delta < uv_to_unbond s then uv_to_unbond s - bond_delta else 0);
             bond_delta' =
               (if bond_delta < uv_to_unbond s then 0 else bond_delta - uv_to_unbond s);
             slashed_bond_delta = slash_bond_delta slashes epoch_start applied_delta
         in (\<lparr> uv_to_unbond = to_unbond',
               uv_slashed_amount = uv_slashed_amount s + slashed_bond_delta,
               uv_unbond = epoched_delta_add unbond_add UnbondingLen (uv_unbond s) unbonded
                             current_epoch p \<rparr>,
             bond_delta', bond_delta' \<noteq> 0)))"

definition unbond_step ::
  "(bond \<Rightarrow> bond) \<Rightarrow> pos_params \<Rightarrow> slash list \<Rightarrow> epoch \<Rightarrow> unbond_vars \<Rightarrow> bond \<Rightarrow> epoch
     \<Rightarrow> unbond_vars \<times> bond \<times> bool" where
  "unbond_step ord p slashes current_epoch s bonds _ =
     (let (s', bonds') = hm_retain (unbond_retain_step p slashes current_epoch) s (ord bonds)
      in (s', bonds', uv_to_unbond s' \<noteq> 0))"

record 'a unbond_data =
  ud_bond :: "bond epoched_delta"
  ud_unbond :: "unbond epoched_delta"
  ud_total_deltas :: "token_change epoched_delta"
  ud_voting_power :: "voting_power_delta epoched_delta"
  ud_total_voting_power :: "voting_power_delta epoched_delta"
  ud_validator_set :: "'a validator_set epoched"

definition unbond_tokens ::
  "(bond \<Rightarrow> bond) \<Rightarrow> pos_params \<Rightarrow> 'a bond_id \<Rightarrow> bond epoched_delta \<Rightarrow> unbond epoched_delta option
     \<Rightarrow> token_amount \<Rightarrow> slash list \<Rightarrow> token_change epoched_delta \<Rightarrow> voting_power_delta epoched_delta
     \<Rightarrow> voting_power_delta epoched_delta \<Rightarrow> ('a :: linorder) validator_set epoched \<Rightarrow> epoch
     \<Rightarrow> ('a unbond_data, 'a unbond_error) outcome" where
  "unbond_tokens ord p bid b u amount slashes total_deltas vp total_vp vsets current_epoch =
     (if amount = 0 then Err UnbondZeroAmount
      else
        (let unbondable_amount =
               bond_sum (case epoched_delta_get_at_offset bond_add b current_epoch PipelineLen p of
                           Some x \<Rightarrow> x | None \<Rightarrow> [])
         in if unbondable_amount < amount
            then Err (UnbondAmountGreaterThanBond amount unbondable_amount)
            else
              (let u0 = (case u of
                           Some x \<Rightarrow> x
                         | None \<Rightarrow> epoched_delta_init UnbondingLen [] current_epoch p);
                   update_offset = UnbondingLen;
                   (s, b') = epoched_delta_rev_update_while bond_add PipelineLen b
                               (unbond_step ord p slashes current_epoch)
                               \<lparr> uv_to_unbond = amount, uv_slashed_amount = 0, uv_unbond = u0 \<rparr>
                               current_epoch p;
                   change = - i128_from_u64 (uv_slashed_amount s)
               in case update_validator_set p (bond_validator bid) change update_offset vsets
                         (Some total_deltas) current_epoch of
                    None \<Rightarrow> Panic
                  | Some vsets' \<Rightarrow>
                      (let td' = epoched_delta_add (+) UnbondingLen total_deltas change current_epoch p
                       in outcome_bind
                            (map_err UnbondVotingPowerOverflow
                              (update_voting_powers p update_offset td' vp total_vp current_epoch))
                            (\<lambda>(vp', total_vp').
                               Ok \<lparr> ud_bond = b', ud_unbond = uv_unbond s, ud_total_deltas = td',
                                    ud_voting_power = vp', ud_total_voting_power = total_vp',
                                    ud_validator_set = vsets' \<rparr>)))))"

section \<open>Withdrawing\<close>

datatype 'a withdraw_error =
    NoUnbondFound "'a bond_id"
  | NoWithdrawableUnbond "'a bond_id"

record withdraw_data =
  wd_unbond :: "unbond epoched_delta"
  wd_withdrawn :: token_amount
  wd_slashed :: token_amount

text \<open>The slashes of one unbonded delta: the amount slashed so far and what is left of the delta.\<close>

definition withdraw_slash ::
  "slash list \<Rightarrow> epoch \<Rightarrow> epoch \<Rightarrow> token_amount \<times> token_amount \<Rightarrow> token_amount \<times> token_amount" where
  "withdraw_slash slashes epoch_start epoch_end =
     fold (\<lambda>sl (slashed, delta).
             if epoch_start \<le> slash_epoch sl \<and> slash_epoch sl \<le> epoch_end
             then (let current_slashed = basis_points_mul_u64 (slash_rate sl) delta
                   in (slashed + current_slashed, delta - current_slashed))
             else (slashed, delta)) slashes"

definition withdraw_fold ::
  "slash list \<Rightarrow> unbond \<Rightarrow> token_amount \<times> token_amount" where
  "withdraw_fold slashes deltas =
     fold (\<lambda>((epoch_start, epoch_end), delta) (slashed, withdrawn).
             let (slashed', delta') = withdraw_slash slashes epoch_start epoch_end (slashed, delta)
             in (slashed', withdrawn + delta')) deltas (0, 0)"

definition withdraw_unbonds ::
  "pos_params \<Rightarrow> 'a bond_id \<Rightarrow> unbond epoched_delta option \<Rightarrow> slash list \<Rightarrow> epoch
     \<Rightarrow> (withdraw_data, 'a withdraw_error) outcome" where
  "withdraw_unbonds p bid u slashes current_epoch =
     outcome_bind (ok_or u (NoUnbondFound bid)) (\<lambda>ub.
       outcome_bind (ok_or (epoched_delta_get unbond_add ub current_epoch) (NoWithdrawableUnbond bid))
         (\<lambda>withdrawable.
            let (slashed, withdrawn) = withdraw_fold slashes withdrawable
            in Ok \<lparr> wd_unbond = epoched_delta_delete_current unbond_add UnbondingLen ub current_epoch p,
                    wd_withdrawn = withdrawn, wd_slashed = slashed \<rparr>))"

section \<open>Unbonding moves the amount from the bond to the unbond\<close>

lemma basis_points_mul_u64_bound:
  assumes "bp \<le> 10000"
  shows "basis_points_mul_u64 bp x \<le> x"
proof -
  have "unat (x * bp) \<le> unat x * unat bp"
    by (simp add: unat_word_ariths)
  also have "\<dots> \<le> unat x * 10000"
    using assms by (simp add: word_le_nat_alt)
  finally have "unat (x * bp) div 10000 \<le> unat x"
    by (simp add: div_le_mono [of _ "unat x * 10000" 10000, simplified])
  then show ?thesis
    by (simp add: basis_points_mul_u64_def word_le_nat_alt unat_div)
qed

lemma slash_bond_delta_le:
  assumes "\<forall>sl\<in>set slashes. slash_rate sl \<le> 10000"
  shows "slash_bond_delta slashes e x \<le> x"
  using assms
proof (induct slashes arbitrary: x)
  case (Cons sl slashes)
  let ?y = "if e \<le> slash_epoch sl then x - basis_points_mul_u64 (slash_rate sl) x else x"
  have "?y \<le> x"
    using basis_points_mul_u64_bound [of "slash_rate sl" x] Cons.prems
    by (simp add: word_sub_le)
  moreover have "slash_bond_delta slashes e ?y \<le> ?y"
    using Cons by simp
  moreover have "slash_bond_delta (sl # slashes) e x = slash_bond_delta slashes e ?y"
    by (simp add: slash_bond_delta_def)
  ultimately show ?case
    by simp
qed (simp add: slash_bond_delta_def)

text \<open>
  The closures take from a bond what they record as unbonded; \<open>unbond_inv\<close> is what the captured
  variables satisfy in between, for the unbond \<open>u0\<close> at the start and the amount to unbond.
\<close>

definition unbond_inv ::
  "pos_params \<Rightarrow> epoch \<Rightarrow> unbond epoched_delta \<Rightarrow> token_amount \<Rightarrow> unbond_vars \<Rightarrow> bool" where
  "unbond_inv p c u0 amount s \<longleftrightarrow>
     delta_at_epoch p c (uv_unbond s) \<and>
     (\<forall>e\<ge>c. delta_total unbond_add unbond_sum (uv_unbond s) e =
        delta_total unbond_add unbond_sum u0 e
          + (if unat c + unat (unbonding_len p) \<le> unat e then amount - uv_to_unbond s else 0)) \<and>
     unat (uv_slashed_amount s) + unat (uv_to_unbond s) \<le> unat amount"

lemma unbond_retain_step_eq:
  assumes "unbond_retain_step p slashes c s k v = (s', v', keep)"
  shows "v' - uv_to_unbond s' = v - uv_to_unbond s"
    and "\<not> keep \<Longrightarrow> v' = 0" "uv_to_unbond s' \<noteq> 0 \<Longrightarrow> \<not> keep \<and> uv_to_unbond s \<noteq> 0"
    and "uv_to_unbond s' \<le> uv_to_unbond s"
  using assms
  by (auto simp: unbond_retain_step_def Let_def word_le_nat_alt word_less_nat_alt unat_sub
      split: if_splits)

lemma unbond_retain_step_inv:
  assumes inv: "unbond_inv p c u0 amount s" and rates: "\<forall>sl\<in>set slashes. slash_rate sl \<le> 10000"
    and step: "unbond_retain_step p slashes c s k v = (s', v', keep)"
  shows "unbond_inv p c u0 amount s'"
proof (cases "uv_to_unbond s = 0")
  case True
  with step inv show ?thesis
    by (auto simp: unbond_retain_step_def)
next
  case False
  define x where "x = (if v < uv_to_unbond s then v else uv_to_unbond s)"
  define ub where "ub = hm_insert (k, c + unbonding_len p - 1) x []"
  have s': "uv_to_unbond s' = uv_to_unbond s - x"
    "uv_slashed_amount s' = uv_slashed_amount s + slash_bond_delta slashes k x"
    "uv_unbond s' = epoched_delta_add unbond_add UnbondingLen (uv_unbond s) ub c p"
    using step False by (auto simp: unbond_retain_step_def Let_def x_def ub_def)
  have x: "unat x \<le> unat (uv_to_unbond s)"
    by (simp add: x_def word_less_nat_alt)
  have u: "epoched_delta_wf UnbondingLen p (uv_unbond s)" "d_last_update (uv_unbond s) \<le> c"
    using inv by (simp_all add: unbond_inv_def delta_at_epoch_def)
  have wf: "delta_at_epoch p c (uv_unbond s')"
    using epoched_delta_wf_add(2) [OF u(1)]
    by (simp add: s' delta_at_epoch_def epoched_delta_add_def Let_def)
  have "unbond_sum ub = x"
    by (simp add: ub_def unbond_sum_def)
  then have total: "delta_total unbond_add unbond_sum (uv_unbond s') e =
      delta_total unbond_add unbond_sum u0 e
        + (if unat c + unat (unbonding_len p) \<le> unat e then amount - uv_to_unbond s' else 0)"
    if "c \<le> e" for e
    using unbond_delta.total_add [OF u that, of ub] inv that by (simp add: s' unbond_inv_def)
  have "unat (slash_bond_delta slashes k x) \<le> unat x"
    using slash_bond_delta_le [OF rates] by (simp add: word_le_nat_alt)
  moreover have "unat (uv_to_unbond s') = unat (uv_to_unbond s) - unat x"
    using x by (simp add: s' unat_sub word_le_nat_alt)
  moreover have "unat (uv_slashed_amount s') \<le> unat (uv_slashed_amount s)
      + unat (slash_bond_delta slashes k x)"
    by (simp add: s' unat_word_ariths)
  ultimately have "unat (uv_slashed_amount s') + unat (uv_to_unbond s') \<le> unat amount"
    using inv x unfolding unbond_inv_def by linarith
  with wf total show ?thesis
    by (simp add: unbond_inv_def)
qed

lemma unbond_retain:
  assumes "hm_retain (unbond_retain_step p slashes c) s m = (s', m')"
  shows "bond_sum m' - uv_to_unbond s' = bond_sum m - uv_to_unbond s"
    and "uv_to_unbond s' \<noteq> 0 \<Longrightarrow> m' = [] \<and> uv_to_unbond s \<noteq> 0"
    and "uv_to_unbond s' \<le> uv_to_unbond s"
    and "\<forall>sl\<in>set slashes. slash_rate sl \<le> 10000 \<Longrightarrow> unbond_inv p c u0 amount s
      \<Longrightarrow> unbond_inv p c u0 amount s'"
proof -
  have "bond_sum m' - uv_to_unbond s' = bond_sum m - uv_to_unbond s \<and>
    (uv_to_unbond s' \<noteq> 0 \<longrightarrow> m' = [] \<and> uv_to_unbond s \<noteq> 0) \<and> uv_to_unbond s' \<le> uv_to_unbond s \<and>
    ((\<forall>sl\<in>set slashes. slash_rate sl \<le> 10000) \<longrightarrow> unbond_inv p c u0 amount s
      \<longrightarrow> unbond_inv p c u0 amount s')"
    using assms
  proof (induct m arbitrary: s m')
    case (Cons kv m)
    obtain k v where kv: "kv = (k, v)" by (cases kv)
    obtain s1 v1 keep where step: "unbond_retain_step p slashes c s k v = (s1, v1, keep)"
      by (cases "unbond_retain_step p slashes c s k v")
    obtain m1 where m1: "hm_retain (unbond_retain_step p slashes c) s1 m = (s', m1)"
      "m' = (if keep then (k, v1) # m1 else m1)"
      using Cons.prems step
      by (cases "hm_retain (unbond_retain_step p slashes c) s1 m") (auto simp: kv)
    note one = unbond_retain_step_eq [OF step] and IH = Cons.hyps [OF m1(1)]
    have "bond_sum m' - uv_to_unbond s' = v1 + (bond_sum m1 - uv_to_unbond s')"
      using one(2) by (auto simp: m1(2))
    also have "\<dots> = (v1 - uv_to_unbond s1) + bond_sum m"
      using IH by simp
    also have "\<dots> = bond_sum (kv # m) - uv_to_unbond s"
      using one(1) by (simp add: kv)
    finally show ?case
      using IH one(3,4) m1(2) unbond_retain_step_inv [OF _ _ step] by (auto intro: order_trans)
  qed simp
  then show "bond_sum m' - uv_to_unbond s' = bond_sum m - uv_to_unbond s"
    "uv_to_unbond s' \<noteq> 0 \<Longrightarrow> m' = [] \<and> uv_to_unbond s \<noteq> 0"
    "uv_to_unbond s' \<le> uv_to_unbond s"
    "\<forall>sl\<in>set slashes. slash_rate sl \<le> 10000 \<Longrightarrow> unbond_inv p c u0 amount s
      \<Longrightarrow> unbond_inv p c u0 amount s'"
    by blast+
qed

lemma unbond_loop:
  assumes ord: "\<And>xs. mset (ord xs) = mset xs"
    and res: "epoched_delta_rev_loop (unbond_step ord p slashes c) c (rev [0 ..< length xs]) s xs = (s', xs')"
    and rates: "\<forall>sl\<in>set slashes. slash_rate sl \<le> 10000" and inv: "unbond_inv p c u0 amount s"
  shows "(\<Sum>x\<leftarrow>xs'. opt_amount bond_sum x) - uv_to_unbond s'
           = (\<Sum>x\<leftarrow>xs. opt_amount bond_sum x) - uv_to_unbond s"
    and "unbond_inv p c u0 amount s'" "length xs' = length xs"
    and "uv_to_unbond s' \<noteq> 0 \<Longrightarrow> (\<Sum>x\<leftarrow>xs'. opt_amount bond_sum x) = 0"
proof -
  have sum_ord: "bond_sum (ord xs) = bond_sum xs" for xs
    using ord [of xs] by (metis bond_sum_sum_list mset_map sum_mset_sum_list)
  have step: "bond_sum d' - uv_to_unbond s' = bond_sum d - uv_to_unbond s"
    "go \<Longrightarrow> d' = []" "go \<longleftrightarrow> uv_to_unbond s' \<noteq> 0"
    "unbond_inv p c u0 amount s \<Longrightarrow> unbond_inv p c u0 amount s'"
    if "unbond_step ord p slashes c s d e = (s', d', go)" for s d e s' d' go
  proof -
    have r: "hm_retain (unbond_retain_step p slashes c) s (ord d) = (s', d')"
      and go: "go \<longleftrightarrow> uv_to_unbond s' \<noteq> 0"
      using that by (auto simp: unbond_step_def split: prod.splits)
    show "go \<longleftrightarrow> uv_to_unbond s' \<noteq> 0" by (rule go)
    show "bond_sum d' - uv_to_unbond s' = bond_sum d - uv_to_unbond s" "go \<Longrightarrow> d' = []"
      "unbond_inv p c u0 amount s \<Longrightarrow> unbond_inv p c u0 amount s'"
      using unbond_retain [OF r] rates go by (simp_all add: sum_ord)
  qed
  have "(\<Sum>x\<leftarrow>xs'. opt_amount bond_sum x) + - uv_to_unbond s'
      = (\<Sum>x\<leftarrow>xs. opt_amount bond_sum x) + - uv_to_unbond s"
    using step(1) by (intro bond_delta.rev_loop_conserves [OF _ res]) simp
  then show "(\<Sum>x\<leftarrow>xs'. opt_amount bond_sum x) - uv_to_unbond s'
      = (\<Sum>x\<leftarrow>xs. opt_amount bond_sum x) - uv_to_unbond s"
    by simp
  show "unbond_inv p c u0 amount s'" and len: "length xs' = length xs"
    using rev_loop_invariant [of "unbond_inv p c u0 amount", OF _ inv res] step(4) by blast+
  show "(\<Sum>x\<leftarrow>xs'. opt_amount bond_sum x) = 0" if "uv_to_unbond s' \<noteq> 0"
  proof -
    have "uv_to_unbond s' = 0 \<or>
        (\<forall>i\<in>set (rev [0 ..< length xs]). i < length xs \<longrightarrow> pred_option (\<lambda>d. d = []) (xs' ! i))"
      using step(2) [of _ _ _ _ _ True] step(3) [of _ _ _ _ _ False]
      by (intro rev_loop_exhausts [OF _ _ res]) (blast, blast, simp)
    then have "xs' ! i = None \<or> xs' ! i = Some []" if "i < length xs'" for i
      using that len \<open>uv_to_unbond s' \<noteq> 0\<close> by (cases "xs' ! i") force+
    then have "\<forall>x\<in>set xs'. opt_amount bond_sum x = 0"
      by (auto simp: in_set_conv_nth) force
    then show ?thesis
      by (induct xs') auto
  qed
qed

text \<open>The bonds read as an amount in an epoch.\<close>

definition bond_at_epoch :: "pos_params \<Rightarrow> epoch \<Rightarrow> bond epoched_delta \<Rightarrow> bool" where
  "bond_at_epoch p c b \<longleftrightarrow> epoched_delta_wf PipelineLen p b \<and> d_last_update b \<le> c"

abbreviation bonded :: "bond epoched_delta \<Rightarrow> epoch \<Rightarrow> token_amount" where
  "bonded \<equiv> delta_total bond_add bond_sum"

abbreviation unbonded :: "unbond epoched_delta \<Rightarrow> epoch \<Rightarrow> token_amount" where
  "unbonded \<equiv> delta_total unbond_add unbond_sum"

lemma unbond_rev_update:
  assumes ord: "\<And>xs. mset (ord xs) = mset xs" and b: "bond_at_epoch p c b"
    and rates: "\<forall>sl\<in>set slashes. slash_rate sl \<le> 10000" and u: "delta_at_epoch p c u0"
    and c: "unat c + unat (pipeline_len p) < 2 ^ 64"
    and amount: "amount \<le> bonded b (c + pipeline_len p)"
    and res: "epoched_delta_rev_update_while bond_add PipelineLen b (unbond_step ord p slashes c)
      \<lparr> uv_to_unbond = amount, uv_slashed_amount = 0, uv_unbond = u0 \<rparr> c p = (s, b')"
    and e: "unat c + unat (pipeline_len p) \<le> unat e"
  shows "bond_at_epoch p c b'" "unbond_inv p c u0 amount s" "uv_to_unbond s = 0"
    and "bonded b' e = bonded b e - amount" "amount \<le> bonded b e"
proof -
  let ?b = "epoched_delta_update_data bond_add PipelineLen b c p"
  let ?s0 = "\<lparr> uv_to_unbond = amount, uv_slashed_amount = 0, uv_unbond = u0 \<rparr>"
  have wf: "epoched_delta_wf PipelineLen p b" "d_last_update b \<le> c"
    using b by (simp_all add: bond_at_epoch_def)
  have len: "length (d_data ?b) = Suc (unat (pipeline_len p))"
    using length_epoched_delta_update_data [OF wf(1)] by simp
  obtain xs' where loop: "epoched_delta_rev_loop (unbond_step ord p slashes c) c
      (rev [0 ..< length (d_data ?b)]) ?s0 (d_data ?b) = (s, xs')"
    and b': "b' = ?b\<lparr> d_data := xs' \<rparr>"
    using res by (auto simp: epoched_delta_rev_update_while_def Let_def len simp del: upt_Suc
        split: prod.splits)
  have inv0: "unbond_inv p c u0 amount ?s0"
    using u by (simp add: unbond_inv_def)
  note L = unbond_loop [OF ord loop rates inv0]
  show inv: "unbond_inv p c u0 amount s" by (rule L)
  show "bond_at_epoch p c b'"
    using L(3) len by (simp add: bond_at_epoch_def epoched_delta_wf_def b')
  have all: "bonded b x = (\<Sum>x\<leftarrow>d_data ?b. opt_amount bond_sum x)"
    if "unat c + unat (pipeline_len p) \<le> unat x" for x
    using bond_delta.total_after_update [OF wf, of x] that len by (simp add: word_le_nat_alt)
  have all': "bonded b' e = (\<Sum>x\<leftarrow>xs'. opt_amount bond_sum x)"
    using e L(3) len by (simp add: bond_delta.total_eq b')
  have "unat (c + pipeline_len p) = unat c + unat (pipeline_len p)"
    using c by (rule unat_add_no_wrap)
  then have le: "amount \<le> (\<Sum>x\<leftarrow>d_data ?b. opt_amount bond_sum x)"
    using amount all [of "c + pipeline_len p"] by simp
  then show "amount \<le> bonded b e"
    by (simp add: all [OF e])
  have sums: "bonded b' e - uv_to_unbond s = bonded b e - amount"
    using L(1) by (simp add: all [OF e] all')
  show "uv_to_unbond s = 0"
  proof (rule ccontr)
    assume "uv_to_unbond s \<noteq> 0"
    then have "bonded b' e = 0" "0 < unat (uv_to_unbond s)"
      using L(4) all' by (simp_all add: unat_gt_0)
    with sums have "bonded b e = amount - uv_to_unbond s"
      by (simp add: algebra_simps)
    moreover have "unat (uv_to_unbond s) \<le> unat amount"
      using inv by (simp add: unbond_inv_def)
    ultimately have "unat (bonded b e) = unat amount - unat (uv_to_unbond s)"
      by (simp add: unat_sub word_le_nat_alt)
    moreover have "unat amount \<le> unat (bonded b e)"
      using le by (simp add: all [OF e] word_le_nat_alt)
    ultimately show False
      using \<open>0 < unat (uv_to_unbond s)\<close> \<open>unat (uv_to_unbond s) \<le> unat amount\<close> by linarith
  qed
  with sums show "bonded b' e = bonded b e - amount"
    by simp
qed

lemma epoched_delta_add_own_offset:
  assumes "epoched_delta_wf off p ed"
  shows "epoched_delta_add_at_offset add off ed v c off p = Some (epoched_delta_add add off ed v c p)"
  using length_epoched_delta_update_data [OF assms, of add c]
  by (simp add: epoched_delta_add_at_offset_def epoched_delta_add_def Let_def)

definition unbonded_before :: "unbond epoched_delta option \<Rightarrow> epoch \<Rightarrow> token_amount" where
  "unbonded_before u e = (case u of None \<Rightarrow> 0 | Some x \<Rightarrow> unbonded x e)"

lemma unbond_start:
  assumes "\<forall>x. u = Some x \<longrightarrow> delta_at_epoch p c x"
  defines "u0 \<equiv> (case u of Some x \<Rightarrow> x | None \<Rightarrow> epoched_delta_init UnbondingLen [] c p)"
  shows "delta_at_epoch p c u0" "unbonded u0 e = unbonded_before u e"
proof -
  have "delta_at_epoch p c (epoched_delta_init UnbondingLen ([] :: unbond) c p)"
    by (simp add: delta_at_epoch_def epoched_delta_init_def epoched_delta_init_at_index_def
        epoched_delta_wf_def)
  then show "delta_at_epoch p c u0"
    using assms(1) by (simp add: u0_def split: option.split)
  show "unbonded u0 e = unbonded_before u e"
    by (simp add: u0_def unbonded_before_def epoched_delta_init_def unbond_sum_def
        unbond_delta.total_init_at_index split: option.split)
qed

text \<open>The successful runs of \<^verbatim>\<open>unbond_tokens\<close>.\<close>

lemma unbond_tokens_OkD:
  assumes "unbond_tokens ord p bid b u amount slashes td vp tot vsets c = Ok ud"
  obtains s where
    "amount \<noteq> 0" "amount \<le> bond_sum (case epoched_delta_get_at_offset bond_add b c PipelineLen p of
       Some x \<Rightarrow> x | None \<Rightarrow> [])"
    "epoched_delta_rev_update_while bond_add PipelineLen b (unbond_step ord p slashes c)
       \<lparr> uv_to_unbond = amount, uv_slashed_amount = 0,
         uv_unbond = (case u of Some x \<Rightarrow> x | None \<Rightarrow> epoched_delta_init UnbondingLen [] c p) \<rparr> c p
       = (s, ud_bond ud)"
    "ud_unbond ud = uv_unbond s"
    "update_validator_set p (bond_validator bid) (- i128_from_u64 (uv_slashed_amount s)) UnbondingLen
       vsets (Some td) c = Some (ud_validator_set ud)"
    "ud_total_deltas ud =
       epoched_delta_add (+) UnbondingLen td (- i128_from_u64 (uv_slashed_amount s)) c p"
    "update_voting_powers p UnbondingLen (ud_total_deltas ud) vp tot c
       = Ok (ud_voting_power ud, ud_total_voting_power ud)"
  using assms
  by (auto simp: unbond_tokens_def Let_def outcome_simps not_less
      split: if_splits prod.splits option.splits)

lemma bonded_at_offset:
  assumes "unat c + unat (pipeline_len p) < 2 ^ 64"
  shows "bond_sum (case epoched_delta_get_at_offset bond_add b c PipelineLen p of
      Some x \<Rightarrow> x | None \<Rightarrow> []) = bonded b (c + pipeline_len p)"
  by (simp add: epoched_delta_get_at_offset_def delta_total_def epoched_delta_get_def opt_amount_def
      split: option.split)



section \<open>Bonding adds the amount\<close>

definition bonded_before :: "bond epoched_delta option \<Rightarrow> epoch \<Rightarrow> token_amount" where
  "bonded_before b e = (case b of None \<Rightarrow> 0 | Some x \<Rightarrow> bonded x e)"

lemma bonded_new:
  assumes "\<forall>x. b = Some x \<longrightarrow> bond_at_epoch p c x" "c \<le> e"
  shows "bonded (case b of
      None \<Rightarrow> epoched_delta_init PipelineLen val c p
    | Some x \<Rightarrow> epoched_delta_add bond_add PipelineLen x val c p) e =
    bonded_before b e + (if unat c + unat (pipeline_len p) \<le> unat e then bond_sum val else 0)"
proof (cases b)
  case None
  have "unat c \<le> unat e"
    using assms(2) by (simp add: word_le_nat_alt)
  with None show ?thesis
    by (auto simp: bonded_before_def epoched_delta_init_def bond_delta.total_init_at_index)
next
  case (Some x)
  with assms bond_delta.total_add [of PipelineLen p x c e val] show ?thesis
    by (simp add: bonded_before_def bond_at_epoch_def)
qed

text \<open>The successful runs of \<^verbatim>\<open>bond_tokens\<close> for a validator that has its data.\<close>

lemma bond_tokens_OkD:
  assumes "bond_tokens p state bid b amount (Some td) (Some vp) tot vsets c = Ok bd"
  shows "bd_bond bd = (case b of
      None \<Rightarrow> epoched_delta_init PipelineLen [(c + pipeline_len p, amount)] c p
    | Some x \<Rightarrow> epoched_delta_add bond_add PipelineLen x [(c + pipeline_len p, amount)] c p)"
    and "update_validator_set p (bond_validator bid) (i128_from_u64 amount) PipelineLen vsets
      (Some td) c = Some (bd_validator_set bd)"
    and "epoched_delta_add_at_offset (+) UnbondingLen td (i128_from_u64 amount) c PipelineLen p
      = Some (bd_total_deltas bd)"
    and "update_voting_powers p PipelineLen (bd_total_deltas bd) vp tot c
      = Ok (bd_voting_power bd, bd_total_voting_power bd)"
    and "state \<noteq> None"
  using assms
  by (auto simp: bond_tokens_def Let_def outcome_simps split: if_splits option.splits)

lemma bond_at_epoch_new:
  assumes "\<forall>x. b = Some x \<longrightarrow> bond_at_epoch p c x"
  shows "bond_at_epoch p c (case b of
      None \<Rightarrow> epoched_delta_init PipelineLen val c p
    | Some x \<Rightarrow> epoched_delta_add bond_add PipelineLen x val c p)"
  using assms epoched_delta_wf_add(2) [of PipelineLen p _ bond_add val c]
  by (auto simp: bond_at_epoch_def epoched_delta_wf_ops split: option.split)
    (simp_all add: epoched_delta_init_def epoched_delta_init_at_index_def epoched_delta_add_def Let_def)

text \<open>
  Claim C3. Bonding adds the amount: a successful run for a validator whose data are tied together
  adds exactly the amount to the bond and to the validator's stake from the pipeline offset on, and to
  nothing before; the validator sets, the voting power and the total voting power follow.
\<close>

theorem bond_tokens_correct:
  assumes "\<forall>x. b = Some x \<longrightarrow> bond_at_epoch p c x"
    and "sets_at_epoch p c vsets" "validator_ok p c s vsets (bond_validator bid) td vp"
    and "delta_at_epoch p c tot" "unat c + unat (unbonding_len p) + 1 < 2 ^ 64"
    and "bond_tokens p state bid b amount (Some td) (Some vp) tot vsets c = Ok bd" and "c \<le> e"
  shows "bonded (bd_bond bd) e = bonded_before b e
      + (if unat c + unat (pipeline_len p) \<le> unat e then amount else 0) \<and>
    tokens_at (Some (bd_total_deltas bd)) e = tokens_at (Some td) e
      + (if unat c + unat (pipeline_len p) \<le> unat e then i128_from_u64 amount else 0) \<and>
    sets_at_epoch p c (bd_validator_set bd) \<and>
    validator_ok p c s (bd_validator_set bd) (bond_validator bid) (bd_total_deltas bd) (bd_voting_power bd) \<and>
    voting_power_at (bd_total_voting_power bd) e - voting_power_at tot e =
      voting_power_at (bd_voting_power bd) e - voting_power_at vp e"
proof -
  note res = bond_tokens_OkD [OF assms(6)]
  note change = stake_change_ok [OF assms(2-5) res(2-4)]
  have "voting_power_at (bd_total_voting_power bd) e - voting_power_at tot e =
      voting_power_at (bd_voting_power bd) e - voting_power_at vp e"
    using change(6) [OF assms(7)] by (simp add: algebra_simps)
  with change(1,2) change(5) [OF assms(7)] bonded_new [OF assms(1,7)] show ?thesis
    by (simp add: res(1))
qed

theorem bond_tokens_correct_witness:
  "\<exists>bd. bond_tokens pos_params_default (Some (epoched_init_at_genesis Candidate 3))
       \<lparr> bond_source = 1, bond_validator = (1 :: int) \<rparr>
       (Some (epoched_delta_init_at_genesis [(3, 20000000000)] 3)) 5000000000
       (Some (epoched_delta_init_at_genesis 20000000000 3)) (Some (epoched_delta_init_at_genesis 20 3))
       (epoched_delta_init_at_genesis 20 3)
       (epoched_init_at_genesis \<lparr> active = {WeightedValidator 20 1}, inactive = {} \<rparr> 3) 5 = Ok bd \<and>
     bonded (bd_bond bd) 6 = 20000000000 \<and> bonded (bd_bond bd) 7 = 25000000000"
proof -
  let ?p = pos_params_default and ?bid = "\<lparr> bond_source = 1, bond_validator = (1 :: int) \<rparr>"
  let ?st = "Some (epoched_init_at_genesis Candidate 3)"
  let ?vsets = "epoched_init_at_genesis \<lparr> active = {WeightedValidator 20 (1 :: int)}, inactive = {} \<rparr> 3"
  let ?td = "epoched_delta_init_at_genesis (20000000000 :: i128) 3"
  let ?vp = "epoched_delta_init_at_genesis (20 :: i64) 3"
  let ?b = "epoched_delta_init_at_genesis [(3 :: epoch, 20000000000 :: u64)] 3"
  have sets: "sets_at_epoch ?p 5 ?vsets"
    by (simp add: sets_at_epoch_def epoched_wf_ops pos_params_default_def validator_sets_ok_def
        validator_set_ok_def)
  have conv: "u64_try_from_i128 20000000000 = Some 20000000000"
    by (simp add: u64_try_from_i128_def)
  have ok: "validator_ok ?p 5 5 ?vsets (bond_validator ?bid) ?td ?vp"
    by (rule genesis_validator_data_ok [OF _ conv])
      (simp_all add: voting_power_delta_try_from_tokens_def i64_try_from_u64_def members_def
        basis_points_mul_u64_def voting_power_from_tokens_def pos_params_default_def)
  have b: "\<forall>x. Some ?b = Some x \<longrightarrow> bond_at_epoch ?p 5 x"
    by (simp add: bond_at_epoch_def epoched_delta_wf_ops)
  have tot: "delta_at_epoch ?p 5 ?vp"
    using ok by (simp add: validator_ok_def)
  have "case bond_tokens ?p ?st ?bid (Some ?b) 5000000000 (Some ?td) (Some ?vp) ?vp ?vsets 5 of
      Ok bd \<Rightarrow> True | _ \<Rightarrow> False"
    by code_simp
  then obtain bd where bd:
    "bond_tokens ?p ?st ?bid (Some ?b) 5000000000 (Some ?td) (Some ?vp) ?vp ?vsets 5 = Ok bd"
    by (auto split: outcome.splits)
  have "bonded ?b e = 20000000000" for e
    by (simp add: delta_total_def)
  moreover have "unat (5 :: epoch) + unat (unbonding_len ?p) + 1 < 2 ^ 64"
    "\<not> unat (5 :: epoch) + unat (pipeline_len ?p) \<le> unat (6 :: epoch)"
    "unat (5 :: epoch) + unat (pipeline_len ?p) \<le> unat (7 :: epoch)"
    by (simp_all add: pos_params_default_def)
  ultimately show ?thesis
    using bond_tokens_correct [OF b sets ok tot _ bd, of 6]
      bond_tokens_correct [OF b sets ok tot _ bd, of 7] bd
    by (simp add: bonded_before_def)
qed

text \<open>
  Claim C22. Who may bond: no tokens, an address that is not a validator and a validator that is
  inactive in an epoch from the current one up to, but not including, the pipeline offset are each
  refused with their own error, before anything is computed.
\<close>

theorem bond_tokens_guards:
  "bond_tokens p state bid b 0 td vp tot vsets c = Err BondZeroAmount \<and>
   (amount = 0 \<or>
      bond_tokens p None bid b amount td vp tot vsets c = Err (NotAValidator (bond_validator bid))) \<and>
   (amount = 0 \<or>
      (if \<exists>e. c \<le> e \<and> unat e < unat (c + pipeline_len p) \<and> epoched_get st e = Some Inactive
       then bond_tokens p (Some st) bid b amount td vp tot vsets c
              = Err (InactiveValidator (bond_validator bid))
       else bond_tokens p (Some st) bid b amount td vp tot vsets c
              \<noteq> Err (InactiveValidator (bond_validator bid))))"
proof -
  have "unat (of_nat x :: epoch) = x" if "x < unat (c + pipeline_len p)" for x
    using order.strict_trans [OF that unat_u64_bound] by (intro unat_of_nat_u64) simp
  then have "e \<in> set (epoch_iter_range c (pipeline_len p)) \<longleftrightarrow>
      c \<le> e \<and> unat e < unat (c + pipeline_len p)" for e
    by (auto simp: epoch_iter_range_def Let_def word_le_nat_alt image_iff intro!: bexI [of _ "unat e"])
  moreover have "map_err BondVotingPowerOverflow x \<noteq> Err (InactiveValidator a)" for x and a :: 'a
    by (cases x) simp_all
  ultimately show ?thesis
    by (auto simp: bond_tokens_def Let_def outcome_simps split: if_splits option.splits)
qed

section \<open>Withdrawing splits what is withdrawable\<close>

lemma withdraw_slash_split:
  assumes "\<forall>sl\<in>set slashes. slash_rate sl \<le> 10000"
    and "withdraw_slash slashes es ee (slashed, delta) = (slashed', delta')"
    and "unat slashed + unat delta < 2 ^ 64"
  shows "unat slashed' + unat delta' = unat slashed + unat delta"
  using assms
proof (induct slashes arbitrary: slashed delta)
  case (Cons sl slashes)
  let ?x = "basis_points_mul_u64 (slash_rate sl) delta"
  have rates: "\<forall>sl\<in>set slashes. slash_rate sl \<le> 10000" and x: "?x \<le> delta"
    using Cons.prems(1) by (auto intro: basis_points_mul_u64_bound)
  show ?case
  proof (cases "es \<le> slash_epoch sl \<and> slash_epoch sl \<le> ee")
    case True
    have "unat ?x \<le> unat delta"
      using x by (simp add: word_le_nat_alt)
    then have "unat (slashed + ?x) = unat slashed + unat ?x" "unat (delta - ?x) = unat delta - unat ?x"
      using Cons.prems(3) x by (simp_all add: unat_add_no_wrap unat_sub)
    with Cons.hyps [OF rates, of "slashed + ?x" "delta - ?x"] Cons.prems True \<open>unat ?x \<le> unat delta\<close>
    show ?thesis by (simp add: withdraw_slash_def Let_def)
  next
    case False
    with Cons.hyps [OF rates, of slashed delta] Cons.prems show ?thesis
      by (simp add: withdraw_slash_def)
  qed
qed (simp add: withdraw_slash_def)

lemma withdraw_fold_split:
  assumes "\<forall>sl\<in>set slashes. slash_rate sl \<le> 10000" "(\<Sum>(k, v)\<leftarrow>deltas. unat v) < 2 ^ 64"
    and "withdraw_fold slashes deltas = (slashed, withdrawn)"
  shows "unat slashed + unat withdrawn = (\<Sum>(k, v)\<leftarrow>deltas. unat v)"
proof -
  let ?f = "\<lambda>((es, ee), delta) (slashed, withdrawn).
    let (slashed', delta') = withdraw_slash slashes es ee (slashed, delta) in (slashed', withdrawn + delta')"
  have "unat s' + unat w' = unat s + unat w + (\<Sum>(k, v)\<leftarrow>deltas. unat v)"
    if "fold ?f deltas (s, w) = (s', w')" "unat s + unat w + (\<Sum>(k, v)\<leftarrow>deltas. unat v) < 2 ^ 64"
    for s w s' w'
    using that
  proof (induct deltas arbitrary: s w)
    case (Cons kv deltas)
    obtain es ee v where kv: "kv = ((es, ee), v)" by (metis prod.collapse)
    obtain s1 v1 where step: "withdraw_slash slashes es ee (s, v) = (s1, v1)"
      by (cases "withdraw_slash slashes es ee (s, v)")
    have one: "unat s1 + unat v1 = unat s + unat v"
      using Cons.prems(2) by (intro withdraw_slash_split [OF assms(1) step]) (simp add: kv)
    then have "unat (w + v1) = unat w + unat v1"
      using Cons.prems(2) by (intro unat_add_no_wrap) (simp add: kv)
    with Cons.hyps [of s1 "w + v1"] Cons.prems one show ?case
      by (simp add: kv step)
  qed simp
  from this [of 0 0] assms(2,3) show ?thesis
    by (simp add: withdraw_fold_def)
qed

text \<open>
  What the slashes leave of an unbonded amount, in unbounded numbers: each slash in an epoch from the start to
  the end of the unbonding takes its rate's share of what the slashes before it have left.
\<close>

fun after_slashes :: "slash list \<Rightarrow> epoch \<times> epoch \<Rightarrow> nat \<Rightarrow> nat" where
  "after_slashes [] k v = v"
| "after_slashes (sl # slashes) k v =
     after_slashes slashes k
       (if fst k \<le> slash_epoch sl \<and> slash_epoch sl \<le> snd k then v - v * unat (slash_rate sl) div 10000 else v)"

lemma basis_points_mul_exact:
  assumes "unat v * 10000 < 2 ^ 64" "bp \<le> 10000"
  shows "unat (basis_points_mul_u64 bp v) = unat v * unat bp div 10000"
proof (rule unat_basis_points_mul_u64)
  have "unat v * unat bp \<le> unat v * 10000" using assms(2) by (simp add: word_le_nat_alt)
  then show "unat v * unat bp < 2 ^ 64" using assms(1) by (rule order.strict_trans1)
qed

lemma withdraw_slash_after_slashes:
  assumes "\<forall>sl\<in>set slashes. slash_rate sl \<le> 10000"
    and "withdraw_slash slashes es ee (slashed, delta) = (slashed', delta')" "unat delta * 10000 < 2 ^ 64"
  shows "unat delta' = after_slashes slashes (es, ee) (unat delta)"
  using assms
proof (induct slashes arbitrary: slashed delta)
  case (Cons sl slashes)
  let ?x = "basis_points_mul_u64 (slash_rate sl) delta"
  have rates: "\<forall>sl\<in>set slashes. slash_rate sl \<le> 10000" and x: "?x \<le> delta"
    using Cons.prems(1) by (auto intro: basis_points_mul_u64_bound)
  have step: "unat (delta - ?x) = unat delta - unat delta * unat (slash_rate sl) div 10000"
    using x basis_points_mul_exact [OF Cons.prems(3)] Cons.prems(1) by (simp add: unat_sub)
  have le: "unat (delta - ?x) * 10000 < 2 ^ 64"
    using Cons.prems(3) by (simp add: step)
  show ?case
    using Cons.hyps [OF rates _ le, of "slashed + ?x"] Cons.hyps [OF rates _ Cons.prems(3), of slashed] Cons.prems(2)
    by (auto simp: withdraw_slash_def Let_def step split: if_splits)
qed (simp add: withdraw_slash_def)

lemma withdraw_fold_after_slashes:
  assumes "\<forall>sl\<in>set slashes. slash_rate sl \<le> 10000" "(\<Sum>(k, v)\<leftarrow>deltas. unat v) * 10000 < 2 ^ 64"
    and "withdraw_fold slashes deltas = (slashed, withdrawn)"
  shows "unat withdrawn = (\<Sum>(k, v)\<leftarrow>deltas. after_slashes slashes k (unat v))"
proof -
  let ?f = "\<lambda>((es, ee), delta) (slashed, withdrawn).
    let (slashed', delta') = withdraw_slash slashes es ee (slashed, delta) in (slashed', withdrawn + delta')"
  have after_slashes_le: "after_slashes slashes k v \<le> v" for k v
  proof (induct slashes k v rule: after_slashes.induct)
    case (2 sl slashes k v)
    then show ?case by (auto intro: order_trans)
  qed simp
  have "unat w' = unat w + (\<Sum>(k, v)\<leftarrow>deltas. after_slashes slashes k (unat v))"
    if "fold ?f deltas (s, w) = (s', w')" "unat w + (\<Sum>(k, v)\<leftarrow>deltas. unat v) < 2 ^ 64"
      "\<forall>(k, v)\<in>set deltas. unat v * 10000 < 2 ^ 64" for s w s' w'
    using that
  proof (induct deltas arbitrary: s w)
    case (Cons kv deltas)
    obtain es ee v where kv: "kv = ((es, ee), v)" by (metis prod.collapse)
    obtain s1 v1 where step: "withdraw_slash slashes es ee (s, v) = (s1, v1)"
      by (cases "withdraw_slash slashes es ee (s, v)")
    have v1: "unat v1 = after_slashes slashes (es, ee) (unat v)"
      using Cons.prems(3) by (intro withdraw_slash_after_slashes [OF assms(1) step]) (simp add: kv)
    then have w: "unat (w + v1) = unat w + unat v1"
      using Cons.prems(2) after_slashes_le [of "(es, ee)" "unat v"] by (intro unat_add_no_wrap) (simp add: kv)
    with Cons.hyps [of s1 "w + v1"] Cons.prems after_slashes_le [of "(es, ee)" "unat v"] v1 show ?case
      by (simp add: kv step)
  qed simp
  moreover have "\<forall>(k, v)\<in>set deltas. unat v * 10000 < 2 ^ 64"
    using assms(2) member_le_sum_list [of _ "map (\<lambda>(k, v). unat v) deltas"] by fastforce
  ultimately show ?thesis
    using assms(2,3) by (auto simp: withdraw_fold_def)
qed

lemma delta_at_epoch_delete_current:
  assumes "delta_at_epoch p c u"
  shows "delta_at_epoch p c (epoched_delta_delete_current unbond_add UnbondingLen u c p)"
  using assms epoched_delta_wf_add(3) [of UnbondingLen p u unbond_add c]
  by (simp add: delta_at_epoch_def) (simp add: epoched_delta_delete_current_def Let_def)

text \<open>
  Claim C14. Withdrawing splits exactly what has become withdrawable: the withdrawn and the slashed
  amount add up to the unbonded deltas of the current epoch. The withdrawn amount is what the slashes leave
  of every delta, each slash in an epoch between the start and the end of the delta taking its rate's share
  of what is left, as long as the products of amounts and basis points do not wrap around. Afterwards
  these deltas are out of the unbond in every epoch, so nothing can be withdrawn twice.
\<close>

theorem withdraw_unbonds_correct:
  assumes "\<forall>sl\<in>set slashes. slash_rate sl \<le> 10000" "delta_at_epoch p c u" "c \<le> e"
    and "epoched_delta_get unbond_add u c = Some deltas" "(\<Sum>(k, v)\<leftarrow>deltas. unat v) < 2 ^ 64"
    and "withdraw_unbonds p bid (Some u) slashes c = Ok wd"
  shows "unat (wd_withdrawn wd) + unat (wd_slashed wd) = (\<Sum>(k, v)\<leftarrow>deltas. unat v) \<and>
    ((\<Sum>(k, v)\<leftarrow>deltas. unat v) * 10000 < 2 ^ 64 \<longrightarrow>
       unat (wd_withdrawn wd) = (\<Sum>(k, v)\<leftarrow>deltas. after_slashes slashes k (unat v))) \<and>
    unbonded (wd_unbond wd) e + unbonded u c = unbonded u e \<and> unbonded (wd_unbond wd) c = 0 \<and>
    delta_at_epoch p c (wd_unbond wd)"
proof -
  have u: "epoched_delta_wf UnbondingLen p u" "d_last_update u \<le> c"
    using assms(2) by (simp_all add: delta_at_epoch_def)
  have wd: "wd_unbond wd = epoched_delta_delete_current unbond_add UnbondingLen u c p"
    "withdraw_fold slashes deltas = (wd_slashed wd, wd_withdrawn wd)"
    using assms(6) by (auto simp: withdraw_unbonds_def ok_or_def assms(4) split: prod.splits)
  have "unbonded (wd_unbond wd) c + unbonded u c = unbonded u c"
    using unbond_delta.total_delete_current [OF u order_refl] by (simp add: wd(1))
  then have "unbonded (wd_unbond wd) c = 0"
    by simp
  moreover have "delta_at_epoch p c (wd_unbond wd)"
    unfolding wd(1) by (rule delta_at_epoch_delete_current [OF assms(2)])
  ultimately show ?thesis
    using withdraw_fold_split [OF assms(1,5) wd(2)] withdraw_fold_after_slashes [OF assms(1) _ wd(2)]
      unbond_delta.total_delete_current [OF u assms(3)]
    by (simp add: wd(1))
qed

theorem withdraw_unbonds_correct_witness:
  "\<exists>wd. withdraw_unbonds pos_params_default \<lparr> bond_source = 1, bond_validator = (1 :: int) \<rparr>
       (Some (epoched_delta_init_at_genesis [((3, 8), 5000000000)] 3))
       [\<lparr> slash_epoch = 4, slash_block_height = 10, slash_kind = DuplicateVote, slash_rate = 500 \<rparr>] 9
       = Ok wd \<and>
     unat (wd_withdrawn wd) = 4750000000 \<and> unat (wd_slashed wd) = 250000000 \<and> unbonded (wd_unbond wd) 9 = 0"
proof -
  let ?u = "epoched_delta_init_at_genesis [((3 :: epoch, 8 :: epoch), 5000000000 :: u64)] 3"
  let ?bid = "\<lparr> bond_source = 1, bond_validator = (1 :: int) \<rparr>"
  let ?sl = "[\<lparr> slash_epoch = 4, slash_block_height = 10, slash_kind = DuplicateVote, slash_rate = 500 \<rparr>]"
  have u: "delta_at_epoch pos_params_default 9 ?u"
    by (simp add: delta_at_epoch_def epoched_delta_wf_ops)
  obtain wd where wd: "withdraw_unbonds pos_params_default ?bid (Some ?u) ?sl 9 = Ok wd"
    by (cases "withdraw_fold ?sl [((3, 8), 5000000000)]") (simp add: withdraw_unbonds_def ok_or_def)
  then show ?thesis
    using withdraw_unbonds_correct [OF _ u _ _ _ wd, of 9] by simp
qed

end
