(* ===== verification/Pos_System.thy ===== *)
theory Pos_System
  imports Pos_Bonds
begin

text \<open>
  The proof-of-stake system as a whole: the storage that the traits \<^verbatim>\<open>PosReadOnly\<close>, \<^verbatim>\<open>PosActions\<close> and
  \<^verbatim>\<open>PosBase\<close> of \<^verbatim>\<open>proof_of_stake/src/lib.rs\<close> read and write, as a record, and the provided methods of the
  traits: becoming a validator, bonding, unbonding, withdrawing, genesis, the validator set update and
  slashing. The required methods that belong to the integration (token transfers, raw hashes of
  addresses and the constant addresses) are the record \<open>pos_env\<close>; a panic in them is \<^const>\<open>None\<close>.
\<close>

section \<open>State\<close>

record ('a, 'b) pos_env =
  pe_pos_address :: 'a
  pe_slash_pool :: 'a
  pe_staking_token :: 'a
  pe_raw_hash :: "'a \<Rightarrow> string option"
  pe_transfer :: "'a \<Rightarrow> token_amount \<Rightarrow> 'a \<Rightarrow> 'a \<Rightarrow> 'b \<Rightarrow> 'b option"
  pe_credit :: "'a \<Rightarrow> 'a \<Rightarrow> token_amount \<Rightarrow> 'b \<Rightarrow> 'b option"

record ('a, 'k, 'b) pos_state =
  ps_params :: pos_params
  ps_raw_hash :: "string \<rightharpoonup> 'a"
  ps_reward_address :: "'a \<rightharpoonup> 'a"
  ps_consensus_key :: "'a \<rightharpoonup> 'k epoched"
  ps_state :: "'a \<rightharpoonup> validator_state epoched"
  ps_total_deltas :: "'a \<rightharpoonup> token_change epoched_delta"
  ps_voting_power :: "'a \<rightharpoonup> voting_power_delta epoched_delta"
  ps_slashes :: "'a \<Rightarrow> slash list"
  ps_bonds :: "'a bond_id \<rightharpoonup> bond epoched_delta"
  ps_unbonds :: "'a bond_id \<rightharpoonup> unbond epoched_delta"
  ps_validator_set :: "'a validator_set epoched"
  ps_total_voting_power :: "voting_power_delta epoched_delta"
  ps_reward_keys :: "'a \<rightharpoonup> 'k"
  ps_ledger :: 'b

definition is_validator :: "('a, 'k, 'b) pos_state \<Rightarrow> 'a \<Rightarrow> bool" where
  "is_validator ps addr = (ps_state ps addr \<noteq> None)"

section \<open>Actions of transactions\<close>

datatype 'a become_validator_error =
    AlreadyValidator 'a
  | StakingRewardAddressEqValidatorAddress 'a

definition pos_become_validator ::
  "('a, 'b) pos_env \<Rightarrow> ('a :: linorder, 'k, 'b) pos_state \<Rightarrow> 'a \<Rightarrow> 'a \<Rightarrow> 'k \<Rightarrow> epoch
     \<Rightarrow> (('a, 'k, 'b) pos_state, 'a become_validator_error) outcome" where
  "pos_become_validator env ps addr reward_address consensus_key current_epoch =
     (if is_validator ps addr then Err (AlreadyValidator addr)
      else if addr = reward_address then Err (StakingRewardAddressEqValidatorAddress addr)
      else case become_validator (ps_params ps) addr consensus_key (ps_validator_set ps) current_epoch of
        None \<Rightarrow> Panic
      | Some bv \<Rightarrow>
          (case pe_raw_hash env addr of
             None \<Rightarrow> Panic
           | Some raw_hash \<Rightarrow>
               Ok (ps\<lparr> ps_reward_address := (ps_reward_address ps)(addr \<mapsto> reward_address),
                       ps_consensus_key := (ps_consensus_key ps)(addr \<mapsto> bv_consensus_key bv),
                       ps_state := (ps_state ps)(addr \<mapsto> bv_state bv),
                       ps_validator_set := bv_validator_set bv,
                       ps_raw_hash := (ps_raw_hash ps)(raw_hash \<mapsto> addr),
                       ps_total_deltas := (ps_total_deltas ps)(addr \<mapsto> bv_total_deltas bv),
                       ps_voting_power := (ps_voting_power ps)(addr \<mapsto> bv_voting_power bv) \<rparr>)))"

definition pos_bond_tokens ::
  "('a, 'b) pos_env \<Rightarrow> ('a :: linorder, 'k, 'b) pos_state \<Rightarrow> 'a option \<Rightarrow> 'a \<Rightarrow> token_amount \<Rightarrow> epoch
     \<Rightarrow> (('a, 'k, 'b) pos_state, 'a bond_error) outcome" where
  "pos_bond_tokens env ps src validator amount current_epoch =
     (if (case src of Some s \<Rightarrow> s \<noteq> validator \<and> is_validator ps s | None \<Rightarrow> False)
      then Err (SourceMustNotBeAValidator (the src))
      else
        (let s = (case src of Some s \<Rightarrow> s | None \<Rightarrow> validator);
             bid = \<lparr> bond_source = s, bond_validator = validator \<rparr>
         in outcome_bind
              (bond_tokens (ps_params ps) (ps_state ps validator) bid (ps_bonds ps bid) amount
                 (ps_total_deltas ps validator) (ps_voting_power ps validator)
                 (ps_total_voting_power ps) (ps_validator_set ps) current_epoch)
              (\<lambda>bd.
                 outcome_bind
                   (unwrap (pe_transfer env (pe_staking_token env) amount s (pe_pos_address env)
                              (ps_ledger ps)))
                   (\<lambda>ledger.
                      Ok (ps\<lparr> ps_bonds := (ps_bonds ps)(bid \<mapsto> bd_bond bd),
                              ps_total_deltas :=
                                (ps_total_deltas ps)(validator \<mapsto> bd_total_deltas bd),
                              ps_voting_power :=
                                (ps_voting_power ps)(validator \<mapsto> bd_voting_power bd),
                              ps_total_voting_power := bd_total_voting_power bd,
                              ps_validator_set := bd_validator_set bd,
                              ps_ledger := ledger \<rparr>)))))"

definition pos_unbond_tokens ::
  "(bond \<Rightarrow> bond) \<Rightarrow> ('a :: linorder, 'k, 'b) pos_state \<Rightarrow> 'a option \<Rightarrow> 'a \<Rightarrow> token_amount \<Rightarrow> epoch
     \<Rightarrow> (('a, 'k, 'b) pos_state, 'a unbond_error) outcome" where
  "pos_unbond_tokens ord ps src validator amount current_epoch =
     (let p = ps_params ps;
          s = (case src of Some s \<Rightarrow> s | None \<Rightarrow> validator);
          bid = \<lparr> bond_source = s, bond_validator = validator \<rparr>
      in outcome_bind (ok_or (ps_bonds ps bid) NoBondFound) (\<lambda>b.
         outcome_bind (ok_or (ps_total_deltas ps validator) (ValidatorHasNoBonds validator)) (\<lambda>td.
         outcome_bind (ok_or (ps_voting_power ps validator) (ValidatorHasNoVotingPower validator)) (\<lambda>vp.
         outcome_bind
           (unbond_tokens ord p bid b (ps_unbonds ps bid) amount (ps_slashes ps validator) td vp
              (ps_total_voting_power ps) (ps_validator_set ps) current_epoch)
           (\<lambda>ud.
              let bonds =
                    (case epoched_delta_get_at_offset bond_add (ud_bond ud) current_epoch PipelineLen p of
                       Some total_bonds \<Rightarrow>
                         if bond_sum total_bonds \<noteq> 0 then (ps_bonds ps)(bid \<mapsto> ud_bond ud)
                         else (ps_bonds ps)(bid := None)
                     | None \<Rightarrow> (ps_bonds ps)(bid := None))
              in Ok (ps\<lparr> ps_bonds := bonds,
                         ps_unbonds := (ps_unbonds ps)(bid \<mapsto> ud_unbond ud),
                         ps_total_deltas := (ps_total_deltas ps)(validator \<mapsto> ud_total_deltas ud),
                         ps_voting_power := (ps_voting_power ps)(validator \<mapsto> ud_voting_power ud),
                         ps_total_voting_power := ud_total_voting_power ud,
                         ps_validator_set := ud_validator_set ud \<rparr>))))))"

definition pos_withdraw_tokens ::
  "('a, 'b) pos_env \<Rightarrow> ('a, 'k, 'b) pos_state \<Rightarrow> 'a option \<Rightarrow> 'a \<Rightarrow> epoch
     \<Rightarrow> (('a, 'k, 'b) pos_state \<times> token_amount, 'a withdraw_error) outcome" where
  "pos_withdraw_tokens env ps src validator current_epoch =
     (let p = ps_params ps;
          s = (case src of Some s \<Rightarrow> s | None \<Rightarrow> validator);
          bid = \<lparr> bond_source = s, bond_validator = validator \<rparr>
      in outcome_bind
           (withdraw_unbonds p bid (ps_unbonds ps bid) (ps_slashes ps validator) current_epoch)
           (\<lambda>wd.
              let unbonds =
                    (case epoched_delta_get_at_offset unbond_add (wd_unbond wd) current_epoch
                            UnbondingLen p of
                       Some total_unbonds \<Rightarrow>
                         if unbond_sum total_unbonds \<noteq> 0 then (ps_unbonds ps)(bid \<mapsto> wd_unbond wd)
                         else (ps_unbonds ps)(bid := None)
                     | None \<Rightarrow> (ps_unbonds ps)(bid := None))
              in outcome_bind
                   (unwrap (pe_transfer env (pe_staking_token env) (wd_withdrawn wd)
                              (pe_pos_address env) s (ps_ledger ps)))
                   (\<lambda>ledger. Ok (ps\<lparr> ps_unbonds := unbonds, ps_ledger := ledger \<rparr>,
                                 wd_slashed wd))))"

section \<open>Genesis\<close>

datatype genesis_error = GenesisVotingPowerOverflow try_from_int_error

text \<open>The loop that accumulates the validators, the total voting power and the bonded balance.\<close>

fun genesis_accumulate ::
  "pos_params \<Rightarrow> ('a :: linorder, 'k) genesis_validator list
     \<Rightarrow> 'a weighted_validator set \<times> voting_power_delta \<times> token_amount
     \<Rightarrow> ('a weighted_validator set \<times> voting_power_delta \<times> token_amount, genesis_error) outcome" where
  "genesis_accumulate p [] acc = Ok acc"
| "genesis_accumulate p (gv # gvs) (act, total_vp, balance) =
     outcome_bind
       (ok_or (voting_power_delta_try_from_tokens (gv_tokens gv) p)
          (GenesisVotingPowerOverflow TryFromIntError))
       (\<lambda>delta. genesis_accumulate p gvs
          (insert (WeightedValidator (voting_power_from_tokens (gv_tokens gv) p) (gv_address gv)) act,
           total_vp + delta, balance + gv_tokens gv))"

text \<open>The data of one genesis validator.\<close>

record ('a, 'k) genesis_validator_data =
  gd_address :: 'a
  gd_staking_reward_address :: 'a
  gd_consensus_key :: "'k epoched"
  gd_staking_reward_key :: 'k
  gd_state :: "validator_state epoched"
  gd_total_deltas :: "token_change epoched_delta"
  gd_voting_power :: "voting_power_delta epoched_delta"
  gd_bond_id :: "'a bond_id"
  gd_bond :: "bond epoched_delta"

definition genesis_validator_data ::
  "pos_params \<Rightarrow> epoch \<Rightarrow> ('a, 'k) genesis_validator
     \<Rightarrow> (('a, 'k) genesis_validator_data, genesis_error) outcome" where
  "genesis_validator_data p current_epoch gv =
     outcome_bind
       (ok_or (voting_power_delta_try_from_tokens (gv_tokens gv) p)
          (GenesisVotingPowerOverflow TryFromIntError))
       (\<lambda>power. Ok
          \<lparr> gd_address = gv_address gv,
            gd_staking_reward_address = gv_staking_reward_address gv,
            gd_consensus_key = epoched_init_at_genesis (gv_consensus_key gv) current_epoch,
            gd_staking_reward_key = gv_staking_reward_key gv,
            gd_state = epoched_init_at_genesis Candidate current_epoch,
            gd_total_deltas =
              epoched_delta_init_at_genesis (i128_from_u64 (gv_tokens gv)) current_epoch,
            gd_voting_power = epoched_delta_init_at_genesis power current_epoch,
            gd_bond_id = \<lparr> bond_source = gv_address gv, bond_validator = gv_address gv \<rparr>,
            gd_bond = epoched_delta_init_at_genesis (hm_insert current_epoch (gv_tokens gv) [])
                        current_epoch \<rparr>)"

definition init_genesis ::
  "pos_params \<Rightarrow> ('a :: linorder, 'k) genesis_validator list \<Rightarrow> epoch
     \<Rightarrow> ('a validator_set epoched \<times> voting_power_delta epoched_delta \<times> token_amount, genesis_error) outcome"
where
  "init_genesis p validators current_epoch =
     outcome_bind (genesis_accumulate p validators ({}, 0, 0))
       (\<lambda>(act, total_vp, balance).
          Ok (epoched_init_at_genesis (genesis_validator_set p act) current_epoch,
              epoched_delta_init_at_genesis total_vp current_epoch, balance))"

text \<open>
  \<^verbatim>\<open>PosBase::init_genesis\<close> writes as it goes: what was written before an error stays, so the result
  is the state together with the outcome.
\<close>

definition write_genesis_validator ::
  "('a, 'b) pos_env \<Rightarrow> ('a, 'k) genesis_validator_data \<Rightarrow> ('a, 'k, 'b) pos_state
     \<Rightarrow> ('a, 'k, 'b) pos_state option" where
  "write_genesis_validator env gd ps =
     map_option
       (\<lambda>raw_hash.
          ps\<lparr> ps_raw_hash := (ps_raw_hash ps)(raw_hash \<mapsto> gd_address gd),
              ps_reward_address :=
                (ps_reward_address ps)(gd_address gd \<mapsto> gd_staking_reward_address gd),
              ps_consensus_key := (ps_consensus_key ps)(gd_address gd \<mapsto> gd_consensus_key gd),
              ps_state := (ps_state ps)(gd_address gd \<mapsto> gd_state gd),
              ps_total_deltas := (ps_total_deltas ps)(gd_address gd \<mapsto> gd_total_deltas gd),
              ps_voting_power := (ps_voting_power ps)(gd_address gd \<mapsto> gd_voting_power gd),
              ps_bonds := (ps_bonds ps)(gd_bond_id gd \<mapsto> gd_bond gd),
              ps_reward_keys :=
                (ps_reward_keys ps)(gd_staking_reward_address gd \<mapsto> gd_staking_reward_key gd) \<rparr>)
       (pe_raw_hash env (gd_address gd))"

fun write_genesis_validators ::
  "('a, 'b) pos_env \<Rightarrow> pos_params \<Rightarrow> epoch \<Rightarrow> ('a, 'k) genesis_validator list \<Rightarrow> ('a, 'k, 'b) pos_state
     \<Rightarrow> ('a, 'k, 'b) pos_state \<times> (unit, genesis_error) outcome" where
  "write_genesis_validators env p current_epoch [] ps = (ps, Ok ())"
| "write_genesis_validators env p current_epoch (gv # gvs) ps =
     (case genesis_validator_data p current_epoch gv of
        Ok gd \<Rightarrow>
          (case write_genesis_validator env gd ps of
             Some ps' \<Rightarrow> write_genesis_validators env p current_epoch gvs ps'
           | None \<Rightarrow> (ps, Panic))
      | Err er \<Rightarrow> (ps, Err er)
      | Panic \<Rightarrow> (ps, Panic))"

definition pos_init_genesis ::
  "('a, 'b) pos_env \<Rightarrow> ('a :: linorder, 'k, 'b) pos_state \<Rightarrow> pos_params
     \<Rightarrow> ('a, 'k) genesis_validator list \<Rightarrow> epoch
     \<Rightarrow> ('a, 'k, 'b) pos_state \<times> (unit, genesis_error) outcome" where
  "pos_init_genesis env ps p validators current_epoch =
     (let ps0 = ps\<lparr> ps_params := p \<rparr>
      in case init_genesis p validators current_epoch of
           Err er \<Rightarrow> (ps0, Err er)
         | Panic \<Rightarrow> (ps0, Panic)
         | Ok (vsets, total_vp, balance) \<Rightarrow>
             (case write_genesis_validators env p current_epoch validators ps0 of
                (ps1, Ok _) \<Rightarrow>
                  (let ps2 = ps1\<lparr> ps_validator_set := vsets, ps_total_voting_power := total_vp \<rparr>
                   in case pe_credit env (pe_staking_token env) (pe_pos_address env) balance
                             (ps_ledger ps2) of
                        Some ledger \<Rightarrow> (ps2\<lparr> ps_ledger := ledger \<rparr>, Ok ())
                      | None \<Rightarrow> (ps2, Panic))
              | (ps1, res) \<Rightarrow> (ps1, res)))"

section \<open>Validator set updates\<close>

text \<open>The two closures of \<^verbatim>\<open>validator_set_update\<close>; \<^const>\<open>None\<close> is a validator that needs no update.\<close>

definition was_pending :: "('a, 'k, 'b) pos_state \<Rightarrow> 'a \<Rightarrow> epoch \<Rightarrow> bool" where
  "was_pending ps addr prev_epoch =
     (case ps_state ps addr of
        Some st \<Rightarrow> epoched_get st prev_epoch = Some Pending
      | None \<Rightarrow> False)"

definition consensus_key_at :: "('a, 'k, 'b) pos_state \<Rightarrow> 'a \<Rightarrow> epoch \<Rightarrow> 'k option" where
  "consensus_key_at ps addr e = Option.bind (ps_consensus_key ps addr) (\<lambda>k. epoched_get k e)"

definition active_update ::
  "('a, 'k, 'b) pos_state \<Rightarrow> epoch \<Rightarrow> (epoch \<times> 'a validator_set) option \<Rightarrow> 'a weighted_validator
     \<Rightarrow> 'k validator_set_update option option" where
  "active_update ps current_epoch prev v =
     (if (case prev of
            Some (prev_epoch, prev_validators) \<Rightarrow>
              v \<in> active prev_validators \<or> wv_power v = 0 \<and> was_pending ps (wv_address v) prev_epoch
          | None \<Rightarrow> False)
      then Some None
      else map_option (\<lambda>key. Some (Active key (wv_power v)))
             (consensus_key_at ps (wv_address v) current_epoch))"

definition inactive_update ::
  "('a, 'k, 'b) pos_state \<Rightarrow> epoch \<Rightarrow> (epoch \<times> 'a validator_set) option \<Rightarrow> 'a weighted_validator
     \<Rightarrow> 'k validator_set_update option option" where
  "inactive_update ps current_epoch prev v =
     (if (case prev of
            Some (prev_epoch, prev_validators) \<Rightarrow>
              v \<in> inactive prev_validators \<or> wv_power v = 0 \<and> was_pending ps (wv_address v) prev_epoch
          | None \<Rightarrow> False)
      then Some None
      else map_option (\<lambda>key. Some (Deactivated key))
             (consensus_key_at ps (wv_address v) current_epoch))"

fun collect_updates :: "('v \<Rightarrow> 'u option option) \<Rightarrow> 'v list \<Rightarrow> 'u list option" where
  "collect_updates f [] = Some []"
| "collect_updates f (v # vs) =
     (case f v of
        None \<Rightarrow> None
      | Some None \<Rightarrow> collect_updates f vs
      | Some (Some u) \<Rightarrow> map_option ((#) u) (collect_updates f vs))"

definition pos_validator_set_update ::
  "('a :: linorder, 'k, 'b) pos_state \<Rightarrow> epoch \<Rightarrow> 'k validator_set_update list option" where
  "pos_validator_set_update ps current_epoch =
     (let previous_epoch = (if current_epoch = 0 then None else Some (current_epoch - 1));
          validators = ps_validator_set ps
      in case epoched_get validators current_epoch of
           None \<Rightarrow> None
         | Some cur_validators \<Rightarrow>
             (let prev = Option.bind previous_epoch
                           (\<lambda>e. map_option (Pair e) (epoched_get validators e))
              in case (collect_updates (active_update ps current_epoch prev)
                         (sorted_list_of_set (active cur_validators)),
                       collect_updates (inactive_update ps current_epoch prev)
                         (sorted_list_of_set (inactive cur_validators))) of
                   (Some act, Some inact) \<Rightarrow> Some (act @ inact)
                 | _ \<Rightarrow> None))"

section \<open>Slashing\<close>

definition pos_slash ::
  "('a, 'b) pos_env \<Rightarrow> ('a :: linorder, 'k, 'b) pos_state \<Rightarrow> pos_params \<Rightarrow> epoch \<Rightarrow> epoch \<Rightarrow> u64
     \<Rightarrow> slash_type \<Rightarrow> 'a \<Rightarrow> (('a, 'k, 'b) pos_state, 'a slash_error) outcome" where
  "pos_slash env ps p current_epoch evidence_epoch evidence_block_height kind validator =
     (let sl = \<lparr> slash_epoch = evidence_epoch, slash_block_height = evidence_block_height,
                 slash_kind = kind, slash_rate = get_slash_rate kind p \<rparr>
      in outcome_bind (ok_or (ps_total_deltas ps validator) (ValidatorHasNoTotalDeltas validator)) (\<lambda>td.
         outcome_bind (ok_or (ps_voting_power ps validator) (SlashValidatorHasNoVotingPower validator))
           (\<lambda>vp.
         outcome_bind
           (slash_validator p current_epoch validator sl td vp (ps_validator_set ps)
              (ps_total_voting_power ps))
           (\<lambda>sd.
         outcome_bind (ok_or (u64_try_from_i128 (sd_slashed sd)) (InvalidSlashChange (sd_slashed sd)))
           (\<lambda>slashed_amount.
         outcome_bind
           (unwrap (pe_transfer env (pe_staking_token env) slashed_amount (pe_pos_address env)
                      (pe_slash_pool env) (ps_ledger ps)))
           (\<lambda>ledger.
              Ok (ps\<lparr> ps_total_deltas := (ps_total_deltas ps)(validator \<mapsto> sd_total_deltas sd),
                      ps_voting_power := (ps_voting_power ps)(validator \<mapsto> sd_voting_power sd),
                      ps_slashes := (ps_slashes ps)(validator := ps_slashes ps validator @ [sl]),
                      ps_validator_set := sd_validator_set sd,
                      ps_total_voting_power := sd_total_voting_power sd,
                      ps_ledger := ledger \<rparr>)))))))"

section \<open>The invariant of the system\<close>

text \<open>
  The part about stakes, over the validators \<open>V\<close>: the validator sets are well-formed and hold only
  validators, every validator's data are tied together, and the total voting power of every epoch is
  the sum of the validators' voting powers.
\<close>

definition stake_ok ::
  "pos_params \<Rightarrow> epoch \<Rightarrow> 'a set \<Rightarrow> ('a :: linorder) validator_set epoched
     \<Rightarrow> ('a \<rightharpoonup> token_change epoched_delta) \<Rightarrow> ('a \<rightharpoonup> voting_power_delta epoched_delta)
     \<Rightarrow> voting_power_delta epoched_delta \<Rightarrow> bool" where
  "stake_ok p c V vsets tds vps tot \<longleftrightarrow>
     unat c + unat (unbonding_len p) + 1 < 2 ^ 64 \<and>
     sets_at_epoch p c vsets \<and> delta_at_epoch p c tot \<and>
     finite V \<and> dom tds = V \<and> dom vps = V \<and>
     (\<forall>a td vp. tds a = Some td \<longrightarrow> vps a = Some vp \<longrightarrow> (\<exists>s. validator_ok p c s vsets a td vp)) \<and>
     (\<forall>e\<ge>c. \<forall>vs. epoched_get vsets e = Some vs \<longrightarrow> wv_address ` members vs \<subseteq> V) \<and>
     (\<forall>e\<ge>c. voting_power_at tot e = (\<Sum>a\<in>V. voting_power_at (the (vps a)) e))"

definition pos_ok :: "pos_params \<Rightarrow> epoch \<Rightarrow> ('a :: linorder, 'k, 'b) pos_state \<Rightarrow> bool" where
  "pos_ok p c ps \<longleftrightarrow>
     ps_params ps = p \<and>
     stake_ok p c (dom (ps_state ps)) (ps_validator_set ps) (ps_total_deltas ps) (ps_voting_power ps)
       (ps_total_voting_power ps) \<and>
     (\<forall>bid b. ps_bonds ps bid = Some b \<longrightarrow> bond_at_epoch p c b) \<and>
     (\<forall>bid u. ps_unbonds ps bid = Some u \<longrightarrow> delta_at_epoch p c u) \<and>
     (\<forall>a. \<forall>sl\<in>set (ps_slashes ps a). slash_rate sl \<le> 10000) \<and>
     duplicate_vote_slash_rate p \<le> 10000 \<and> light_client_attack_slash_rate p \<le> 10000"

lemma stake_okD:
  assumes "stake_ok p c V vsets tds vps tot"
  shows "unat c + unat (unbonding_len p) + 1 < 2 ^ 64" "sets_at_epoch p c vsets"
    "delta_at_epoch p c tot" "finite V" "dom tds = V" "dom vps = V"
    "\<And>a td vp. tds a = Some td \<Longrightarrow> vps a = Some vp \<Longrightarrow> \<exists>s. validator_ok p c s vsets a td vp"
    "\<And>e vs. c \<le> e \<Longrightarrow> epoched_get vsets e = Some vs \<Longrightarrow> wv_address ` members vs \<subseteq> V"
    "\<And>e. c \<le> e \<Longrightarrow> voting_power_at tot e = (\<Sum>a\<in>V. voting_power_at (the (vps a)) e)"
  using assms unfolding stake_ok_def by (elim conjE, assumption | iprover)+

lemma stake_okI:
  assumes "unat c + unat (unbonding_len p) + 1 < 2 ^ 64" "sets_at_epoch p c vsets"
    "delta_at_epoch p c tot" "finite V" "dom tds = V" "dom vps = V"
    "\<And>a td vp. tds a = Some td \<Longrightarrow> vps a = Some vp \<Longrightarrow> \<exists>s. validator_ok p c s vsets a td vp"
    "\<And>e vs. c \<le> e \<Longrightarrow> epoched_get vsets e = Some vs \<Longrightarrow> wv_address ` members vs \<subseteq> V"
    "\<And>e. c \<le> e \<Longrightarrow> voting_power_at tot e = (\<Sum>a\<in>V. voting_power_at (the (vps a)) e)"
  shows "stake_ok p c V vsets tds vps tot"
  unfolding stake_ok_def using assms by (intro conjI allI impI)

text \<open>A change of one validator's stake, as bonding, unbonding and slashing make it.\<close>

lemma stake_ok_change:
  assumes ok: "stake_ok p c V vsets tds vps tot" and v: "tds addr = Some td" "vps addr = Some vp"
    and res: "update_validator_set p addr change off vsets (Some td) c = Some vsets'"
      "epoched_delta_add_at_offset (+) UnbondingLen td change c off p = Some td'"
      "update_voting_powers p off td' vp tot c = Ok (vp', tot')"
  shows "stake_ok p c V vsets' (tds(addr \<mapsto> td')) (vps(addr \<mapsto> vp')) tot'"
proof -
  note D = stake_okD [OF ok]
  note base = D(2,3,1)
  have V: "finite V" "dom tds = V" "dom vps = V" "addr \<in> V"
    using D(4-6) v by auto
  obtain s where s: "validator_ok p c s vsets addr td vp"
    using D(7) [OF v] by blast
  note change = stake_change_ok [OF base(1) s base(2,3) res]
  have validators: "\<exists>s. validator_ok p c s vsets' a tda vpa"
    if "(tds(addr \<mapsto> td')) a = Some tda" "(vps(addr \<mapsto> vp')) a = Some vpa" for a tda vpa
  proof (cases "a = addr")
    case True
    with that change(2) show ?thesis by auto
  next
    case False
    with that have "tds a = Some tda" "vps a = Some vpa" by simp_all
    from D(7) [OF this] obtain sa where "validator_ok p c sa vsets a tda vpa"
      by blast
    from change(4) [OF False this] show ?thesis by blast
  qed
  have members: "wv_address ` members vs' \<subseteq> V" if at: "c \<le> e" "epoched_get vsets' e = Some vs'" for e vs'
  proof -
    obtain vs where "epoched_get vsets e = Some vs" "others addr vs' = others addr vs"
      using change(7) [OF at] by blast
    moreover note D(8) [OF at(1) this(1)]
    ultimately show ?thesis
      using V(4) by (auto simp: others_def set_eq_iff)
  qed
  have total: "voting_power_at tot' e = (\<Sum>a\<in>V. voting_power_at (the ((vps(addr \<mapsto> vp')) a)) e)"
    if "c \<le> e" for e
  proof -
    have "(\<Sum>a\<in>V. voting_power_at (the ((vps(addr \<mapsto> vp')) a)) e)
        = voting_power_at vp' e + (\<Sum>a\<in>V - {addr}. voting_power_at (the (vps a)) e)"
      using V by (subst sum.remove [of _ addr]) (auto intro: sum.cong)
    moreover have "voting_power_at tot e
        = voting_power_at vp e + (\<Sum>a\<in>V - {addr}. voting_power_at (the (vps a)) e)"
      using D(9) [OF that] V v(2) by (simp add: sum.remove [of _ addr])
    ultimately show ?thesis
      using change(6) [OF that] by (simp add: algebra_simps)
  qed
  show ?thesis
    using V by (intro stake_okI base(3) change(1,3) validators members total) auto
qed

text \<open>A new validator without stake.\<close>

lemma stake_ok_new:
  assumes ok: "stake_ok p c V vsets tds vps tot" and addr: "addr \<notin> V"
    and bv: "become_validator p addr key vsets c = Some bv"
  shows "stake_ok p c (insert addr V) (bv_validator_set bv) (tds(addr \<mapsto> bv_total_deltas bv))
    (vps(addr \<mapsto> bv_voting_power bv)) tot"
proof -
  note D = stake_okD [OF ok]
  note base = D(2,3) and V = D(4-6)
  have fresh: "\<forall>e\<ge>c. \<forall>vs. epoched_get vsets e = Some vs \<longrightarrow> addr \<notin> wv_address ` members vs"
    using D(8) addr by blast
  note frame = become_validator_frame [OF base(1) bv fresh]
  have data: "bv_voting_power bv = epoched_delta_init_at_offset 0 c PipelineLen p"
    using bv by (auto simp: become_validator_def Let_def)
  have validators: "\<exists>s. validator_ok p c s (bv_validator_set bv) a tda vpa"
    if "(tds(addr \<mapsto> bv_total_deltas bv)) a = Some tda" "(vps(addr \<mapsto> bv_voting_power bv)) a = Some vpa" for a tda vpa
  proof (cases "a = addr")
    case True
    with that become_validator_ok [OF base(1) bv fresh] show ?thesis by auto
  next
    case False
    with that have "tds a = Some tda" "vps a = Some vpa" by simp_all
    from D(7) [OF this] obtain s where "validator_ok p c s vsets a tda vpa"
      by blast
    with frame(2) [of s a tda] have "validator_ok p c s (bv_validator_set bv) a tda vpa"
      by (simp add: validator_ok_def)
    then show ?thesis by blast
  qed
  have members: "wv_address ` members vs' \<subseteq> insert addr V"
    if "c \<le> e" "epoched_get (bv_validator_set bv) e = Some vs'" for e vs'
    using become_validator_sets [OF base(1) bv fresh that(1)] that D(8) [OF that(1)]
    by (fastforce simp: add_new_validator_members split: if_splits)
  have total: "voting_power_at tot e =
      (\<Sum>a\<in>insert addr V. voting_power_at (the ((vps(addr \<mapsto> bv_voting_power bv)) a)) e)"
    if "c \<le> e" for e
  proof -
    have "(\<Sum>a\<in>V. voting_power_at (the ((vps(addr \<mapsto> bv_voting_power bv)) a)) e) =
        (\<Sum>a\<in>V. voting_power_at (the (vps a)) e)"
      using addr by (intro sum.cong) auto
    then show ?thesis
      using D(9) [OF that] V addr by (simp add: data new_validator_zero)
  qed
  show ?thesis
    using V by (intro stake_okI D(1) frame(1) base(2) validators members total) auto
qed

lemma validator_ok_later:
  assumes "validator_ok p c s vsets a td vp" "c \<le> c'"
  shows "\<exists>s'. validator_ok p c' s' vsets a td vp"
proof -
  have "validator_ok p c' (max s c') vsets a td vp"
    using assms unfolding validator_ok_def synced_def delta_at_epoch_def
    by (auto simp: max_def word_le_nat_alt word_less_nat_alt)
  then show ?thesis by blast
qed

lemma stake_ok_later:
  assumes ok: "stake_ok p c V vsets tds vps tot" and "c \<le> c'"
    and "unat c' + unat (unbonding_len p) + 1 < 2 ^ 64"
  shows "stake_ok p c' V vsets tds vps tot"
proof -
  note D = stake_okD [OF ok]
  have "sets_at_epoch p c' vsets" "delta_at_epoch p c' tot"
    using D(2,3) assms(2,3) by (auto simp: sets_at_epoch_def validator_sets_ok_def delta_at_epoch_def)
  moreover have "\<exists>s. validator_ok p c' s vsets a td vp" if "tds a = Some td" "vps a = Some vp" for a td vp
    using D(7) [OF that] validator_ok_later [OF _ assms(2)] by blast
  ultimately show ?thesis
    using D(4-6) assms(2) by (intro stake_okI assms(3) D(8,9)) auto
qed

section \<open>Every action keeps the invariant\<close>

lemma pos_okD:
  assumes "pos_ok p c ps"
  shows "ps_params ps = p"
    and "stake_ok p c (dom (ps_state ps)) (ps_validator_set ps) (ps_total_deltas ps) (ps_voting_power ps)
       (ps_total_voting_power ps)"
    and "\<And>bid b. ps_bonds ps bid = Some b \<Longrightarrow> bond_at_epoch p c b"
    and "\<And>bid u. ps_unbonds ps bid = Some u \<Longrightarrow> delta_at_epoch p c u"
    and "\<And>a sl. sl \<in> set (ps_slashes ps a) \<Longrightarrow> slash_rate sl \<le> 10000"
    and "duplicate_vote_slash_rate p \<le> 10000" "light_client_attack_slash_rate p \<le> 10000"
  using assms unfolding pos_ok_def by blast+

lemma pos_ok_validator:
  assumes "pos_ok p c ps" "ps_state ps v \<noteq> None"
  obtains td vp where "ps_total_deltas ps v = Some td" "ps_voting_power ps v = Some vp"
proof -
  note S = stake_okD(5,6) [OF pos_okD(2) [OF assms(1)]]
  from assms(2) S have "v \<in> dom (ps_total_deltas ps)" "v \<in> dom (ps_voting_power ps)" by auto
  then show ?thesis using that by blast
qed

lemma pos_become_validator_keeps:
  assumes ok: "pos_ok p c ps" and step: "pos_become_validator env ps addr reward key c = Ok ps'"
  shows "pos_ok p c ps'"
proof -
  note D = pos_okD [OF ok]
  obtain bv raw_hash where bv: "become_validator p addr key (ps_validator_set ps) c = Some bv"
    and new: "addr \<notin> dom (ps_state ps)"
    and ps': "ps' = ps\<lparr> ps_reward_address := (ps_reward_address ps)(addr \<mapsto> reward),
       ps_consensus_key := (ps_consensus_key ps)(addr \<mapsto> bv_consensus_key bv),
       ps_state := (ps_state ps)(addr \<mapsto> bv_state bv),
       ps_validator_set := bv_validator_set bv,
       ps_raw_hash := (ps_raw_hash ps)(raw_hash \<mapsto> addr),
       ps_total_deltas := (ps_total_deltas ps)(addr \<mapsto> bv_total_deltas bv),
       ps_voting_power := (ps_voting_power ps)(addr \<mapsto> bv_voting_power bv) \<rparr>"
    using step D(1)
    by (auto simp: pos_become_validator_def is_validator_def split: if_splits option.splits)
  from stake_ok_new [OF D(2) new bv] ok show ?thesis
    by (simp add: pos_ok_def ps')
qed

lemma pos_bond_tokens_keeps:
  assumes ok: "pos_ok p c ps" and step: "pos_bond_tokens env ps src v amount c = Ok ps'"
  shows "pos_ok p c ps'"
proof -
  note D = pos_okD [OF ok]
  let ?bid = "\<lparr> bond_source = (case src of Some s \<Rightarrow> s | None \<Rightarrow> v), bond_validator = v \<rparr>"
  obtain bd ledger where bd: "bond_tokens p (ps_state ps v) ?bid (ps_bonds ps ?bid) amount
      (ps_total_deltas ps v) (ps_voting_power ps v) (ps_total_voting_power ps) (ps_validator_set ps) c = Ok bd"
    and ps': "ps' = ps\<lparr> ps_bonds := (ps_bonds ps)(?bid \<mapsto> bd_bond bd),
       ps_total_deltas := (ps_total_deltas ps)(v \<mapsto> bd_total_deltas bd),
       ps_voting_power := (ps_voting_power ps)(v \<mapsto> bd_voting_power bd),
       ps_total_voting_power := bd_total_voting_power bd,
       ps_validator_set := bd_validator_set bd, ps_ledger := ledger \<rparr>"
    using step D(1)
    by (auto simp: pos_bond_tokens_def Let_def outcome_simps split: if_splits)
  have state: "ps_state ps v \<noteq> None"
    using bd by (cases "ps_state ps v") (auto simp: bond_tokens_def split: if_splits)
  obtain td vp where v: "ps_total_deltas ps v = Some td" "ps_voting_power ps v = Some vp"
    by (rule pos_ok_validator [OF ok state])
  note res = bond_tokens_OkD [OF bd [unfolded v]]
  have "stake_ok p c (dom (ps_state ps)) (bd_validator_set bd) ((ps_total_deltas ps)(v \<mapsto> bd_total_deltas bd))
      ((ps_voting_power ps)(v \<mapsto> bd_voting_power bd)) (bd_total_voting_power bd)"
    using stake_ok_change [OF D(2) v res(2) [simplified] res(3,4)] .
  moreover have "bond_at_epoch p c (bd_bond bd)"
    unfolding res(1) by (rule bond_at_epoch_new) (use D(3) in blast)
  ultimately show ?thesis
    using ok by (auto simp: pos_ok_def ps')
qed

lemma pos_unbond_tokens_keeps:
  assumes ok: "pos_ok p c ps" and ord: "\<forall>xs. mset (ord xs) = mset xs"
    and step: "pos_unbond_tokens ord ps src v amount c = Ok ps'"
  shows "pos_ok p c ps'"
proof -
  note D = pos_okD [OF ok]
  note S = stake_okD [OF D(2)]
  let ?bid = "\<lparr> bond_source = (case src of Some s \<Rightarrow> s | None \<Rightarrow> v), bond_validator = v \<rparr>"
  let ?bonds = "\<lambda>ud. case epoched_delta_get_at_offset bond_add (ud_bond ud) c PipelineLen p of
      Some total_bonds \<Rightarrow> if bond_sum total_bonds \<noteq> 0 then (ps_bonds ps)(?bid \<mapsto> ud_bond ud)
        else (ps_bonds ps)(?bid := None)
    | None \<Rightarrow> (ps_bonds ps)(?bid := None)"
  obtain b td vp ud where v: "ps_bonds ps ?bid = Some b" "ps_total_deltas ps v = Some td"
      "ps_voting_power ps v = Some vp"
    and ud: "unbond_tokens ord p ?bid b (ps_unbonds ps ?bid) amount (ps_slashes ps v) td vp
       (ps_total_voting_power ps) (ps_validator_set ps) c = Ok ud"
    and ps': "ps' = ps\<lparr> ps_bonds := ?bonds ud, ps_unbonds := (ps_unbonds ps)(?bid \<mapsto> ud_unbond ud),
       ps_total_deltas := (ps_total_deltas ps)(v \<mapsto> ud_total_deltas ud),
       ps_voting_power := (ps_voting_power ps)(v \<mapsto> ud_voting_power ud),
       ps_total_voting_power := ud_total_voting_power ud,
       ps_validator_set := ud_validator_set ud \<rparr>"
    using step unfolding pos_unbond_tokens_def Let_def outcome_simps D(1) by blast
  have bonds: "?bonds ud \<in> {(ps_bonds ps)(?bid \<mapsto> ud_bond ud), (ps_bonds ps)(?bid := None)}"
    by (simp split: option.split)
  have pl: "unat c + unat (pipeline_len p) < 2 ^ 64"
    using S(2) by (simp add: sets_at_epoch_def word_le_nat_alt)
  from ud obtain sv where un: "amount \<le> bonded b (c + pipeline_len p)"
    "epoched_delta_rev_update_while bond_add PipelineLen b (unbond_step ord p (ps_slashes ps v) c)
       \<lparr> uv_to_unbond = amount, uv_slashed_amount = 0,
         uv_unbond = (case ps_unbonds ps ?bid of Some x \<Rightarrow> x | None \<Rightarrow> epoched_delta_init UnbondingLen [] c p) \<rparr> c p
       = (sv, ud_bond ud)" "ud_unbond ud = uv_unbond sv"
    and st: "update_validator_set p v (- i128_from_u64 (uv_slashed_amount sv))
       UnbondingLen (ps_validator_set ps) (Some td) c = Some (ud_validator_set ud)"
    "ud_total_deltas ud =
       epoched_delta_add (+) UnbondingLen td (- i128_from_u64 (uv_slashed_amount sv)) c p"
    "update_voting_powers p UnbondingLen (ud_total_deltas ud) vp (ps_total_voting_power ps) c
       = Ok (ud_voting_power ud, ud_total_voting_power ud)"
    by (rule unbond_tokens_OkD) (simp add: bonded_at_offset [OF pl])
  have "unat c + unat (pipeline_len p) \<le> unat (c + pipeline_len p)"
    using unat_add_no_wrap [OF pl] by simp
  note rev = unbond_rev_update [OF ord [rule_format] D(3) [OF v(1)] _ unbond_start(1) pl un(1,2) this]
  have inv: "bond_at_epoch p c (ud_bond ud)" "delta_at_epoch p c (ud_unbond ud)"
    using rev(1,2) D(4,5) unfolding un(3) unbond_inv_def by blast+
  have "\<exists>s. validator_ok p c s (ps_validator_set ps) v td vp"
    using S(7) [OF v(2,3)] .
  then have "epoched_delta_wf UnbondingLen p td"
    by (auto simp: validator_ok_def delta_at_epoch_def)
  then have "epoched_delta_add_at_offset (+) UnbondingLen td (- i128_from_u64 (uv_slashed_amount sv))
      c UnbondingLen p = Some (ud_total_deltas ud)"
    by (simp add: epoched_delta_add_own_offset st(2))
  from stake_ok_change [OF D(2) v(2,3) st(1) this st(3)]
  have stake: "stake_ok p c (dom (ps_state ps)) (ps_validator_set ps') (ps_total_deltas ps')
      (ps_voting_power ps') (ps_total_voting_power ps')"
    by (simp add: ps')
  have "bond_at_epoch p c b'" if "ps_bonds ps' bid = Some b'" for bid b'
    using that bonds inv(1) D(3) by (auto simp: ps' split: if_splits)
  moreover have "delta_at_epoch p c u'" if "ps_unbonds ps' bid = Some u'" for bid u'
    using that inv(2) D(4) by (auto simp: ps' split: if_splits)
  ultimately show ?thesis
    using stake D(1,5-7) by (simp add: pos_ok_def ps')
qed

lemma pos_withdraw_tokens_keeps:
  assumes ok: "pos_ok p c ps" and step: "pos_withdraw_tokens env ps src v c = Ok (ps', slashed)"
  shows "pos_ok p c ps'"
proof -
  note D = pos_okD [OF ok]
  let ?bid = "\<lparr> bond_source = (case src of Some s \<Rightarrow> s | None \<Rightarrow> v), bond_validator = v \<rparr>"
  let ?unbonds = "\<lambda>wd. case epoched_delta_get_at_offset unbond_add (wd_unbond wd) c UnbondingLen p of
      Some total_unbonds \<Rightarrow> if unbond_sum total_unbonds \<noteq> 0 then (ps_unbonds ps)(?bid \<mapsto> wd_unbond wd)
        else (ps_unbonds ps)(?bid := None)
    | None \<Rightarrow> (ps_unbonds ps)(?bid := None)"
  obtain wd ledger where wd: "withdraw_unbonds p ?bid (ps_unbonds ps ?bid) (ps_slashes ps v) c = Ok wd"
    and ps': "ps' = ps\<lparr> ps_unbonds := ?unbonds wd, ps_ledger := ledger \<rparr>"
    using step unfolding pos_withdraw_tokens_def Let_def outcome_simps D(1) by blast
  have unbonds: "?unbonds wd \<in> {(ps_unbonds ps)(?bid \<mapsto> wd_unbond wd), (ps_unbonds ps)(?bid := None)}"
    by (simp split: option.split)
  from wd obtain u where u: "ps_unbonds ps ?bid = Some u"
      "wd_unbond wd = epoched_delta_delete_current unbond_add UnbondingLen u c p"
    by (auto simp: withdraw_unbonds_def outcome_simps case_prod_unfold Let_def)
  have "delta_at_epoch p c (wd_unbond wd)"
    unfolding u(2) by (rule delta_at_epoch_delete_current [OF D(4) [OF u(1)]])
  then have "delta_at_epoch p c u'" if "ps_unbonds ps' bid = Some u'" for bid u'
    using that unbonds D(4) by (auto simp: ps' split: if_splits)
  with ok show ?thesis
    by (simp add: pos_ok_def ps')
qed

lemma pos_slash_keeps:
  assumes ok: "pos_ok p c ps"
    and step: "pos_slash env ps (ps_params ps) c evidence_epoch height kind v = Ok ps'"
  shows "pos_ok p c ps'"
proof -
  note D = pos_okD [OF ok]
  let ?sl = "\<lparr> slash_epoch = evidence_epoch, slash_block_height = height,
     slash_kind = kind, slash_rate = get_slash_rate kind p \<rparr>"
  obtain td vp sd ledger where v: "ps_total_deltas ps v = Some td" "ps_voting_power ps v = Some vp"
    and sd: "slash_validator p c v ?sl td vp (ps_validator_set ps) (ps_total_voting_power ps) = Ok sd"
    and ps': "ps' = ps\<lparr> ps_total_deltas := (ps_total_deltas ps)(v \<mapsto> sd_total_deltas sd),
       ps_voting_power := (ps_voting_power ps)(v \<mapsto> sd_voting_power sd),
       ps_slashes := (ps_slashes ps)(v := ps_slashes ps v @ [?sl]),
       ps_validator_set := sd_validator_set sd,
       ps_total_voting_power := sd_total_voting_power sd, ps_ledger := ledger \<rparr>"
    using step D(1) by (auto simp: pos_slash_def Let_def outcome_simps)
  have "get_slash_rate kind p \<le> 10000"
    using D(6,7) by (cases kind) simp_all
  with stake_ok_change [OF D(2) v slash_validator_OkD(1-3) [OF sd]] ok show ?thesis
    by (auto simp: pos_ok_def ps')
qed

lemma pos_ok_later:
  assumes ok: "pos_ok p c ps" and "c \<le> c'" "unat c' + unat (unbonding_len p) + 1 < 2 ^ 64"
  shows "pos_ok p c' ps"
  using stake_ok_later [OF pos_okD(2) [OF ok] assms(2,3)] pos_okD [OF ok] assms(2)
  unfolding pos_ok_def bond_at_epoch_def delta_at_epoch_def by (meson order_trans)

section \<open>Genesis establishes the invariant\<close>

abbreviation genesis_power :: "pos_params \<Rightarrow> ('a, 'k) genesis_validator \<Rightarrow> voting_power_delta option" where
  "genesis_power p gv \<equiv> voting_power_delta_try_from_tokens (gv_tokens gv) p"

abbreviation genesis_weighted :: "pos_params \<Rightarrow> ('a, 'k) genesis_validator \<Rightarrow> 'a weighted_validator" where
  "genesis_weighted p gv \<equiv> WeightedValidator (voting_power_from_tokens (gv_tokens gv) p) (gv_address gv)"

lemma genesis_accumulate_OkD:
  assumes "genesis_accumulate p gvs (act, total_vp, balance) = Ok (act', total_vp', balance')"
  shows "act' = act \<union> genesis_weighted p ` set gvs"
    and "total_vp' = total_vp + (\<Sum>gv\<leftarrow>gvs. the (genesis_power p gv))"
    and "balance' = balance + (\<Sum>gv\<leftarrow>gvs. gv_tokens gv)"
  using assms
proof (induct gvs arbitrary: act total_vp balance)
  case (Cons gv gvs)
  { case 1 with Cons(1) show ?case by (auto simp: outcome_simps)
  next case 2 with Cons(2) show ?case by (fastforce simp: outcome_simps)
  next case 3 with Cons(3) show ?case by (fastforce simp: outcome_simps) }
qed auto

text \<open>What the loop of \<^verbatim>\<open>PosBase::init_genesis\<close> writes for the validators.\<close>

definition genesis_written ::
  "pos_params \<Rightarrow> epoch \<Rightarrow> ('a, 'k) genesis_validator \<Rightarrow> token_change epoched_delta
     \<Rightarrow> voting_power_delta epoched_delta \<Rightarrow> bool" where
  "genesis_written p g gv td vp \<longleftrightarrow>
     td = epoched_delta_init_at_genesis (i128_from_u64 (gv_tokens gv)) g \<and>
     (\<exists>w. genesis_power p gv = Some w \<and> vp = epoched_delta_init_at_genesis w g)"

lemma write_genesis_validators_Cons:
  assumes "write_genesis_validators env p g (gv # gvs) ps = (ps', Ok ())"
  obtains td vp h k st b rk where "genesis_written p g gv td vp"
    "write_genesis_validators env p g gvs (ps\<lparr> ps_raw_hash := (ps_raw_hash ps)(h \<mapsto> gv_address gv),
       ps_reward_address := (ps_reward_address ps)(gv_address gv \<mapsto> gv_staking_reward_address gv),
       ps_consensus_key := (ps_consensus_key ps)(gv_address gv \<mapsto> k),
       ps_state := (ps_state ps)(gv_address gv \<mapsto> st),
       ps_total_deltas := (ps_total_deltas ps)(gv_address gv \<mapsto> td),
       ps_voting_power := (ps_voting_power ps)(gv_address gv \<mapsto> vp),
       ps_bonds := (ps_bonds ps)(\<lparr> bond_source = gv_address gv, bond_validator = gv_address gv \<rparr> \<mapsto>
         epoched_delta_init_at_genesis b g),
       ps_reward_keys := rk \<rparr>) = (ps', Ok ())"
proof (cases "genesis_power p gv"; cases "pe_raw_hash env (gv_address gv)")
  fix w h
  assume w: "genesis_power p gv = Some w" "pe_raw_hash env (gv_address gv) = Some h"
  have "genesis_written p g gv (epoched_delta_init_at_genesis (i128_from_u64 (gv_tokens gv)) g)
      (epoched_delta_init_at_genesis w g)"
    using w(1) by (simp add: genesis_written_def)
  moreover note assms
  ultimately show thesis
    using that w by (simp add: genesis_validator_data_def write_genesis_validator_def)
qed (use assms in \<open>simp_all add: genesis_validator_data_def write_genesis_validator_def\<close>)

lemma write_genesis_validators_OkD:
  assumes "write_genesis_validators env p g gvs ps = (ps', Ok ())"
  shows "dom (ps_state ps') = dom (ps_state ps) \<union> gv_address ` set gvs"
    and "dom (ps_total_deltas ps') = dom (ps_total_deltas ps) \<union> gv_address ` set gvs"
    and "dom (ps_voting_power ps') = dom (ps_voting_power ps) \<union> gv_address ` set gvs"
    and "ps_params ps' = ps_params ps \<and> ps_unbonds ps' = ps_unbonds ps \<and> ps_slashes ps' = ps_slashes ps"
    and "ps_bonds ps' bid = Some b \<longrightarrow>
      ps_bonds ps bid = Some b \<or> (\<exists>x. b = epoched_delta_init_at_genesis x g)"
    and "ps_total_deltas ps' a = Some td \<longrightarrow> ps_voting_power ps' a = Some vp \<longrightarrow>
      ps_total_deltas ps a = Some td \<and> ps_voting_power ps a = Some vp \<or>
      (\<exists>gv\<in>set gvs. gv_address gv = a \<and> genesis_written p g gv td vp)"
  using assms
proof (induct gvs arbitrary: ps)
  case (Cons gv gvs)
  { case 1 then show ?case
      by (elim write_genesis_validators_Cons) (drule Cons(1), simp del: fun_upd_apply)
  next case 2 then show ?case
      by (elim write_genesis_validators_Cons) (drule Cons(2), simp del: fun_upd_apply)
  next case 3 then show ?case
      by (elim write_genesis_validators_Cons) (drule Cons(3), simp del: fun_upd_apply)
  next case 4 then show ?case
      by (elim write_genesis_validators_Cons) (drule Cons(4), simp)
  next case 5 then show ?case
      by (elim write_genesis_validators_Cons) (drule Cons(5), auto split: if_splits)
  next case 6 then show ?case
      by (elim write_genesis_validators_Cons) (drule Cons(6), auto split: if_splits) }
qed simp_all

lemma genesis_stake_ok:
  assumes p: "pipeline_len p \<le> unbonding_len p" "0 < max_validator_slots p"
      "unat g + unat (unbonding_len p) + 1 < 2 ^ 64"
    and addrs: "distinct (map gv_address gvs)"
    and gen: "init_genesis p gvs g = Ok (vsets, tot, balance)"
    and dom: "dom tds = gv_address ` set gvs" "dom vps = gv_address ` set gvs"
    and data: "\<And>a td vp. tds a = Some td \<Longrightarrow> vps a = Some vp \<Longrightarrow>
      \<exists>gv\<in>set gvs. gv_address gv = a \<and> genesis_written p g gv td vp"
  shows "stake_ok p g (gv_address ` set gvs) vsets tds vps tot"
proof -
  let ?act = "genesis_weighted p ` set gvs" and ?power = "\<lambda>gv. the (genesis_power p gv)"
  have inj: "inj_on gv_address (set gvs)" and dist: "distinct gvs"
    using addrs by (simp_all add: distinct_map)
  have vsets: "vsets = epoched_init_at_genesis (genesis_validator_set p ?act) g"
    and tot: "tot = epoched_delta_init_at_genesis (\<Sum>gv\<leftarrow>gvs. ?power gv) g"
    using gen genesis_accumulate_OkD [of p gvs "{}" 0 0]
    by (auto simp: init_genesis_def outcome_simps)
  have "inj_on wv_address ?act"
    using inj by (auto simp: inj_on_def)
  note set_ok = genesis_validator_set_members [OF _ this, of p, simplified]
  have "sets_at_epoch p g vsets"
    using p set_ok(1) by (simp add: sets_at_epoch_def vsets epoched_wf_ops validator_sets_ok_def)
  moreover have "delta_at_epoch p g tot"
    by (simp add: delta_at_epoch_def tot epoched_delta_wf_ops)
  moreover have "\<exists>s. validator_ok p g s vsets a td vp" if a: "tds a = Some td" "vps a = Some vp" for a td vp
  proof -
    obtain gv w where gv: "gv \<in> set gvs" "gv_address gv = a" "genesis_power p gv = Some w"
      "td = epoched_delta_init_at_genesis (i128_from_u64 (gv_tokens gv)) g"
      "vp = epoched_delta_init_at_genesis w g"
      using data [OF a] by (auto simp: genesis_written_def)
    have "validator_ok p g g vsets a td vp"
      unfolding vsets gv(4,5)
      by (rule genesis_validator_data_ok [OF order_refl u64_try_from_i128_from_u64 gv(3)])
        (use gv(1,2) set_ok(2) in auto)
    then show ?thesis by blast
  qed
  moreover have "wv_address ` members vs \<subseteq> gv_address ` set gvs"
    if "g \<le> e" "epoched_get vsets e = Some vs" for e vs
    using that set_ok(2) by (auto simp: vsets)
  moreover have "voting_power_at tot e = (\<Sum>a\<in>gv_address ` set gvs. voting_power_at (the (vps a)) e)"
    if "g \<le> e" for e
  proof -
    have "voting_power_at (the (vps (gv_address gv))) e = ?power gv" if gv: "gv \<in> set gvs" for gv
    proof -
      obtain td vp where a: "tds (gv_address gv) = Some td" "vps (gv_address gv) = Some vp"
        using dom gv by (metis domD imageI)
      from data [OF this] inj gv have "genesis_written p g gv td vp"
        by (metis inj_onD)
      with a \<open>g \<le> e\<close> show ?thesis
        by (auto simp: genesis_written_def voting_power_at_def)
    qed
    then have "(\<Sum>a\<in>gv_address ` set gvs. voting_power_at (the (vps a)) e) = (\<Sum>gv\<in>set gvs. ?power gv)"
      by (simp add: sum.reindex [OF inj])
    then show ?thesis
      using that dist by (simp add: tot voting_power_at_def sum.distinct_set_conv_list)
  qed
  ultimately show ?thesis
    using dom by (intro stake_okI p(3)) auto
qed

text \<open>The storage before genesis holds no validator, bond or slash.\<close>

definition pos_empty :: "('a, 'k, 'b) pos_state \<Rightarrow> bool" where
  "pos_empty ps \<longleftrightarrow> ps_state ps = Map.empty \<and> ps_total_deltas ps = Map.empty \<and>
     ps_voting_power ps = Map.empty \<and> ps_bonds ps = Map.empty \<and> ps_unbonds ps = Map.empty \<and>
     (\<forall>a. ps_slashes ps a = [])"

definition params_ok :: "pos_params \<Rightarrow> bool" where
  "params_ok p \<longleftrightarrow> pipeline_len p \<le> unbonding_len p \<and> 0 < max_validator_slots p \<and>
     duplicate_vote_slash_rate p \<le> 10000 \<and> light_client_attack_slash_rate p \<le> 10000"

lemma pos_init_genesis_ok:
  assumes "pos_empty ps" "params_ok p" "unat g + unat (unbonding_len p) + 1 < 2 ^ 64"
    and "distinct (map gv_address gvs)" and res: "pos_init_genesis env ps p gvs g = (ps', Ok ())"
  shows "pos_ok p g ps'"
proof -
  obtain vsets tot balance ps1 ledger where gen: "init_genesis p gvs g = Ok (vsets, tot, balance)"
    and w: "write_genesis_validators env p g gvs (ps\<lparr> ps_params := p \<rparr>) = (ps1, Ok ())"
    and ps': "ps' = ps1\<lparr> ps_validator_set := vsets, ps_total_voting_power := tot, ps_ledger := ledger \<rparr>"
    using res by (auto simp: pos_init_genesis_def Let_def split: outcome.splits prod.splits option.splits)
  note W = write_genesis_validators_OkD [OF w]
  have "stake_ok p g (gv_address ` set gvs) vsets (ps_total_deltas ps1) (ps_voting_power ps1) tot"
    using assms(1,2) W(2,3,6)
    by (intro genesis_stake_ok [OF _ _ assms(3,4) gen]) (auto simp: params_ok_def pos_empty_def)
  moreover have "bond_at_epoch p g b" if "ps_bonds ps1 bid = Some b" for bid b
    using W(5) that assms(1) by (fastforce simp: pos_empty_def bond_at_epoch_def epoched_delta_wf_ops)
  ultimately show ?thesis
    using W(1,4) assms(1,2) by (simp add: pos_ok_def ps' pos_empty_def params_ok_def)
qed

section \<open>Reachable states\<close>

text \<open>
  The operations that the ledger runs on the system between genesis and now: the actions of
  transactions, slashing with the parameters in storage, and the advance of the epoch. An action that
  fails leaves the storage as it was, so only the successful ones are steps. Epochs are bounded by
  what the additions of offsets need.
\<close>

inductive pos_step ::
  "('a, 'b) pos_env \<Rightarrow> epoch \<times> ('a :: linorder, 'k, 'b) pos_state \<Rightarrow> epoch \<times> ('a, 'k, 'b) pos_state \<Rightarrow> bool"
  for env where
  step_become: "pos_become_validator env ps addr reward_address key c = Ok ps'
     \<Longrightarrow> pos_step env (c, ps) (c, ps')"
| step_bond: "pos_bond_tokens env ps src validator amount c = Ok ps'
     \<Longrightarrow> pos_step env (c, ps) (c, ps')"
| step_unbond: "pos_unbond_tokens ord ps src validator amount c = Ok ps'
     \<Longrightarrow> \<forall>xs. mset (ord xs) = mset xs \<Longrightarrow> pos_step env (c, ps) (c, ps')"
| step_withdraw: "pos_withdraw_tokens env ps src validator c = Ok (ps', slashed)
     \<Longrightarrow> pos_step env (c, ps) (c, ps')"
| step_slash: "pos_slash env ps (ps_params ps) c evidence_epoch height kind validator = Ok ps'
     \<Longrightarrow> pos_step env (c, ps) (c, ps')"
| step_epoch: "unat c + unat (unbonding_len (ps_params ps)) + 2 < 2 ^ 64
     \<Longrightarrow> pos_step env (c, ps) (c + 1, ps)"

lemma pos_step_keeps:
  assumes ok: "pos_ok p c ps" and step: "pos_step env (c, ps) (c', ps')"
  shows "pos_ok p c' ps'"
proof -
  have later: "pos_ok p (c + 1) ps" if "unat c + unat (unbonding_len (ps_params ps)) + 2 < 2 ^ 64"
  proof -
    have "unat c + unat (1 :: epoch) < 2 ^ 64"
      using that by simp
    from unat_add_no_wrap [OF this] have "unat (c + 1) = unat c + 1"
      by simp
    with that pos_okD(1) [OF ok] show ?thesis
      using pos_ok_later [OF ok, of "c + 1"] by (simp add: word_le_nat_alt)
  qed
  from step show ?thesis
  proof cases
    case step_become
    from step_become(1) pos_become_validator_keeps [OF ok step_become(2)] show ?thesis by simp
  next
    case step_bond
    from step_bond(1) pos_bond_tokens_keeps [OF ok step_bond(2)] show ?thesis by simp
  next
    case step_unbond
    from step_unbond(1) pos_unbond_tokens_keeps [OF ok step_unbond(3,2)] show ?thesis by simp
  next
    case step_withdraw
    from step_withdraw(1) pos_withdraw_tokens_keeps [OF ok step_withdraw(2)] show ?thesis by simp
  next
    case step_slash
    from step_slash(1) pos_slash_keeps [OF ok step_slash(2)] show ?thesis by simp
  next
    case step_epoch
    from step_epoch(1,2) later [OF step_epoch(3)] show ?thesis by simp
  qed
qed

lemma pos_steps_keep:
  assumes "(pos_step env)\<^sup>*\<^sup>* (c, ps) (c', ps')" "pos_ok p c ps"
  shows "pos_ok p c' ps'"
  using assms by (induct "(c', ps')" arbitrary: c' ps' rule: rtranclp_induct) (auto intro: pos_step_keeps)

text \<open>
  Claim C1. Whatever sequence of becoming a validator, bonding, unbonding, withdrawing, slashing and
  epoch changes follows genesis, in the current and in every later epoch there is a well-formed
  validator set (bounded active set, no inactive validator above an active one, one entry per
  address) of known validators, every validator has data in which its voting power is that of its
  bonded tokens, and the total voting power is the sum of the validators' voting powers.
\<close>

theorem pos_reachable_ok:
  assumes "pos_empty ps0" "params_ok p" "unat g + unat (unbonding_len p) + 1 < 2 ^ 64"
    and "distinct (map gv_address gvs)" and "pos_init_genesis env ps0 p gvs g = (ps1, Ok ())"
    and "(pos_step env)\<^sup>*\<^sup>* (g, ps1) (c, ps)" and "c \<le> e"
  shows "(\<exists>vs. epoched_get (ps_validator_set ps) e = Some vs \<and>
      validator_set_ok (unat (max_validator_slots p)) vs \<and>
      wv_address ` members vs \<subseteq> dom (ps_state ps)) \<and>
    (\<forall>a\<in>dom (ps_state ps). \<exists>td vp. ps_total_deltas ps a = Some td \<and> ps_voting_power ps a = Some vp \<and>
      power_of_deltas p td e = Some (voting_power_at vp e)) \<and>
    voting_power_at (ps_total_voting_power ps) e =
      (\<Sum>a\<in>dom (ps_state ps). voting_power_at (the (ps_voting_power ps a)) e)"
proof -
  have ok: "pos_ok p c ps"
    using pos_steps_keep [OF assms(6) pos_init_genesis_ok [OF assms(1-5)]] .
  note S = stake_okD [OF pos_okD(2) [OF ok]]
  have "\<exists>vs. epoched_get (ps_validator_set ps) e = Some vs \<and>
      validator_set_ok (unat (max_validator_slots p)) vs"
    using sets_at_epochD(6) [OF S(2) assms(7)] .
  moreover have "\<exists>td vp. ps_total_deltas ps a = Some td \<and> ps_voting_power ps a = Some vp \<and>
      power_of_deltas p td e = Some (voting_power_at vp e)" if dom: "a \<in> dom (ps_state ps)" for a
  proof -
    obtain td vp where a: "ps_total_deltas ps a = Some td" "ps_voting_power ps a = Some vp"
      using pos_ok_validator [OF ok, of a] dom by blast
    with S(7) [OF this] assms(7) show ?thesis
      unfolding validator_ok_def by blast
  qed
  ultimately show ?thesis
    using S(8) [OF assms(7)] S(9) [OF assms(7)] by blast
qed

theorem pos_reachable_ok_witness:
  fixes env :: "(int, nat) pos_env" and ps0 :: "(int, int, nat) pos_state"
  defines "env \<equiv> \<lparr> pe_pos_address = 100, pe_slash_pool = 101, pe_staking_token = 102,
      pe_raw_hash = (\<lambda>a. Some (replicate (nat a) (CHR ''x''))), pe_transfer = (\<lambda>_ _ _ _. Some),
      pe_credit = (\<lambda>_ _ amount ledger. Some (ledger + unat amount)) \<rparr>"
    and "ps0 \<equiv> \<lparr> ps_params = pos_params_default, ps_raw_hash = Map.empty,
      ps_reward_address = Map.empty, ps_consensus_key = Map.empty, ps_state = Map.empty,
      ps_total_deltas = Map.empty, ps_voting_power = Map.empty, ps_slashes = (\<lambda>_. []),
      ps_bonds = Map.empty, ps_unbonds = Map.empty,
      ps_validator_set = epoched_init_at_genesis \<lparr> active = {}, inactive = {} \<rparr> 0,
      ps_total_voting_power = epoched_delta_init_at_genesis 0 0,
      ps_reward_keys = Map.empty, ps_ledger = 0 \<rparr>"
  shows "\<exists>ps. (pos_step env)\<^sup>*\<^sup>* (0, fst (pos_init_genesis env ps0 pos_params_default
        [\<lparr> gv_address = 1, gv_staking_reward_address = 11, gv_tokens = 5000000,
           gv_consensus_key = 21, gv_staking_reward_key = 31 \<rparr>] 0)) (1, ps) \<and>
      2 \<in> dom (ps_state ps) \<and>
      (\<exists>vs. epoched_get (ps_validator_set ps) 9 = Some vs \<and> validator_set_ok 128 vs)"
proof -
  let ?gvs = "[\<lparr> gv_address = 1 :: int, gv_staking_reward_address = 11, gv_tokens = 5000000,
           gv_consensus_key = 21 :: int, gv_staking_reward_key = 31 \<rparr>]"
  let ?p = pos_params_default
  obtain ps1 where ps1: "pos_init_genesis env ps0 ?p ?gvs 0 = (ps1, Ok ())" "dom (ps_state ps1) = {1}"
    by (simp add: pos_init_genesis_def init_genesis_def genesis_validator_data_def
        write_genesis_validator_def env_def ps0_def pos_params_default_def
        voting_power_delta_try_from_tokens_def basis_points_mul_u64_def i64_try_from_u64_def)
  have pre: "pos_empty ps0" "params_ok ?p" "unat (0 :: epoch) + unat (unbonding_len ?p) + 1 < 2 ^ 64"
    by (simp_all add: pos_empty_def ps0_def params_ok_def pos_params_default_def)
  have gen: "pos_ok ?p 0 ps1"
    by (rule pos_init_genesis_ok [OF pre _ ps1(1)]) simp
  note D = pos_okD [OF gen]
  obtain bv where bv: "become_validator ?p 2 (22 :: int) (ps_validator_set ps1) 0 = Some bv"
    using become_validator_total [OF stake_okD(2) [OF D(2)], of 2 "22 :: int"] by blast
  have "2 \<notin> dom (ps_state ps1)"
    by (simp add: ps1(2))
  with bv obtain ps2 where ps2: "pos_become_validator env ps1 2 12 22 0 = Ok ps2" "2 \<in> dom (ps_state ps2)"
    by (simp add: pos_become_validator_def is_validator_def D(1) env_def domIff)
  have "pos_ok ?p 0 ps2"
    by (rule pos_become_validator_keeps [OF gen ps2(1)])
  then have "pos_step env (0, ps2) (0 + 1, ps2)"
    by (intro step_epoch) (simp add: pos_okD(1) pos_params_default_def)
  then have steps: "(pos_step env)\<^sup>*\<^sup>* (0, ps1) (1, ps2)"
    using rtranclp.rtrancl_into_rtrancl [OF r_into_rtranclp [of "pos_step env", OF step_become [OF ps2(1)]]]
    by simp
  have "max_validator_slots ?p = 128"
    by (simp add: pos_params_default_def)
  then show ?thesis
    using pos_reachable_ok [OF pre _ ps1(1) steps, of 9] steps ps2(2)
    by (auto simp: ps1(1) intro!: exI [of _ ps2])
qed

end
