(* ===== verification/Rust_Strings.thy ===== *)
theory Rust_Strings
  imports Prelude "HOL-Library.Sublist"
begin

text \<open>
  Strings of the Rust standard library. A \<^verbatim>\<open>str\<close> or \<^verbatim>\<open>String\<close> is the list of its UTF-8 bytes, so that
  \<^verbatim>\<open>len\<close> is the length of the list; \<^verbatim>\<open>Vec<u8>\<close> values that hold text have the same type. The functions
  are the ones the sources call: \<^verbatim>\<open>split\<close> and \<^verbatim>\<open>join\<close> on a separator character, \<^verbatim>\<open>split_once\<close>,
  \<^verbatim>\<open>from_utf8\<close>, and printing and parsing of unsigned integers.
\<close>

section \<open>Splitting and joining\<close>

text \<open>\<^verbatim>\<open>str::split\<close> with a separator character: the empty string has one empty part.\<close>

fun str_split :: "char \<Rightarrow> string \<Rightarrow> string list" where
  "str_split sep [] = [[]]"
| "str_split sep (c # s) =
     (if c = sep then [] # str_split sep s
      else case str_split sep s of
             [] \<Rightarrow> [[c]]
           | part # parts \<Rightarrow> (c # part) # parts)"

text \<open>\<^verbatim>\<open>join\<close> of a slice of strings.\<close>

fun str_join :: "char \<Rightarrow> string list \<Rightarrow> string" where
  "str_join sep [] = []"
| "str_join sep [s] = s"
| "str_join sep (s # t # ts) = s @ sep # str_join sep (t # ts)"

lemma str_split_not_Nil [simp]: "str_split sep s \<noteq> []"
  by (induct s) (auto split: list.splits)

lemma str_split_no_sep: "sep \<notin> set s \<Longrightarrow> str_split sep s = [s]"
  by (induct s) auto

lemma str_split_append: "sep \<notin> set s \<Longrightarrow> str_split sep (s @ sep # t) = s # str_split sep t"
  by (induct s) auto

lemma str_split_join:
  "parts \<noteq> [] \<Longrightarrow> \<forall>s\<in>set parts. sep \<notin> set s \<Longrightarrow> str_split sep (str_join sep parts) = parts"
  by (induct sep parts rule: str_join.induct) (auto simp: str_split_no_sep str_split_append)

lemma str_join_Cons: "parts \<noteq> [] \<Longrightarrow> str_join sep (s # parts) = s @ sep # str_join sep parts"
  by (cases parts) auto

lemma str_join_split [simp]: "str_join sep (str_split sep s) = s"
proof (induct s)
  case (Cons c s)
  then show ?case
    by (cases "str_split sep s"; cases "tl (str_split sep s)") (auto simp: str_join_Cons)
qed simp

lemma str_split_parts: "s' \<in> set (str_split sep s) \<Longrightarrow> sep \<notin> set s'"
proof (induct s arbitrary: s')
  case (Cons c s)
  then show ?case
    by (cases "str_split sep s") (auto split: if_splits)
qed simp

text \<open>\<^verbatim>\<open>str::split_once\<close> with a separator string.\<close>

fun str_split_once :: "string \<Rightarrow> string \<Rightarrow> (string \<times> string) option" where
  "str_split_once pat [] = (if pat = [] then Some ([], []) else None)"
| "str_split_once pat (c # s) =
     (if prefix pat (c # s) then Some ([], drop (length pat) (c # s))
      else map_option (\<lambda>(a, b). (c # a, b)) (str_split_once pat s))"

lemma str_split_onceD: "str_split_once pat s = Some (a, b) \<Longrightarrow> s = a @ pat @ b"
  by (induct s arbitrary: a) (auto simp: prefix_def split: if_splits)

section \<open>UTF-8\<close>

abbreviation byte :: "char \<Rightarrow> nat" where
  "byte c \<equiv> of_char c"

definition utf8_cont :: "char \<Rightarrow> bool" where
  "utf8_cont c \<longleftrightarrow> 128 \<le> byte c \<and> byte c \<le> 191"

text \<open>The length of a sequence by its first byte, and what its second byte may be.\<close>

definition utf8_width :: "char \<Rightarrow> nat" where
  "utf8_width c =
     (if byte c < 128 then 1
      else if 194 \<le> byte c \<and> byte c \<le> 223 then 2
      else if 224 \<le> byte c \<and> byte c \<le> 239 then 3
      else if 240 \<le> byte c \<and> byte c \<le> 244 then 4
      else 0)"

definition utf8_second :: "char \<Rightarrow> char \<Rightarrow> bool" where
  "utf8_second a b \<longleftrightarrow> utf8_cont b \<and>
     (byte a = 224 \<longrightarrow> 160 \<le> byte b) \<and> (byte a = 237 \<longrightarrow> byte b \<le> 159) \<and>
     (byte a = 240 \<longrightarrow> 144 \<le> byte b) \<and> (byte a = 244 \<longrightarrow> byte b \<le> 143)"

function is_utf8 :: "string \<Rightarrow> bool" where
  "is_utf8 [] = True"
| "is_utf8 (a # s) =
     (let w = utf8_width a
      in w \<noteq> 0 \<and> w \<le> Suc (length s) \<and>
         (1 < w \<longrightarrow> utf8_second a (hd s)) \<and> list_all utf8_cont (take (w - 1) s) \<and>
         is_utf8 (drop (w - 1) s))"
  by pat_completeness auto
termination by (relation "measure length") auto

lemma is_utf8_ascii [simp]: "byte c < 128 \<Longrightarrow> is_utf8 (c # s) = is_utf8 s"
  by (simp add: utf8_width_def)

declare is_utf8.simps(2) [simp del]

lemma is_utf8_all_ascii: "\<forall>c\<in>set s. byte c < 128 \<Longrightarrow> is_utf8 s"
  by (induct s) auto

section \<open>Decimal numbers\<close>

definition digit_char :: "nat \<Rightarrow> char" where
  "digit_char d = char_of (48 + d)"

definition char_digit :: "char \<Rightarrow> nat option" where
  "char_digit c = (if 48 \<le> byte c \<and> byte c \<le> 57 then Some (byte c - 48) else None)"

text \<open>\<^verbatim>\<open>Display\<close> of an unsigned integer.\<close>

function show_nat :: "nat \<Rightarrow> string" where
  "show_nat n = (if n < 10 then [digit_char n] else show_nat (n div 10) @ [digit_char (n mod 10)])"
  by auto
termination by (relation "measure id") auto

definition show_u64 :: "u64 \<Rightarrow> string" where
  "show_u64 x = show_nat (unat x)"

text \<open>\<^verbatim>\<open>u64::from_str\<close>: an optional plus sign and at least one digit; \<^const>\<open>None\<close> is \<^verbatim>\<open>ParseIntError\<close>.\<close>

fun parse_digits :: "nat \<Rightarrow> string \<Rightarrow> nat option" where
  "parse_digits acc [] = Some acc"
| "parse_digits acc (c # s) =
     (case char_digit c of
        None \<Rightarrow> None
      | Some d \<Rightarrow> if 10 * acc + d < 2 ^ 64 then parse_digits (10 * acc + d) s else None)"

definition parse_u64 :: "string \<Rightarrow> u64 option" where
  "parse_u64 s =
     (let digits = (case s of c # t \<Rightarrow> if c = CHR ''+'' then t else s | [] \<Rightarrow> s)
      in if digits = [] then None else map_option of_nat (parse_digits 0 digits))"

declare show_nat.simps [simp del]

lemma char_digit_digit_char [simp]: "d < 10 \<Longrightarrow> char_digit (digit_char d) = Some d"
  by (simp add: char_digit_def digit_char_def)

lemma parse_digits_append:
  "parse_digits acc (s @ [c]) =
     (case parse_digits acc s of
        None \<Rightarrow> None
      | Some n \<Rightarrow> (case char_digit c of
          None \<Rightarrow> None
        | Some d \<Rightarrow> if 10 * n + d < 2 ^ 64 then Some (10 * n + d) else None))"
  by (induct acc s rule: parse_digits.induct) (auto split: option.split)

lemma parse_digits_show: "n < 2 ^ 64 \<Longrightarrow> parse_digits 0 (show_nat n) = Some n"
proof (induct n rule: show_nat.induct)
  case (1 n)
  show ?case
  proof (cases "n < 10")
    case True
    then show ?thesis by (simp add: show_nat.simps [of n])
  next
    case False
    then have "parse_digits 0 (show_nat (n div 10)) = Some (n div 10)"
      using 1 by simp
    moreover have "10 * (n div 10) + n mod 10 = n"
      by simp
    ultimately show ?thesis
      using 1(2) False by (simp add: show_nat.simps [of n] parse_digits_append del: mult_div_mod_eq)
  qed
qed

lemma show_nat_not_Nil [simp]: "show_nat n \<noteq> []"
  by (simp add: show_nat.simps [of n])

lemma show_nat_digits: "c \<in> set (show_nat n) \<Longrightarrow> 48 \<le> byte c \<and> byte c \<le> 57"
proof (induct n rule: show_nat.induct)
  case (1 n)
  have digit: "48 \<le> byte (digit_char d) \<and> byte (digit_char d) \<le> 57" if "d < 10" for d
    using that by (simp add: digit_char_def)
  show ?case
  proof (cases "n < 10")
    case True
    with 1(2) digit show ?thesis by (auto simp: show_nat.simps [of n])
  next
    case False
    with 1 digit [of "n mod 10"] show ?thesis by (auto simp: show_nat.simps [of n])
  qed
qed

lemma parse_show_u64: "parse_u64 (show_u64 x) = Some x"
proof -
  have "hd (show_nat (unat x)) \<noteq> CHR ''+''"
    using show_nat_digits [of "hd (show_nat (unat x))" "unat x"] by (auto dest: hd_in_set)
  then have "(case show_nat (unat x) of c # t \<Rightarrow> if c = CHR ''+'' then t else show_nat (unat x)
      | [] \<Rightarrow> show_nat (unat x)) = show_nat (unat x)"
    by (cases "show_nat (unat x)") auto
  then show ?thesis
    by (simp add: parse_u64_def show_u64_def parse_digits_show)
qed

end
