(* ===== verification/Gas.thy ===== *)
theory Gas
  imports Prelude
begin

text \<open>
  Gas accounting of \<^verbatim>\<open>shared/src/ledger/gas.rs\<close>: the meter of a block and its current transaction,
  the meter of a validity predicate, and the merged gas of validity predicates that run in parallel.
  The meters are updated also when an operation reports an error, so an operation returns the meter
  together with its outcome.
\<close>

datatype gas_error = TransactionGasExceedededError | BlockGasExceeded | GasOverflow

definition COMPILE_GAS_PER_BYTE :: u64 where "COMPILE_GAS_PER_BYTE = 1"
definition BASE_TRANSACTION_FEE :: u64 where "BASE_TRANSACTION_FEE = 2"
definition PARALLEL_GAS_DIVIDER :: u64 where "PARALLEL_GAS_DIVIDER = 10"
definition BLOCK_GAS_LIMIT :: u64 where "BLOCK_GAS_LIMIT = 10000000000000"
definition TRANSACTION_GAS_LIMIT :: u64 where "TRANSACTION_GAS_LIMIT = 10000000000"
definition MIN_STORAGE_GAS :: u64 where "MIN_STORAGE_GAS = 1"

lemmas gas_constants = COMPILE_GAS_PER_BYTE_def BASE_TRANSACTION_FEE_def PARALLEL_GAS_DIVIDER_def
  BLOCK_GAS_LIMIT_def TRANSACTION_GAS_LIMIT_def MIN_STORAGE_GAS_def

record block_gas_meter =
  block_gas :: u64
  transaction_gas :: u64

record vp_gas_meter =
  initial_gas :: u64
  current_gas :: u64

record vps_gas =
  vps_max :: "u64 option"
  vps_rest :: "u64 list"

section \<open>The block gas meter\<close>

definition block_gas_meter_default :: block_gas_meter where
  "block_gas_meter_default = \<lparr> block_gas = 0, transaction_gas = 0 \<rparr>"

definition block_gas_add :: "block_gas_meter \<Rightarrow> u64 \<Rightarrow> block_gas_meter \<times> (unit, gas_error) outcome" where
  "block_gas_add m gas =
     (case checked_add (transaction_gas m) gas of
        None \<Rightarrow> (m, Err GasOverflow)
      | Some gas' \<Rightarrow>
          (m\<lparr> transaction_gas := gas' \<rparr>,
           if TRANSACTION_GAS_LIMIT < gas' then Err TransactionGasExceedededError else Ok ()))"

definition add_base_transaction_fee ::
  "block_gas_meter \<Rightarrow> nat \<Rightarrow> block_gas_meter \<times> (unit, gas_error) outcome" where
  "add_base_transaction_fee m bytes_len = block_gas_add m BASE_TRANSACTION_FEE"

definition add_compiling_fee ::
  "block_gas_meter \<Rightarrow> nat \<Rightarrow> block_gas_meter \<times> (unit, gas_error) outcome" where
  "add_compiling_fee m bytes_len = block_gas_add m (of_nat bytes_len * COMPILE_GAS_PER_BYTE)"

definition finalize_transaction ::
  "block_gas_meter \<Rightarrow> block_gas_meter \<times> (u64, gas_error) outcome" where
  "finalize_transaction m =
     (case checked_add (block_gas m) (transaction_gas m) of
        None \<Rightarrow> (m, Err GasOverflow)
      | Some gas' \<Rightarrow>
          (m\<lparr> block_gas := gas', transaction_gas := 0 \<rparr>,
           if BLOCK_GAS_LIMIT < gas' then Err BlockGasExceeded else Ok (transaction_gas m)))"

definition block_gas_reset :: "block_gas_meter \<Rightarrow> block_gas_meter" where
  "block_gas_reset m = m\<lparr> transaction_gas := 0, block_gas := 0 \<rparr>"

definition get_current_transaction_gas :: "block_gas_meter \<Rightarrow> u64" where
  "get_current_transaction_gas m = transaction_gas m"

section \<open>The meter of a validity predicate\<close>

definition vp_gas_meter_new :: "u64 \<Rightarrow> vp_gas_meter" where
  "vp_gas_meter_new initial = \<lparr> initial_gas = initial, current_gas = 0 \<rparr>"

definition vp_gas_add :: "vp_gas_meter \<Rightarrow> u64 \<Rightarrow> vp_gas_meter \<times> (unit, gas_error) outcome" where
  "vp_gas_add m gas =
     (case checked_add (current_gas m) gas of
        None \<Rightarrow> (m, Err GasOverflow)
      | Some gas' \<Rightarrow>
          (m\<lparr> current_gas := gas' \<rparr>,
           case checked_add (initial_gas m) gas' of
             None \<Rightarrow> Err GasOverflow
           | Some current_total \<Rightarrow>
               if TRANSACTION_GAS_LIMIT < current_total then Err TransactionGasExceedededError
               else Ok ()))"

definition vp_add_compiling_fee ::
  "vp_gas_meter \<Rightarrow> nat \<Rightarrow> vp_gas_meter \<times> (unit, gas_error) outcome" where
  "vp_add_compiling_fee m bytes_len = vp_gas_add m (of_nat bytes_len * COMPILE_GAS_PER_BYTE)"

section \<open>The gas of parallel validity predicates\<close>

definition vps_gas_default :: vps_gas where
  "vps_gas_default = \<lparr> vps_max = None, vps_rest = [] \<rparr>"

definition vps_get_current_gas :: "vps_gas \<Rightarrow> (u64, gas_error) outcome" where
  "vps_get_current_gas g =
     (let parallel_gas = sum_list (vps_rest g) div PARALLEL_GAS_DIVIDER
      in ok_or (checked_add (case vps_max g of None \<Rightarrow> 0 | Some m \<Rightarrow> m) parallel_gas) GasOverflow)"

definition vps_check_limit :: "vps_gas \<Rightarrow> u64 \<Rightarrow> (unit, gas_error) outcome" where
  "vps_check_limit g initial =
     outcome_bind (vps_get_current_gas g) (\<lambda>gas.
     outcome_bind (ok_or (checked_add initial gas) GasOverflow) (\<lambda>gas'.
       if TRANSACTION_GAS_LIMIT < gas' then Err GasOverflow else Ok ()))"

definition vps_set :: "vps_gas \<Rightarrow> vp_gas_meter \<Rightarrow> vps_gas \<times> (unit, gas_error) outcome" where
  "vps_set g m =
     (let g' = g\<lparr> vps_max := Some (current_gas m) \<rparr>
      in (g', vps_check_limit g' (initial_gas m)))"

definition vps_join :: "vps_gas \<Rightarrow> vps_gas \<Rightarrow> vps_gas" where
  "vps_join g other =
     (let g' = (case (vps_max g, vps_max other) of
                  (None, Some _) \<Rightarrow> g\<lparr> vps_max := vps_max other \<rparr>
                | (Some this_max, Some other_max) \<Rightarrow>
                    if this_max < other_max
                    then g\<lparr> vps_rest := vps_rest g @ [this_max], vps_max := vps_max other \<rparr>
                    else g\<lparr> vps_rest := vps_rest g @ [other_max] \<rparr>
                | _ \<Rightarrow> g)
      in g'\<lparr> vps_rest := vps_rest g' @ vps_rest other \<rparr>)"

definition vps_merge :: "vps_gas \<Rightarrow> vps_gas \<Rightarrow> u64 \<Rightarrow> vps_gas \<times> (unit, gas_error) outcome" where
  "vps_merge g other initial = (vps_join g other, vps_check_limit (vps_join g other) initial)"

definition add_vps_gas ::
  "block_gas_meter \<Rightarrow> vps_gas \<Rightarrow> block_gas_meter \<times> (unit, gas_error) outcome" where
  "add_vps_gas m g =
     (case vps_get_current_gas g of
        Ok gas \<Rightarrow> block_gas_add m gas
      | Err e \<Rightarrow> (m, Err e)
      | Panic \<Rightarrow> (m, Panic))"

definition gas_as_i64 :: "u64 \<Rightarrow> (i64, gas_error) outcome" where
  "gas_as_i64 gas = unwrap (i64_try_from_u64 gas)"

section \<open>The meters do not wrap\<close>

abbreviation gas_sum :: "u64 list \<Rightarrow> nat" where
  "gas_sum costs \<equiv> sum_list (map unat costs)"

text \<open>The costs of a transaction, charged one after the other; the first error stops the transaction.\<close>

fun charge :: "block_gas_meter \<Rightarrow> u64 list \<Rightarrow> block_gas_meter \<times> (unit, gas_error) outcome" where
  "charge m [] = (m, Ok ())"
| "charge m (gas # costs) =
     (case block_gas_add m gas of
        (m', Ok _) \<Rightarrow> charge m' costs
      | (m', res) \<Rightarrow> (m', res))"

lemma unat_limits [simp]:
  "unat TRANSACTION_GAS_LIMIT = 10000000000" "unat BLOCK_GAS_LIMIT = 10000000000000"
  by (simp_all add: gas_constants)

lemma block_gas_add_cases:
  "block_gas_add m gas =
     (if unat (transaction_gas m) + unat gas \<le> unat TRANSACTION_GAS_LIMIT
      then (m\<lparr> transaction_gas := transaction_gas m + gas \<rparr>, Ok ())
      else if unat (transaction_gas m) + unat gas < 2 ^ 64
      then (m\<lparr> transaction_gas := transaction_gas m + gas \<rparr>, Err TransactionGasExceedededError)
      else (m, Err GasOverflow))"
  by (simp add: block_gas_add_def checked_add_def word_less_nat_alt unat_add_no_wrap not_less)

lemma charge_Cons:
  "unat (transaction_gas m) + unat gas \<le> unat TRANSACTION_GAS_LIMIT \<Longrightarrow>
     charge m (gas # costs) = charge (m\<lparr> transaction_gas := transaction_gas m + gas \<rparr>) costs \<and>
     unat (transaction_gas m + gas) = unat (transaction_gas m) + unat gas"
  "\<not> unat (transaction_gas m) + unat gas \<le> unat TRANSACTION_GAS_LIMIT \<Longrightarrow>
     snd (charge m (gas # costs)) \<noteq> Ok ()"
  using unat_add_no_wrap [of "transaction_gas m" gas] by (simp_all add: block_gas_add_cases)

lemma charge_Ok_iff:
  "snd (charge m costs) = Ok () \<longleftrightarrow>
     costs = [] \<or> unat (transaction_gas m) + gas_sum costs \<le> unat TRANSACTION_GAS_LIMIT"
proof (induct costs arbitrary: m)
  case (Cons gas costs)
  show ?case
  proof (cases "unat (transaction_gas m) + unat gas \<le> unat TRANSACTION_GAS_LIMIT")
    case True
    with charge_Cons(1) [OF True] Cons show ?thesis by (auto simp del: charge.simps)
  next
    case False
    with charge_Cons(2) [OF False] show ?thesis by (auto simp del: charge.simps)
  qed
qed simp

lemma charge_OkD:
  "snd (charge m costs) = Ok () \<Longrightarrow>
     fst (charge m costs) = m\<lparr> transaction_gas := transaction_gas m + sum_list costs \<rparr> \<and>
     unat (transaction_gas m + sum_list costs) = unat (transaction_gas m) + gas_sum costs"
proof (induct costs arbitrary: m)
  case (Cons gas costs)
  then have "unat (transaction_gas m) + unat gas \<le> unat TRANSACTION_GAS_LIMIT"
    using charge_Cons(2) by blast
  from charge_Cons(1) [OF this, of costs] Cons.hyps [of "m\<lparr> transaction_gas := transaction_gas m + gas \<rparr>"]
    Cons.prems
  show ?case
    by (simp add: add.assoc [symmetric] del: charge.simps)
qed simp

text \<open>The transactions of a block, each charged and finalized, up to the first error.\<close>

fun charge_block ::
  "block_gas_meter \<Rightarrow> u64 list list \<Rightarrow> block_gas_meter \<times> (u64 list, gas_error) outcome" where
  "charge_block m [] = (m, Ok [])"
| "charge_block m (costs # txs) =
     (case charge m costs of
        (m1, Ok _) \<Rightarrow>
          (case finalize_transaction m1 of
             (m2, Ok gas_used) \<Rightarrow>
               (case charge_block m2 txs of
                  (m3, Ok gases) \<Rightarrow> (m3, Ok (gas_used # gases))
                | (m3, res) \<Rightarrow> (m3, res))
           | (m2, Err e) \<Rightarrow> (m2, Err e)
           | (m2, Panic) \<Rightarrow> (m2, Panic))
      | (m1, Err e) \<Rightarrow> (m1, Err e)
      | (m1, Panic) \<Rightarrow> (m1, Panic))"

lemma finalize_transaction_cases:
  "finalize_transaction m =
     (if unat (block_gas m) + unat (transaction_gas m) \<le> unat BLOCK_GAS_LIMIT
      then (m\<lparr> block_gas := block_gas m + transaction_gas m, transaction_gas := 0 \<rparr>, Ok (transaction_gas m))
      else if unat (block_gas m) + unat (transaction_gas m) < 2 ^ 64
      then (m\<lparr> block_gas := block_gas m + transaction_gas m, transaction_gas := 0 \<rparr>, Err BlockGasExceeded)
      else (m, Err GasOverflow))"
  by (simp add: finalize_transaction_def checked_add_def word_less_nat_alt unat_add_no_wrap not_less)

lemma charge_block_step:
  assumes "transaction_gas m = 0"
    and "gas_sum costs \<le> unat TRANSACTION_GAS_LIMIT" "unat (block_gas m) + gas_sum costs \<le> unat BLOCK_GAS_LIMIT"
  defines "m' \<equiv> m\<lparr> block_gas := block_gas m + sum_list costs \<rparr>"
  shows "charge_block m (costs # txs) =
      (fst (charge_block m' txs), case snd (charge_block m' txs) of
         Ok gases \<Rightarrow> Ok (sum_list costs # gases) | res \<Rightarrow> res)"
    and "unat (sum_list costs) = gas_sum costs"
    and "unat (block_gas m + sum_list costs) = unat (block_gas m) + gas_sum costs"
proof -
  have ok: "snd (charge m costs) = Ok ()"
    using assms by (simp add: charge_Ok_iff)
  note D = charge_OkD [OF ok]
  from D assms(1) show gas: "unat (sum_list costs) = gas_sum costs" by simp
  with assms(3) show "unat (block_gas m + sum_list costs) = unat (block_gas m) + gas_sum costs"
    by (subst unat_add_no_wrap) simp_all
  have "charge m costs = (m\<lparr> transaction_gas := sum_list costs \<rparr>, Ok ())"
    using D ok assms(1) by (metis add_0 prod.collapse)
  moreover have "m\<lparr> block_gas := block_gas m + sum_list costs, transaction_gas := 0 \<rparr> = m'"
    using assms(1) by (cases m) (simp add: m'_def)
  ultimately show "charge_block m (costs # txs) =
      (fst (charge_block m' txs), case snd (charge_block m' txs) of
         Ok gases \<Rightarrow> Ok (sum_list costs # gases) | res \<Rightarrow> res)"
    using assms(3) gas
    by (cases "charge_block m' txs"; cases "snd (charge_block m' txs)") (simp_all add: finalize_transaction_cases)
qed

lemma charge_block_stop:
  assumes "transaction_gas m = 0"
    and "\<not> (gas_sum costs \<le> unat TRANSACTION_GAS_LIMIT \<and>
      unat (block_gas m) + gas_sum costs \<le> unat BLOCK_GAS_LIMIT)"
  shows "snd (charge_block m (costs # txs)) \<noteq> Ok gases"
proof (cases "snd (charge m costs) = Ok ()")
  case True
  note D = charge_OkD [OF True]
  with True assms(1) have run: "charge m costs = (m\<lparr> transaction_gas := sum_list costs \<rparr>, Ok ())"
    by (metis add_0 prod.collapse)
  have "\<not> unat (block_gas m) + gas_sum costs \<le> unat BLOCK_GAS_LIMIT"
    using assms True by (auto simp: charge_Ok_iff)
  then show ?thesis
    using D assms(1) run by (simp add: finalize_transaction_cases)
next
  case False
  then show ?thesis
    by (cases "charge m costs"; cases "snd (charge m costs)") auto
qed

lemma charge_block_Ok_iff:
  assumes "transaction_gas m = 0" "unat (block_gas m) \<le> unat BLOCK_GAS_LIMIT"
  shows "(\<exists>gases. snd (charge_block m txs) = Ok gases) \<longleftrightarrow>
    (\<forall>costs\<in>set txs. gas_sum costs \<le> unat TRANSACTION_GAS_LIMIT) \<and>
    unat (block_gas m) + sum_list (map gas_sum txs) \<le> unat BLOCK_GAS_LIMIT"
  using assms
proof (induct txs arbitrary: m)
  case (Cons costs txs)
  let ?m = "m\<lparr> block_gas := block_gas m + sum_list costs \<rparr>"
  show ?case
  proof (cases "gas_sum costs \<le> unat TRANSACTION_GAS_LIMIT \<and>
      unat (block_gas m) + gas_sum costs \<le> unat BLOCK_GAS_LIMIT")
    case True
    note step = charge_block_step [OF Cons.prems(1) conjunct1 [OF True] conjunct2 [OF True]]
    have "(\<exists>gases. snd (charge_block m (costs # txs)) = Ok gases) \<longleftrightarrow>
        (\<exists>gases. snd (charge_block ?m txs) = Ok gases)"
      by (cases "snd (charge_block ?m txs)") (simp_all add: step(1) del: charge_block.simps)
    with Cons.hyps [of ?m] Cons.prems True show ?thesis
      by (simp add: step(3) add.assoc del: charge_block.simps)
  next
    case False
    with charge_block_stop [OF Cons.prems(1) False] show ?thesis by (auto simp del: charge_block.simps)
  qed
qed simp

lemma charge_block_OkD:
  assumes "transaction_gas m = 0" "snd (charge_block m txs) = Ok gases"
  shows "map unat gases = map gas_sum txs \<and> transaction_gas (fst (charge_block m txs)) = 0 \<and>
    unat (block_gas (fst (charge_block m txs))) = unat (block_gas m) + sum_list (map gas_sum txs)"
  using assms
proof (induct txs arbitrary: m gases)
  case (Cons costs txs)
  let ?m = "m\<lparr> block_gas := block_gas m + sum_list costs \<rparr>"
  have within: "gas_sum costs \<le> unat TRANSACTION_GAS_LIMIT"
    "unat (block_gas m) + gas_sum costs \<le> unat BLOCK_GAS_LIMIT"
    using charge_block_stop [OF Cons.prems(1)] Cons.prems(2) by blast+
  note step = charge_block_step [OF Cons.prems(1) within]
  obtain gases' where rest: "snd (charge_block ?m txs) = Ok gases'" "gases = sum_list costs # gases'"
    using Cons.prems(2) step(1) by (cases "snd (charge_block ?m txs)") simp_all
  from Cons.hyps [OF _ rest(1)] Cons.prems(1) show ?case
    by (simp add: step rest del: charge_block.simps)
qed simp

text \<open>
  Claim C26. The gas of a block: a block succeeds exactly when no transaction costs more than the
  transaction limit and all together no more than the block limit, and then each transaction is
  reported with the sum of its costs and the block meter holds the sum over the transactions, without
  any wrap-around.
\<close>

theorem block_gas_accounting:
  "((\<exists>gases. snd (charge_block block_gas_meter_default txs) = Ok gases) \<longleftrightarrow>
     (\<forall>costs\<in>set txs. gas_sum costs \<le> unat TRANSACTION_GAS_LIMIT) \<and>
     sum_list (map gas_sum txs) \<le> unat BLOCK_GAS_LIMIT) \<and>
   (\<forall>gases. snd (charge_block block_gas_meter_default txs) = Ok gases \<longrightarrow>
     map unat gases = map gas_sum txs \<and>
     unat (block_gas (fst (charge_block block_gas_meter_default txs))) = sum_list (map gas_sum txs) \<and>
     transaction_gas (fst (charge_block block_gas_meter_default txs)) = 0)"
proof -
  let ?m = block_gas_meter_default
  have m: "transaction_gas ?m = 0" "unat (block_gas ?m) = 0"
    by (simp_all add: block_gas_meter_default_def)
  show ?thesis
    using charge_block_Ok_iff [OF m(1), of txs] charge_block_OkD [OF m(1), of txs] m(2) by simp
qed

theorem block_gas_accounting_witness:
  "\<exists>gases. snd (charge_block block_gas_meter_default [[2, 300], [2, 5000000000]]) = Ok gases \<and>
     map unat gases = [302, 5000000002]"
  using block_gas_accounting [of "[[2, 300], [2, 5000000000]]"] by auto

section \<open>Merging the gas of parallel validity predicates\<close>

text \<open>
  Merging keeps the greatest gas apart from the rest. What was merged is a multiset, and the state is
  determined by it up to the order of the rest.
\<close>

definition vps_wf :: "vps_gas \<Rightarrow> bool" where
  "vps_wf g \<longleftrightarrow> (case vps_max g of None \<Rightarrow> vps_rest g = [] | Some m \<Rightarrow> \<forall>x\<in>set (vps_rest g). x \<le> m)"

definition vps_all :: "vps_gas \<Rightarrow> u64 multiset" where
  "vps_all g = (case vps_max g of None \<Rightarrow> {#} | Some m \<Rightarrow> {#m#}) + mset (vps_rest g)"

lemma vps_wf_join: "vps_wf g \<Longrightarrow> vps_wf h \<Longrightarrow> vps_wf (vps_join g h)"
  by (auto simp: vps_wf_def vps_join_def split: option.splits)

lemma vps_all_join: "vps_wf g \<Longrightarrow> vps_wf h \<Longrightarrow> vps_all (vps_join g h) = vps_all g + vps_all h"
  by (auto simp: vps_wf_def vps_all_def vps_join_def split: option.splits)

lemma vps_default_wf [simp]: "vps_wf vps_gas_default" "vps_all vps_gas_default = {#}"
  by (simp_all add: vps_wf_def vps_all_def vps_gas_default_def)

lemma vps_set_wf [simp]:
  "vps_wf (fst (vps_set vps_gas_default m))" "vps_all (fst (vps_set vps_gas_default m)) = {#current_gas m#}"
  by (simp_all add: vps_set_def vps_wf_def vps_all_def vps_gas_default_def Let_def)

text \<open>The gas of a multiset of validity predicates: all of the greatest and a tenth of the rest.\<close>

definition parallel_gas :: "u64 multiset \<Rightarrow> nat" where
  "parallel_gas M = (if M = {#} then 0 else
     unat (Max_mset M) + (sum_mset (image_mset unat M) - unat (Max_mset M)) div 10)"

lemma vps_max_all:
  assumes "vps_wf g" "vps_max g = Some m"
  shows "Max_mset (vps_all g) = m"
  using assms by (intro Max_eqI) (auto simp: vps_wf_def vps_all_def)

lemma unat_sum_list_u64:
  "sum_list (map unat xs) < 2 ^ 64 \<Longrightarrow> unat (sum_list (xs :: u64 list)) = sum_list (map unat xs)"
  by (induct xs) (simp_all add: unat_add_no_wrap)

lemma vps_get_current_gas_eq:
  assumes "vps_wf g" "sum_mset (image_mset unat (vps_all g)) < 2 ^ 64"
  shows "\<exists>gas. vps_get_current_gas g = Ok gas \<and> unat gas = parallel_gas (vps_all g)"
proof (cases "vps_max g")
  case None
  with assms(1) show ?thesis
    by (simp add: vps_wf_def vps_get_current_gas_def checked_add_def vps_all_def parallel_gas_def)
next
  case (Some m)
  have all: "vps_all g = add_mset m (mset (vps_rest g))"
    by (simp add: vps_all_def Some)
  have rest: "unat (sum_list (vps_rest g)) = sum_list (map unat (vps_rest g))"
    using assms(2) by (intro unat_sum_list_u64) (simp add: all sum_mset_sum_list [symmetric])
  have "unat (sum_list (vps_rest g) div PARALLEL_GAS_DIVIDER) = sum_list (map unat (vps_rest g)) div 10"
    by (simp add: unat_div rest gas_constants)
  moreover have "unat m + sum_list (map unat (vps_rest g)) div 10 < 2 ^ 64"
    using assms(2) by (simp add: all sum_mset_sum_list [symmetric])
  moreover have "parallel_gas (vps_all g) = unat m + sum_list (map unat (vps_rest g)) div 10"
    using vps_max_all [OF assms(1) Some] by (simp add: parallel_gas_def all sum_mset_sum_list [symmetric])
  ultimately show ?thesis
    by (simp add: vps_get_current_gas_def Some checked_add_def unat_add_no_wrap)
qed

end
