(* ===== verification/Address.thy ===== *)
theory Address
  imports Rust_Strings "HOL-Library.Char_ord" "HOL-Library.List_Lexorder" "HOL-Library.Product_Lexorder"
begin

text \<open>
  Addresses of \<^verbatim>\<open>shared/src/types/address.rs\<close>: the fixed-length string of an address, its Bech32m
  encoding, and the generator of established addresses. The crates \<^verbatim>\<open>bech32\<close>, \<^verbatim>\<open>sha2\<close> and \<^verbatim>\<open>borsh\<close> are
  parameters: \<open>bech32_lib\<close> holds what the code calls of the first, \<open>bech32_laws\<close> what it relies on.
\<close>

section \<open>Data\<close>

datatype internal_address =
    PoS | PosSlashPool | Ibc | Parameters | IbcEscrow string | IbcBurn | IbcMint
  | Governance | Treasury | EthBridge

text \<open>An established address holds its hash, an implicit address the hash of its public key.\<close>

datatype address =
    Established string
  | Implicit string
  | Internal internal_address

definition HASH_LEN :: nat where "HASH_LEN = 40"
definition FIXED_LEN_STRING_BYTES :: nat where "FIXED_LEN_STRING_BYTES = 45"
definition ADDRESS_HRP :: string where "ADDRESS_HRP = ''atest''"
definition PREFIX_ESTABLISHED :: string where "PREFIX_ESTABLISHED = ''est''"
definition PREFIX_IMPLICIT :: string where "PREFIX_IMPLICIT = ''imp''"
definition PREFIX_INTERNAL :: string where "PREFIX_INTERNAL = ''ano''"

text \<open>The raw strings of the internal addresses; an escrow address has its hash instead.\<close>

fun internal_string :: "internal_address \<Rightarrow> string" where
  "internal_string PoS =          ''ano::Proof of Stake                          ''"
| "internal_string PosSlashPool = ''ano::Proof of Stake Slash Pool               ''"
| "internal_string Ibc =          ''ano::Inter-Blockchain Communication          ''"
| "internal_string Parameters =   ''ano::Protocol Parameters                     ''"
| "internal_string Governance =   ''ano::Governance                              ''"
| "internal_string Treasury =     ''ano::Treasury                                ''"
| "internal_string (IbcEscrow hash) = PREFIX_INTERNAL @ ''::'' @ hash"
| "internal_string IbcBurn =      ''ano::IBC Burn Address                        ''"
| "internal_string IbcMint =      ''ano::IBC Mint Address                        ''"
| "internal_string EthBridge =    ''ano::ETH Bridge Address                      ''"

datatype bech32_variant = Bech32 | Bech32m

datatype 'e address_error =
    DecodeBech32 'e
  | DecodeBase32 'e
  | UnexpectedBech32Prefix string
  | UnexpectedBech32Variant bech32_variant
  | InvalidAddressEncoding string

definition raw_hash :: "address \<Rightarrow> string option" where
  "raw_hash a =
     (case a of
        Established hash \<Rightarrow> Some hash
      | Implicit pkh \<Rightarrow> Some pkh
      | Internal _ \<Rightarrow> None)"

section \<open>The fixed-length string\<close>

text \<open>\<^verbatim>\<open>Vec::resize\<close> with a byte.\<close>

definition vec_resize :: "nat \<Rightarrow> char \<Rightarrow> string \<Rightarrow> string" where
  "vec_resize n c s = take n s @ replicate (n - length s) c"

definition to_fixed_len_string :: "address \<Rightarrow> string" where
  "to_fixed_len_string a =
     vec_resize FIXED_LEN_STRING_BYTES (CHR '' '')
       (case a of
          Established hash \<Rightarrow> PREFIX_ESTABLISHED @ ''::'' @ hash
        | Implicit pkh \<Rightarrow> PREFIX_IMPLICIT @ ''::'' @ pkh
        | Internal internal \<Rightarrow> internal_string internal)"

definition public_key_hash_from_str :: "string \<Rightarrow> string option" where
  "public_key_hash_from_str s = (if length s \<noteq> HASH_LEN then None else Some s)"

definition try_from_fixed_len_string :: "string \<Rightarrow> (address, string) outcome" where
  "try_from_fixed_len_string buf =
     (if \<not> is_utf8 buf then Err ''invalid utf-8''
      else if length buf \<noteq> FIXED_LEN_STRING_BYTES then Err ''Invalid length''
      else case str_split_once ''::'' buf of
        None \<Rightarrow> Err ''Invalid address prefix''
      | Some (pre, raw) \<Rightarrow>
          if pre = PREFIX_ESTABLISHED then
            (if length raw = HASH_LEN then Ok (Established raw)
             else Err ''Established address hash must be 40 characters long'')
          else if pre = PREFIX_IMPLICIT then
            (case public_key_hash_from_str raw of
               None \<Rightarrow> Err ''Wrong PKH len''
             | Some pkh \<Rightarrow> Ok (Implicit pkh))
          else if pre = PREFIX_INTERNAL then
            (if buf = internal_string PoS then Ok (Internal PoS)
             else if buf = internal_string PosSlashPool then Ok (Internal PosSlashPool)
             else if buf = internal_string Ibc then Ok (Internal Ibc)
             else if buf = internal_string Parameters then Ok (Internal Parameters)
             else if buf = internal_string IbcBurn then Ok (Internal IbcBurn)
             else if buf = internal_string Governance then Ok (Internal Governance)
             else if buf = internal_string Treasury then Ok (Internal Treasury)
             else if buf = internal_string IbcMint then Ok (Internal IbcMint)
             else if buf = internal_string EthBridge then Ok (Internal EthBridge)
             else if length raw = HASH_LEN then Ok (Internal (IbcEscrow raw))
             else Err ''Invalid internal address'')
          else Err ''Invalid address prefix'')"

section \<open>Bech32m\<close>

record 'e bech32_lib =
  to_base32 :: "string \<Rightarrow> 5 word list"
  from_base32 :: "5 word list \<Rightarrow> (string, 'e) outcome"
  bech32_encode :: "string \<Rightarrow> 5 word list \<Rightarrow> bech32_variant \<Rightarrow> (string, 'e) outcome"
  bech32_decode :: "string \<Rightarrow> (string \<times> 5 word list \<times> bech32_variant, 'e) outcome"

definition address_encode :: "'e bech32_lib \<Rightarrow> address \<Rightarrow> string option" where
  "address_encode lib a =
     (case bech32_encode lib ADDRESS_HRP (to_base32 lib (to_fixed_len_string a)) Bech32m of
        Ok s \<Rightarrow> Some s
      | _ \<Rightarrow> None)"

definition address_decode :: "'e bech32_lib \<Rightarrow> string \<Rightarrow> (address, 'e address_error) outcome" where
  "address_decode lib string =
     outcome_bind (map_err DecodeBech32 (bech32_decode lib string)) (\<lambda>(pre, hash_base32, variant).
       if pre \<noteq> ADDRESS_HRP then Err (UnexpectedBech32Prefix pre)
       else if variant \<noteq> Bech32m then Err (UnexpectedBech32Variant variant)
       else outcome_bind (map_err DecodeBase32 (from_base32 lib hash_base32)) (\<lambda>bytes.
         map_err InvalidAddressEncoding (try_from_fixed_len_string bytes)))"

section \<open>Generated addresses\<close>

text \<open>
  The generator keeps the last hash. \<open>sha40\<close> stands for the first 40 hexadecimal digits of SHA-256,
  \<open>borsh\<close> for the encoding of the generator.
\<close>

record established_address_gen =
  last_hash :: string

definition generate_address ::
  "(string \<Rightarrow> string) \<Rightarrow> (established_address_gen \<Rightarrow> string) \<Rightarrow> established_address_gen \<Rightarrow> string
     \<Rightarrow> established_address_gen \<times> address" where
  "generate_address sha40 borsh gen rng_source =
     (let hash = sha40 (borsh gen @ rng_source)
      in (gen\<lparr> last_hash := hash \<rparr>, Established hash))"

definition ibc_escrow_address :: "(string \<Rightarrow> string) \<Rightarrow> string \<Rightarrow> string \<Rightarrow> internal_address" where
  "ibc_escrow_address sha40 port_id channel_id = IbcEscrow (sha40 (port_id @ ''/'' @ channel_id))"

section \<open>Order\<close>

text \<open>The derived order: by constructor, then by content.\<close>

definition internal_rank :: "internal_address \<Rightarrow> nat \<times> string" where
  "internal_rank i =
     (case i of PoS \<Rightarrow> (0, []) | PosSlashPool \<Rightarrow> (1, []) | Ibc \<Rightarrow> (2, []) | Parameters \<Rightarrow> (3, [])
      | IbcEscrow hash \<Rightarrow> (4, hash) | IbcBurn \<Rightarrow> (5, []) | IbcMint \<Rightarrow> (6, []) | Governance \<Rightarrow> (7, [])
      | Treasury \<Rightarrow> (8, []) | EthBridge \<Rightarrow> (9, []))"

definition address_rank :: "address \<Rightarrow> nat \<times> nat \<times> string" where
  "address_rank a =
     (case a of
        Established hash \<Rightarrow> (0, 0, hash)
      | Implicit pkh \<Rightarrow> (1, 0, pkh)
      | Internal i \<Rightarrow> (2, internal_rank i))"

lemma internal_rank_inject [simp]: "internal_rank i = internal_rank j \<longleftrightarrow> i = j"
  by (cases i; cases j) (simp_all add: internal_rank_def)

lemma address_rank_inject [simp]: "address_rank a = address_rank b \<longleftrightarrow> a = b"
  by (cases a; cases b) (simp_all add: address_rank_def)

instantiation address :: linorder
begin

definition less_eq_address :: "address \<Rightarrow> address \<Rightarrow> bool" where
  "a \<le> b \<longleftrightarrow> address_rank a \<le> address_rank b"

definition less_address :: "address \<Rightarrow> address \<Rightarrow> bool" where
  "a < b \<longleftrightarrow> address_rank a < address_rank b"

instance
  by standard (auto simp: less_eq_address_def less_address_def less_le_not_le
      intro: address_rank_inject [THEN iffD1, OF antisym])

end

section \<open>Round trips\<close>

text \<open>
  The addresses that the code builds: hashes have 40 characters, and the hash of an escrow address is
  not the name of another internal address.
\<close>

definition internal_names :: "string list" where
  "internal_names = map internal_string
     [PoS, PosSlashPool, Ibc, Parameters, IbcBurn, Governance, Treasury, IbcMint, EthBridge]"

fun address_wf :: "address \<Rightarrow> bool" where
  "address_wf (Established hash) \<longleftrightarrow> length hash = HASH_LEN \<and> is_utf8 hash"
| "address_wf (Implicit pkh) \<longleftrightarrow> length pkh = HASH_LEN \<and> is_utf8 pkh"
| "address_wf (Internal (IbcEscrow hash)) \<longleftrightarrow>
     length hash = HASH_LEN \<and> is_utf8 hash \<and> PREFIX_INTERNAL @ ''::'' @ hash \<notin> set internal_names"
| "address_wf (Internal _) \<longleftrightarrow> True"

lemmas address_constants = HASH_LEN_def FIXED_LEN_STRING_BYTES_def ADDRESS_HRP_def
  PREFIX_ESTABLISHED_def PREFIX_IMPLICIT_def PREFIX_INTERNAL_def

lemma fixed_len_parse_print:
  assumes "address_wf a"
  shows "try_from_fixed_len_string (to_fixed_len_string a) = Ok a"
  using assms
  by (cases a rule: address_wf.cases)
    (simp_all add: try_from_fixed_len_string_def to_fixed_len_string_def vec_resize_def
      address_constants public_key_hash_from_str_def internal_names_def)

lemma vec_resize_exact [simp]: "length s = n \<Longrightarrow> vec_resize n c s = s"
  by (simp add: vec_resize_def)

lemma fixed_len_print_parse:
  assumes "try_from_fixed_len_string buf = Ok a"
  shows "address_wf a \<and> to_fixed_len_string a = buf"
proof -
  from assms obtain pre raw where sp: "str_split_once ''::'' buf = Some (pre, raw)"
    and len: "length buf = FIXED_LEN_STRING_BYTES" and utf8: "is_utf8 buf"
    by (auto simp: try_from_fixed_len_string_def split: if_splits option.splits)
  note buf = str_split_onceD [OF sp]
  consider "pre = PREFIX_ESTABLISHED" | "pre = PREFIX_IMPLICIT" | "pre = PREFIX_INTERNAL"
    using assms by (auto simp: try_from_fixed_len_string_def sp split: if_splits)
  then show ?thesis
  proof cases
    case 1
    with assms sp len utf8 buf show ?thesis
      by (auto simp: try_from_fixed_len_string_def to_fixed_len_string_def address_constants
          split: if_splits)
  next
    case 2
    with assms sp len utf8 buf show ?thesis
      by (auto simp: try_from_fixed_len_string_def to_fixed_len_string_def address_constants
          public_key_hash_from_str_def split: if_splits)
  next
    case 3
    show ?thesis
    proof (cases "buf \<in> set internal_names")
      case True
      then obtain i where "i \<in> set [PoS, PosSlashPool, Ibc, Parameters, IbcBurn, Governance, Treasury,
          IbcMint, EthBridge]" "buf = internal_string i"
        unfolding internal_names_def set_map by blast
      then have i: "address_wf (Internal i)" "to_fixed_len_string (Internal i) = buf"
        by (auto simp: to_fixed_len_string_def address_constants)
      then have "a = Internal i"
        using assms fixed_len_parse_print [of "Internal i"] by simp
      with i show ?thesis by simp
    next
      case False
      with 3 assms sp len utf8 have "a = Internal (IbcEscrow raw)" "length raw = HASH_LEN"
        by (auto simp: try_from_fixed_len_string_def PREFIX_INTERNAL_def PREFIX_ESTABLISHED_def
            PREFIX_IMPLICIT_def internal_names_def simp del: internal_string.simps split: if_splits)
      with 3 False utf8 buf show ?thesis
        by (simp add: to_fixed_len_string_def address_constants)
    qed
  qed
qed

text \<open>
  Claim C32. The fixed-length string of an address is canonical: a buffer parses to an address exactly
  when it is the fixed-length string of that (well-formed) address, so parsing and printing are
  inverse to each other and no two buffers give the same address.
\<close>

theorem fixed_len_string_canonical:
  "try_from_fixed_len_string buf = Ok a \<longleftrightarrow> address_wf a \<and> buf = to_fixed_len_string a"
  using fixed_len_parse_print fixed_len_print_parse by blast

text \<open>
  What the code relies on of the \<^verbatim>\<open>bech32\<close> crate: encoding with the human-readable part of addresses
  does not fail and gives a string without a slash (the character set is alphanumeric), and decoding
  undoes encoding, of a string and of bytes in base 32.
\<close>

definition bech32_laws :: "'e bech32_lib \<Rightarrow> bool" where
  "bech32_laws lib \<longleftrightarrow>
     (\<forall>d. \<exists>s. bech32_encode lib ADDRESS_HRP d Bech32m = Ok s \<and>
          CHR ''/'' \<notin> set s \<and> bech32_decode lib s = Ok (ADDRESS_HRP, d, Bech32m)) \<and>
     (\<forall>b. from_base32 lib (to_base32 lib b) = Ok b)"

lemma address_decode_encode:
  assumes "bech32_laws lib" "address_wf a"
  obtains s where "address_encode lib a = Some s" "address_decode lib s = Ok a" "CHR ''/'' \<notin> set s"
proof -
  obtain s where "CHR ''/'' \<notin> set s"
    "bech32_encode lib ADDRESS_HRP (to_base32 lib (to_fixed_len_string a)) Bech32m = Ok s"
    "bech32_decode lib s = Ok (ADDRESS_HRP, to_base32 lib (to_fixed_len_string a), Bech32m)"
    using assms(1) unfolding bech32_laws_def by blast
  with assms that show ?thesis
    by (simp add: address_encode_def address_decode_def bech32_laws_def fixed_len_parse_print)
qed

lemma address_encode_inject:
  assumes "bech32_laws lib" "address_wf a" "address_wf b" "address_encode lib a = address_encode lib b"
  shows "a = b"
proof -
  obtain s where "address_encode lib a = Some s" "address_decode lib s = Ok a"
    by (rule address_decode_encode [OF assms(1,2)])
  moreover obtain t where "address_encode lib b = Some t" "address_decode lib t = Ok b"
    by (rule address_decode_encode [OF assms(1,3)])
  ultimately show ?thesis
    using assms(4) by simp
qed

lemma address_decode_wf: "address_decode lib s = Ok a \<Longrightarrow> address_wf a"
  by (auto simp: address_decode_def outcome_simps fixed_len_print_parse split: if_splits)

text \<open>An instance of the parameter that satisfies the laws, for closed examples.\<close>

fun join_halves :: "5 word list \<Rightarrow> string" where
  "join_halves (a # b # ws) = char_of (32 * unat a + unat b) # join_halves ws"
| "join_halves _ = []"

definition example_bech32 :: "unit bech32_lib" where
  "example_bech32 =
     \<lparr> to_base32 = (\<lambda>s. concat (map (\<lambda>c. [of_nat (byte c div 32), of_nat (byte c mod 32)]) s)),
       from_base32 = (\<lambda>ws. Ok (join_halves ws)),
       bech32_encode = (\<lambda>_ ws _. Ok (map (\<lambda>w. char_of (64 + unat w)) ws)),
       bech32_decode = (\<lambda>s. Ok (ADDRESS_HRP, map (\<lambda>c. of_nat (byte c - 64)) s, Bech32m)) \<rparr>"

lemma unat_5_bound: "unat (w :: 5 word) < 32"
  using unsigned_less [of w, where ?'a = nat] by simp

lemma example_bech32_laws: "bech32_laws example_bech32"
proof -
  have half: "join_halves (concat (map (\<lambda>c. [of_nat (byte c div 32), of_nat (byte c mod 32)]) s)) = s" for s
  proof (induct s)
    case (Cons c s)
    have "byte c < 256" by simp
    then have "byte c < 32 * 32" by linarith
    then have "byte c div 32 < 32" by (rule less_mult_imp_div_less)
    then have u: "unat (of_nat (byte c div 32) :: 5 word) = byte c div 32"
      "unat (of_nat (byte c mod 32) :: 5 word) = byte c mod 32"
      by (simp_all add: unat_of_nat)
    have "char_of (32 * (byte c div 32) + byte c mod 32) = c"
      by (simp only: mult_div_mod_eq char_of_char)
    with Cons show ?case
      by (simp only: list.map concat.simps append.simps join_halves.simps u)
  qed simp
  have val: "byte (char_of (64 + unat w)) = 64 + unat w" for w :: "5 word"
    using unat_5_bound [of w] by simp
  have char: "CHR ''/'' \<noteq> char_of (64 + unat w)" for w :: "5 word"
  proof
    assume "CHR ''/'' = char_of (64 + unat w)"
    then have "byte CHR ''/'' = 64 + unat w" by (simp only: val)
    then show False by simp
  qed
  have "CHR ''/'' \<notin> set (map (\<lambda>w :: 5 word. char_of (64 + unat w)) ws)" for ws
    using char by auto
  moreover have "map (\<lambda>c. of_nat (byte c - 64)) (map (\<lambda>w :: 5 word. char_of (64 + unat w)) ws) = ws" for ws
    by (induct ws) (simp_all only: list.map val, simp)
  ultimately show ?thesis
    unfolding bech32_laws_def example_bech32_def using half by simp
qed

end
