(* ===== verification/Storage_Types.thy ===== *)
theory Storage_Types
  imports Address
begin

text \<open>
  Storage keys, epochs and the queue of wrapper transactions of \<^verbatim>\<open>shared/src/types/storage.rs\<close>. Keys
  print their addresses with Bech32m, so their operations take the parameter of \<^verbatim>\<open>address.rs\<close>; printing
  is \<^const>\<open>None\<close> where \<^verbatim>\<open>Address::encode\<close> would panic. The text of \<^verbatim>\<open>Error::Temporary\<close> is not modelled.
\<close>

datatype 'e storage_error =
    Temporary
  | ParseAddress "'e address_error"
  | ParseAddressFromKey
  | InvalidKeySeg string

definition KEY_SEGMENT_SEPARATOR :: char where "KEY_SEGMENT_SEPARATOR = CHR ''/''"
definition RESERVED_ADDRESS_PREFIX :: char where "RESERVED_ADDRESS_PREFIX = CHR ''#''"
definition RESERVED_VP_KEY :: string where "RESERVED_VP_KEY = ''?''"

lemmas key_constants = KEY_SEGMENT_SEPARATOR_def RESERVED_ADDRESS_PREFIX_def RESERVED_VP_KEY_def

section \<open>Block heights and hashes\<close>

type_synonym block_height = u64

definition block_height_add :: "block_height \<Rightarrow> u64 \<Rightarrow> block_height" where
  "block_height_add h n = h + n"

definition block_height_try_from :: "i64 \<Rightarrow> block_height option" where
  "block_height_try_from n = u64_try_from_i64 n"

definition next_height :: "block_height \<Rightarrow> block_height" where
  "next_height h = h + 1"

definition BLOCK_HASH_LENGTH :: nat where "BLOCK_HASH_LENGTH = 32"

definition block_hash_try_from :: "string \<Rightarrow> (string, 'e storage_error) outcome" where
  "block_hash_try_from bytes =
     (if length bytes \<noteq> BLOCK_HASH_LENGTH then Err Temporary else Ok bytes)"

section \<open>Key segments\<close>

datatype db_key_seg = AddressSeg address | StringSeg string

definition db_key_seg_parse ::
  "'e bech32_lib \<Rightarrow> string \<Rightarrow> (db_key_seg, 'e storage_error) outcome" where
  "db_key_seg_parse lib string =
     (if KEY_SEGMENT_SEPARATOR \<in> set string then Err (InvalidKeySeg string)
      else case string of
        c # rest \<Rightarrow>
          if c = RESERVED_ADDRESS_PREFIX
          then outcome_bind (map_err ParseAddress (address_decode lib rest)) (\<lambda>a. Ok (AddressSeg a))
          else Ok (StringSeg string)
      | [] \<Rightarrow> Ok (StringSeg string))"

definition address_seg_raw :: "'e bech32_lib \<Rightarrow> address \<Rightarrow> string option" where
  "address_seg_raw lib a = map_option ((#) RESERVED_ADDRESS_PREFIX) (address_encode lib a)"

definition address_seg_parse ::
  "'e bech32_lib \<Rightarrow> string \<Rightarrow> (address, 'e storage_error) outcome" where
  "address_seg_parse lib seg =
     (case seg of
        c # rest \<Rightarrow>
          if c = RESERVED_ADDRESS_PREFIX then map_err ParseAddress (address_decode lib rest)
          else Err ParseAddressFromKey
      | [] \<Rightarrow> Err ParseAddressFromKey)"

definition db_key_seg_raw :: "'e bech32_lib \<Rightarrow> db_key_seg \<Rightarrow> string option" where
  "db_key_seg_raw lib seg =
     (case seg of
        AddressSeg addr \<Rightarrow> map_option ((#) RESERVED_ADDRESS_PREFIX) (address_encode lib addr)
      | StringSeg s \<Rightarrow> Some s)"

definition block_height_seg_parse :: "string \<Rightarrow> (block_height, 'e storage_error) outcome" where
  "block_height_seg_parse string = ok_or (parse_u64 string) Temporary"

definition block_height_seg_raw :: "block_height \<Rightarrow> string" where
  "block_height_seg_raw h = show_u64 h"

section \<open>Keys\<close>

datatype key = Key (segments: "db_key_seg list")

definition key_from_seg :: "db_key_seg \<Rightarrow> key" where
  "key_from_seg seg = Key [seg]"

fun parse_segments ::
  "'e bech32_lib \<Rightarrow> string list \<Rightarrow> (db_key_seg list, 'e storage_error) outcome" where
  "parse_segments lib [] = Ok []"
| "parse_segments lib (s # parts) =
     outcome_bind (db_key_seg_parse lib s) (\<lambda>seg.
     outcome_bind (parse_segments lib parts) (\<lambda>segs. Ok (seg # segs)))"

definition key_parse :: "'e bech32_lib \<Rightarrow> string \<Rightarrow> (key, 'e storage_error) outcome" where
  "key_parse lib string =
     outcome_bind (parse_segments lib (str_split KEY_SEGMENT_SEPARATOR string)) (\<lambda>segs. Ok (Key segs))"

definition key_push :: "'e bech32_lib \<Rightarrow> key \<Rightarrow> string \<Rightarrow> (key, 'e storage_error) outcome" where
  "key_push lib k other_raw =
     outcome_bind (db_key_seg_parse lib other_raw) (\<lambda>seg. Ok (Key (segments k @ [seg])))"

definition key_join :: "key \<Rightarrow> key \<Rightarrow> key" where
  "key_join k other = Key (segments k @ segments other)"

fun find_addresses_loop :: "db_key_seg list \<Rightarrow> address list" where
  "find_addresses_loop [] = []"
| "find_addresses_loop (AddressSeg addr # segs) = addr # find_addresses_loop segs"
| "find_addresses_loop (StringSeg _ # segs) = find_addresses_loop segs"

definition find_addresses :: "key \<Rightarrow> address list" where
  "find_addresses k = find_addresses_loop (segments k)"

definition key_get_at :: "key \<Rightarrow> nat \<Rightarrow> db_key_seg option" where
  "key_get_at k index = vec_get (segments k) index"

fun collect_raws :: "'e bech32_lib \<Rightarrow> db_key_seg list \<Rightarrow> string list option" where
  "collect_raws lib [] = Some []"
| "collect_raws lib (seg # segs) =
     Option.bind (db_key_seg_raw lib seg) (\<lambda>s. map_option ((#) s) (collect_raws lib segs))"

definition key_to_string :: "'e bech32_lib \<Rightarrow> key \<Rightarrow> string option" where
  "key_to_string lib k =
     map_option (str_join KEY_SEGMENT_SEPARATOR) (collect_raws lib (segments k))"

definition key_len :: "'e bech32_lib \<Rightarrow> key \<Rightarrow> nat option" where
  "key_len lib k = map_option length (key_to_string lib k)"

definition key_is_empty :: "'e bech32_lib \<Rightarrow> key \<Rightarrow> bool option" where
  "key_is_empty lib k = map_option (\<lambda>n. n = 0) (key_len lib k)"

definition validity_predicate :: "address \<Rightarrow> key" where
  "validity_predicate addr = Key (segments (key_from_seg (AddressSeg addr)) @ [StringSeg RESERVED_VP_KEY])"

fun is_validity_predicate :: "key \<Rightarrow> address option" where
  "is_validity_predicate (Key [AddressSeg addr, StringSeg sub_key]) =
     (if sub_key = RESERVED_VP_KEY then Some addr else None)"
| "is_validity_predicate _ = None"

text \<open>\<^verbatim>\<open>String::remove(0)\<close> drops the first character; it panics on the empty string.\<close>

definition remove_first :: "string \<Rightarrow> string option" where
  "remove_first s = (case s of [] \<Rightarrow> None | c # _ \<Rightarrow> Some (drop (max 1 (utf8_width c)) s))"

definition parse_db_key :: "'e bech32_lib \<Rightarrow> string \<Rightarrow> (key, 'e storage_error) outcome" where
  "parse_db_key lib db_key =
     (let segs = str_split KEY_SEGMENT_SEPARATOR db_key
      in if vec_get segs 3 = Some RESERVED_VP_KEY
         then outcome_bind (unwrap (vec_get segs 2)) (\<lambda>addr_str.
              outcome_bind (unwrap (remove_first addr_str)) (\<lambda>addr_str'.
                (case address_decode lib addr_str' of
                   Ok addr \<Rightarrow> Ok (validity_predicate addr)
                 | _ \<Rightarrow> Panic)))
         else if length segs < 2 then Panic
         else map_err (\<lambda>_. Temporary)
                (key_parse lib (str_join KEY_SEGMENT_SEPARATOR (drop 2 segs))))"

definition sub_key :: "key \<Rightarrow> (key, 'e storage_error) outcome" where
  "sub_key k =
     (case segments k of
        [] \<Rightarrow> Err Temporary
      | _ # rest \<Rightarrow> if rest = [] then Err Temporary else Ok (Key rest))"

section \<open>Order of keys\<close>

definition seg_rank :: "db_key_seg \<Rightarrow> nat \<times> address \<times> string" where
  "seg_rank seg = (case seg of AddressSeg a \<Rightarrow> (0, a, []) | StringSeg s \<Rightarrow> (1, Established [], s))"

lemma seg_rank_inject [simp]: "seg_rank x = seg_rank y \<longleftrightarrow> x = y"
  by (cases x; cases y) (simp_all add: seg_rank_def)

instantiation db_key_seg :: linorder
begin

definition less_eq_db_key_seg :: "db_key_seg \<Rightarrow> db_key_seg \<Rightarrow> bool" where
  "x \<le> y \<longleftrightarrow> seg_rank x \<le> seg_rank y"

definition less_db_key_seg :: "db_key_seg \<Rightarrow> db_key_seg \<Rightarrow> bool" where
  "x < y \<longleftrightarrow> seg_rank x < seg_rank y"

instance
  by standard (auto simp: less_eq_db_key_seg_def less_db_key_seg_def less_le_not_le
      intro: seg_rank_inject [THEN iffD1, OF antisym])

end

instantiation key :: linorder
begin

definition less_eq_key :: "key \<Rightarrow> key \<Rightarrow> bool" where
  "x \<le> y \<longleftrightarrow> segments x \<le> segments y"

definition less_key :: "key \<Rightarrow> key \<Rightarrow> bool" where
  "x < y \<longleftrightarrow> segments x < segments y"

instance
  by standard (auto simp: less_eq_key_def less_key_def less_le_not_le
      intro: key.expand antisym)

end

section \<open>Epochs\<close>

record epochs =
  first_known_epoch :: u64
  first_block_heights :: "block_height list"

definition epochs_default :: epochs where
  "epochs_default = \<lparr> first_known_epoch = 0, first_block_heights = [0] \<rparr>"

fun trim_epochs :: "u64 \<Rightarrow> u64 \<Rightarrow> block_height list \<Rightarrow> u64 \<times> block_height list" where
  "trim_epochs min_height first_known (h # second # rest) =
     (if second < min_height then trim_epochs min_height (first_known + 1) (second # rest)
      else (first_known, h # second # rest))"
| "trim_epochs min_height first_known heights = (first_known, heights)"

definition new_epoch :: "epochs \<Rightarrow> block_height \<Rightarrow> u64 \<Rightarrow> epochs" where
  "new_epoch es block_height max_age_num_blocks =
     (let min_block_height_to_keep =
            (case checked_sub (block_height + 1) max_age_num_blocks of None \<Rightarrow> 0 | Some x \<Rightarrow> x);
          (first_known, heights) =
            trim_epochs min_block_height_to_keep (first_known_epoch es) (first_block_heights es)
      in \<lparr> first_known_epoch = first_known, first_block_heights = heights @ [block_height] \<rparr>)"

fun get_epoch_loop :: "block_height \<Rightarrow> u64 \<Rightarrow> block_height list \<Rightarrow> u64" where
  "get_epoch_loop block_height epoch [] = epoch"
| "get_epoch_loop block_height epoch (next # rest) =
     (if block_height < next then epoch else get_epoch_loop block_height (epoch + 1) rest)"

definition get_epoch :: "epochs \<Rightarrow> block_height \<Rightarrow> u64 option" where
  "get_epoch es block_height =
     (case first_block_heights es of
        [] \<Rightarrow> None
      | first # rest \<Rightarrow>
          if block_height < first then None
          else Some (get_epoch_loop block_height (first_known_epoch es) rest))"

section \<open>The queue of wrapper transactions\<close>

record 'w tx_queue =
  next_wrapper :: nat
  wrapper_queue :: "'w list"

definition tx_queue_default :: "'w tx_queue" where
  "tx_queue_default = \<lparr> next_wrapper = 0, wrapper_queue = [] \<rparr>"

definition tx_queue_push :: "'w tx_queue \<Rightarrow> 'w \<Rightarrow> 'w tx_queue" where
  "tx_queue_push q w = q\<lparr> wrapper_queue := wrapper_queue q @ [w] \<rparr>"

definition tx_queue_pop :: "'w tx_queue \<Rightarrow> 'w tx_queue \<times> 'w option" where
  "tx_queue_pop q =
     (case wrapper_queue q of
        [] \<Rightarrow> (q, None)
      | w # ws \<Rightarrow> (q\<lparr> wrapper_queue := ws \<rparr>, Some w))"

definition lazy_next :: "'w tx_queue \<Rightarrow> 'w tx_queue \<times> 'w option" where
  "lazy_next q =
     (let nxt = vec_get (wrapper_queue q) (next_wrapper q)
      in (if next_wrapper q < length (wrapper_queue q) then q\<lparr> next_wrapper := next_wrapper q + 1 \<rparr> else q,
          nxt))"

definition tx_queue_rewind :: "'w tx_queue \<Rightarrow> 'w tx_queue" where
  "tx_queue_rewind q = q\<lparr> next_wrapper := 0 \<rparr>"

definition tx_queue_is_empty :: "'w tx_queue \<Rightarrow> bool" where
  "tx_queue_is_empty q = (wrapper_queue q = [])"

section \<open>Round trips of keys\<close>

fun seg_wf :: "db_key_seg \<Rightarrow> bool" where
  "seg_wf (AddressSeg a) \<longleftrightarrow> address_wf a"
| "seg_wf (StringSeg s) \<longleftrightarrow> KEY_SEGMENT_SEPARATOR \<notin> set s \<and> (s = [] \<or> hd s \<noteq> RESERVED_ADDRESS_PREFIX)"

definition key_wf :: "key \<Rightarrow> bool" where
  "key_wf k \<longleftrightarrow> segments k \<noteq> [] \<and> list_all seg_wf (segments k)"

lemma db_key_seg_parse_wf: "db_key_seg_parse lib s = Ok seg \<Longrightarrow> seg_wf seg"
  by (auto simp: db_key_seg_parse_def outcome_simps address_decode_wf split: if_splits list.splits)

lemma db_key_seg_parse_raw:
  assumes "bech32_laws lib" "seg_wf seg"
  shows "\<exists>s. db_key_seg_raw lib seg = Some s \<and> KEY_SEGMENT_SEPARATOR \<notin> set s \<and> db_key_seg_parse lib s = Ok seg"
proof (cases seg)
  case (AddressSeg a)
  with assms(2) have "address_wf a" by simp
  with assms(1) obtain s where "address_encode lib a = Some s" "address_decode lib s = Ok a" "CHR ''/'' \<notin> set s"
    by (rule address_decode_encode)
  then show ?thesis
    by (simp add: AddressSeg db_key_seg_raw_def db_key_seg_parse_def key_constants)
next
  case (StringSeg s)
  with assms(2) show ?thesis
    by (cases s) (simp_all add: db_key_seg_raw_def db_key_seg_parse_def)
qed

lemma parse_segments_raws:
  assumes "bech32_laws lib" "list_all seg_wf segs"
  shows "\<exists>parts. collect_raws lib segs = Some parts \<and> length parts = length segs \<and>
    (\<forall>s\<in>set parts. KEY_SEGMENT_SEPARATOR \<notin> set s) \<and> parse_segments lib parts = Ok segs"
  using assms(2)
proof (induct segs)
  case (Cons seg segs)
  then obtain parts where parts: "collect_raws lib segs = Some parts" "length parts = length segs"
    "\<forall>s\<in>set parts. KEY_SEGMENT_SEPARATOR \<notin> set s" "parse_segments lib parts = Ok segs"
    by auto
  moreover obtain s where "db_key_seg_raw lib seg = Some s" "KEY_SEGMENT_SEPARATOR \<notin> set s"
    "db_key_seg_parse lib s = Ok seg"
    using db_key_seg_parse_raw [OF assms(1)] Cons.prems by auto
  ultimately show ?case
    by (intro exI [of _ "s # parts"]) simp
qed simp

lemma key_parse_to_string:
  assumes "bech32_laws lib" "key_wf k"
  obtains s where "key_to_string lib k = Some s" "key_parse lib s = Ok k"
proof -
  obtain parts where "collect_raws lib (segments k) = Some parts" "length parts = length (segments k)"
    "\<forall>s\<in>set parts. KEY_SEGMENT_SEPARATOR \<notin> set s" "parse_segments lib parts = Ok (segments k)"
    using parse_segments_raws [OF assms(1)] assms(2) by (auto simp: key_wf_def)
  moreover from this(2) assms(2) have "parts \<noteq> []"
    by (auto simp: key_wf_def)
  ultimately show ?thesis
    using that by (simp add: key_to_string_def key_parse_def str_split_join)
qed

lemma parse_segments_wf: "parse_segments lib parts = Ok segs \<Longrightarrow> list_all seg_wf segs \<and> length segs = length parts"
  by (induct parts arbitrary: segs) (auto simp: outcome_simps db_key_seg_parse_wf)

lemma key_parse_wf: "key_parse lib s = Ok k \<Longrightarrow> key_wf k"
  using parse_segments_wf [of lib "str_split KEY_SEGMENT_SEPARATOR s"] str_split_not_Nil
  by (auto simp: key_parse_def outcome_simps key_wf_def)

text \<open>
  Claim C27. Storage keys survive printing and parsing: every key that parsing can give (with at least
  one segment, string segments without a separator and not starting with the address prefix, and
  well-formed addresses) prints to a string that parses back to the same key, so that no two of them
  print alike.
\<close>

theorem key_print_parse_roundtrip:
  assumes "bech32_laws lib" "key_parse lib string = Ok k"
  shows "\<exists>s. key_to_string lib k = Some s \<and> key_parse lib s = Ok k \<and>
    (\<forall>k'. key_wf k' \<longrightarrow> key_to_string lib k' = Some s \<longrightarrow> k' = k)"
proof -
  obtain s where s: "key_to_string lib k = Some s" "key_parse lib s = Ok k"
    using key_parse_to_string [OF assms(1) key_parse_wf [OF assms(2)]] by blast
  moreover have "k' = k" if "key_wf k'" "key_to_string lib k' = Some s" for k'
    using key_parse_to_string [OF assms(1) that(1)] that(2) s(2) by auto
  ultimately show ?thesis by blast
qed

theorem key_print_parse_roundtrip_witness:
  "\<exists>s. key_to_string example_bech32 (Key [StringSeg ''foo'', StringSeg ''bar'']) = Some s \<and>
     key_parse example_bech32 s = Ok (Key [StringSeg ''foo'', StringSeg ''bar''])"
proof -
  have "key_parse example_bech32 ''foo/bar'' = Ok (Key [StringSeg ''foo'', StringSeg ''bar''])"
    by (simp add: key_parse_def db_key_seg_parse_def key_constants)
  from key_print_parse_roundtrip [OF example_bech32_laws this] show ?thesis by blast
qed

lemma is_validity_predicate_iff:
  "is_validity_predicate k = Some a \<longleftrightarrow> k = validity_predicate a"
  by (cases k rule: is_validity_predicate.cases) (auto simp: validity_predicate_def key_from_seg_def)

text \<open>
  A validity-predicate key can be built without \<^verbatim>\<open>Key::validity_predicate\<close>: pushing the
  string of the reserved segment onto the key of an address succeeds and gives exactly the key of its
  validity predicate, although the documentation says that only \<^verbatim>\<open>Key::validity_predicate\<close> can push
  that segment.
\<close>

theorem push_reserved_vp_segment:
  "key_push lib (key_from_seg (AddressSeg addr)) RESERVED_VP_KEY = Ok (validity_predicate addr) \<and>
   is_validity_predicate (validity_predicate addr) = Some addr"
  by (simp add: key_push_def db_key_seg_parse_def key_constants validity_predicate_def key_from_seg_def)

section \<open>Epochs of block heights\<close>

text \<open>The heights are strictly increasing; the epoch of a height counts the epochs begun up to it.\<close>

definition epochs_ok :: "epochs \<Rightarrow> bool" where
  "epochs_ok es \<longleftrightarrow> first_block_heights es \<noteq> [] \<and> sorted_wrt (<) (first_block_heights es)"

lemma get_epoch_loop_snoc:
  "\<forall>x\<in>set rest. x < h \<Longrightarrow>
     get_epoch_loop b e (rest @ [h]) = get_epoch_loop b e rest + (if h \<le> b then 1 else 0)"
proof (induct rest arbitrary: e)
  case (Cons x rest)
  then have "x < h" by simp
  then have "\<not> h \<le> b" if "b < x"
    using that by order
  with Cons show ?case by simp
qed (auto simp: not_le dest: leD)

lemma sorted_wrt_less_last:
  assumes "sorted_wrt (<) xs" "xs \<noteq> []" "last xs < (h :: 'a :: linorder)"
  shows "\<forall>x\<in>set xs. x < h"
  using assms
proof (induct xs)
  case (Cons x xs)
  show ?case
  proof (cases "xs = []")
    case False
    then have l: "last xs \<in> set xs" by simp
    with Cons.prems(1) have "x < last xs" by simp
    moreover have h: "last xs < h" using Cons.prems(3) False by simp
    ultimately have "x < h" by (rule order.strict_trans)
    moreover have "\<forall>y\<in>set xs. y < h"
      using Cons.hyps Cons.prems(1) h False by simp
    ultimately show ?thesis by simp
  qed (use Cons.prems in simp)
qed simp

lemma trim_epochs_get:
  assumes "sorted_wrt (<) heights" "heights \<noteq> []" "trim_epochs m e heights = (e', heights')"
  shows "heights' \<noteq> [] \<and> sorted_wrt (<) heights' \<and> last heights' = last heights \<and>
    (\<forall>b. let es = \<lparr> first_known_epoch = e, first_block_heights = heights \<rparr>;
             es' = \<lparr> first_known_epoch = e', first_block_heights = heights' \<rparr>
         in (m \<le> b \<longrightarrow> get_epoch es' b = get_epoch es b) \<and>
            (get_epoch es' b = get_epoch es b \<or> get_epoch es' b = None))"
  using assms
proof (induct m e heights rule: trim_epochs.induct)
  case (1 m e h second rest)
  show ?case
  proof (cases "second < m")
    case True
    let ?es = "\<lparr> first_known_epoch = e, first_block_heights = h # second # rest \<rparr>"
    let ?es' = "\<lparr> first_known_epoch = e', first_block_heights = heights' \<rparr>"
    from True 1 have "trim_epochs m (e + 1) (second # rest) = (e', heights')" by simp
    note IH = "1.hyps" [OF True _ _ this]
    have step: "get_epoch \<lparr> first_known_epoch = e + 1, first_block_heights = second # rest \<rparr> b =
        (if b < second then None else get_epoch \<lparr> first_known_epoch = e, first_block_heights = h # second # rest \<rparr> b)" for b
      using 1(2) by (auto simp: get_epoch_def)
    have "(m \<le> b \<longrightarrow> get_epoch ?es' b = get_epoch ?es b) \<and>
        (get_epoch ?es' b = get_epoch ?es b \<or> get_epoch ?es' b = None)" for b
    proof -
      from IH 1(2) have "(m \<le> b \<longrightarrow> get_epoch ?es' b = (if b < second then None else get_epoch ?es b)) \<and>
          (get_epoch ?es' b = (if b < second then None else get_epoch ?es b) \<or> get_epoch ?es' b = None)"
        unfolding Let_def step by simp
      moreover from True have "\<not> m \<le> b" if "b < second"
        using that by order
      ultimately show ?thesis
        by (cases "b < second") simp_all
    qed
    with IH 1(2) show ?thesis
      unfolding Let_def by simp
  next
    case False
    with 1(2,4) show ?thesis by (auto simp: Let_def)
  qed
qed (auto simp: Let_def)

lemma get_epoch_snoc:
  assumes "heights \<noteq> []" "\<forall>x\<in>set heights. x < h"
  shows "get_epoch \<lparr> first_known_epoch = e, first_block_heights = heights @ [h] \<rparr> b =
    map_option (\<lambda>x. x + (if h \<le> b then 1 else 0))
      (get_epoch \<lparr> first_known_epoch = e, first_block_heights = heights \<rparr> b)"
  using assms by (cases heights) (simp_all add: get_epoch_def get_epoch_loop_snoc)

lemma new_epoch_spec:
  assumes "epochs_ok es" "last (first_block_heights es) < h" "unat h + 1 < 2 ^ 64"
  shows "epochs_ok (new_epoch es h max_age) \<and>
    last (first_block_heights (new_epoch es h max_age)) = h \<and>
    (\<forall>b. h \<le> b \<longrightarrow> get_epoch (new_epoch es h max_age) b = map_option (\<lambda>e. e + 1) (get_epoch es b)) \<and>
    (\<forall>b<h. get_epoch (new_epoch es h max_age) b = get_epoch es b \<or>
       get_epoch (new_epoch es h max_age) b = None \<and> unat b + unat max_age \<le> unat h)"
proof -
  define m where "m = (case checked_sub (h + 1) max_age of None \<Rightarrow> 0 | Some x \<Rightarrow> x)"
  obtain e' heights' where trim: "trim_epochs m (first_known_epoch es) (first_block_heights es) = (e', heights')"
    by (cases "trim_epochs m (first_known_epoch es) (first_block_heights es)")
  have new: "new_epoch es h max_age = \<lparr> first_known_epoch = e', first_block_heights = heights' @ [h] \<rparr>"
    using trim by (simp add: new_epoch_def m_def Let_def)
  let ?es' = "\<lparr> first_known_epoch = e', first_block_heights = heights' \<rparr>"
  have es: "\<lparr> first_known_epoch = first_known_epoch es, first_block_heights = first_block_heights es \<rparr> = es"
    by simp
  from assms(1) have hs: "sorted_wrt (<) (first_block_heights es)" "first_block_heights es \<noteq> []"
    by (simp_all add: epochs_ok_def)
  note T = trim_epochs_get [OF hs trim, unfolded Let_def es]
  have ne: "heights' \<noteq> []" and sorted: "sorted_wrt (<) heights'" and last: "last heights' < h"
    using T assms(2) by simp_all
  note above = sorted_wrt_less_last [OF sorted ne last]
  note get = get_epoch_snoc [OF ne above, of e', folded new]
  have keep: "get_epoch ?es' b = get_epoch es b" if "m \<le> b \<or> h \<le> b" for b
  proof (cases "m \<le> b")
    case False
    with that above ne have "get_epoch ?es' b \<noteq> None"
      by (cases heights') (auto simp: get_epoch_def dest: order.strict_trans2)
    with T show ?thesis by metis
  qed (use T in metis)
  have "unat (h + 1) = unat h + 1"
    using assms(3) unat_add_no_wrap [of h 1] by simp
  then have old: "unat b + unat max_age \<le> unat h" if "b < m" for b
    using that by (auto simp: m_def checked_sub_def word_le_nat_alt word_less_nat_alt unat_sub split: if_splits)
  have "epochs_ok (new_epoch es h max_age)"
    using sorted above by (simp add: new epochs_ok_def sorted_wrt_append)
  moreover have "get_epoch (new_epoch es h max_age) b = map_option (\<lambda>e. e + 1) (get_epoch es b)" if "h \<le> b" for b
    using that keep [of b] by (simp add: get)
  moreover have "get_epoch (new_epoch es h max_age) b = get_epoch es b \<or>
      get_epoch (new_epoch es h max_age) b = None \<and> unat b + unat max_age \<le> unat h" if "b < h" for b
  proof -
    have "get_epoch (new_epoch es h max_age) b = get_epoch ?es' b"
    proof -
      from that have "\<not> h \<le> b" by order
      then show ?thesis by (simp add: get option.map_ident)
    qed
    moreover have "get_epoch ?es' b = get_epoch es b \<or> get_epoch ?es' b = None"
      using T by metis
    moreover have "b < m" if "\<not> m \<le> b"
      using that by order
    ultimately show ?thesis
      using keep [of b] old [of b] by (cases "m \<le> b") auto
  qed
  ultimately show ?thesis
    by (simp add: new)
qed

text \<open>
  Claim C25. Recording a new epoch at a height above all recorded ones keeps the heights increasing,
  gives the blocks from that height on the epoch after the one the height had before, and changes the
  epoch of no earlier block, except that blocks more than the maximal age before the new height may
  become unknown.
\<close>

theorem new_epoch_get_epoch:
  assumes "epochs_ok es" "last (first_block_heights es) < h" "unat h + 1 < 2 ^ 64"
  shows "epochs_ok (new_epoch es h max_age) \<and>
    last (first_block_heights (new_epoch es h max_age)) = h \<and>
    (\<forall>b. h \<le> b \<longrightarrow> get_epoch (new_epoch es h max_age) b = map_option (\<lambda>e. e + 1) (get_epoch es b)) \<and>
    (\<forall>b<h. get_epoch (new_epoch es h max_age) b = get_epoch es b \<or>
       get_epoch (new_epoch es h max_age) b = None \<and> unat b + unat max_age \<le> unat h)"
  by (rule new_epoch_spec [OF assms])

theorem new_epoch_get_epoch_witness:
  "get_epoch (new_epoch epochs_default 10 100) 12 = Some 1 \<and>
   get_epoch (new_epoch epochs_default 10 100) 9 = Some 0"
proof -
  have "epochs_ok epochs_default" "last (first_block_heights epochs_default) < 10"
    by (simp_all add: epochs_ok_def epochs_default_def)
  moreover have "get_epoch epochs_default b = Some 0" for b
    by (simp add: get_epoch_def epochs_default_def)
  ultimately show ?thesis
    using new_epoch_get_epoch [of epochs_default 10 100] by auto
qed

end
