(* ===== verification/Merkle.thy ===== *)
theory Merkle
  imports Storage_Types
begin

text \<open>
  The Merkle tree of the storage, \<^verbatim>\<open>shared/src/ledger/storage/merkle_tree.rs\<close>: a base tree over the
  roots of three subtrees, and the choice of the subtree from the first segment of a key. The crate
  \<^verbatim>\<open>sparse_merkle_tree\<close> is the parameter \<open>smt_lib\<close>, where \<^const>\<open>None\<close> is an error of the crate; proofs for
  light clients are not modelled.
\<close>

section \<open>The sparse Merkle tree\<close>

record ('t, 'h, 's) smt_lib =
  smt_get :: "'t \<Rightarrow> 'h \<Rightarrow> 'h option"
  smt_update :: "'t \<Rightarrow> 'h \<Rightarrow> 'h \<Rightarrow> ('t \<times> 'h) option"
  smt_root :: "'t \<Rightarrow> 'h"
  smt_store :: "'t \<Rightarrow> 's"
  smt_new :: "'h \<Rightarrow> 's \<Rightarrow> 't"
  smt_default :: 't
  smt_default_store :: 's
  smt_zero :: 'h
  smt_hash :: "string \<Rightarrow> 'h"

text \<open>
  What the storage relies on: a lookup gives the last value that was put under a key, the default tree
  has no entries, the hash of a value is not the zero that stands for an absent entry, and a tree is
  restored from its root and its store.
\<close>

definition smt_laws :: "('t, 'h, 's) smt_lib \<Rightarrow> bool" where
  "smt_laws L \<longleftrightarrow>
     (\<forall>t k. smt_get L t k \<noteq> None) \<and> (\<forall>s. smt_hash L s \<noteq> smt_zero L) \<and>
     (\<forall>k. smt_get L (smt_default L) k = Some (smt_zero L)) \<and>
     (\<forall>t. smt_new L (smt_root L t) (smt_store L t) = t) \<and>
     (\<forall>t k v. \<exists>t' root. smt_update L t k v = Some (t', root) \<and>
        (\<forall>k'. smt_get L t' k' = (if k' = k then Some v else smt_get L t k')))"

section \<open>Subtrees\<close>

datatype store_type = BaseStore | AccountStore | IbcStore | PosStore

datatype 'e merkle_error =
    InvalidKey "'e storage_error"
  | EmptyKey
  | Smt
  | StoreTypeError string

definition store_types :: "store_type list" where
  "store_types = [BaseStore, AccountStore, PosStore, IbcStore]"

fun store_type_to_string :: "store_type \<Rightarrow> string" where
  "store_type_to_string BaseStore = ''base''"
| "store_type_to_string AccountStore = ''account''"
| "store_type_to_string IbcStore = ''ibc''"
| "store_type_to_string PosStore = ''pos''"

definition store_type_from_str :: "string \<Rightarrow> (store_type, 'e merkle_error) outcome" where
  "store_type_from_str s =
     (if s = ''base'' then Ok BaseStore
      else if s = ''account'' then Ok AccountStore
      else if s = ''ibc'' then Ok IbcStore
      else if s = ''pos'' then Ok PosStore
      else Err (StoreTypeError s))"

text \<open>
  The string of a key; the Bech32m encoding of an address does not fail for the fixed human-readable
  part, so the panic in it is not carried further.
\<close>

definition key_string :: "'e bech32_lib \<Rightarrow> key \<Rightarrow> string" where
  "key_string lib k = (case key_to_string lib k of Some s \<Rightarrow> s | None \<Rightarrow> [])"

definition store_type_sub_key ::
  "'e bech32_lib \<Rightarrow> key \<Rightarrow> (store_type \<times> key, 'e merkle_error) outcome" where
  "store_type_sub_key lib k =
     (if key_string lib k = [] then Err EmptyKey
      else case segments k of
        AddressSeg (Internal internal) # _ \<Rightarrow>
          (case internal of
             PoS \<Rightarrow> outcome_bind (map_err InvalidKey (sub_key k)) (\<lambda>sub. Ok (PosStore, sub))
           | PosSlashPool \<Rightarrow> outcome_bind (map_err InvalidKey (sub_key k)) (\<lambda>sub. Ok (PosStore, sub))
           | Ibc \<Rightarrow> outcome_bind (map_err InvalidKey (sub_key k)) (\<lambda>sub. Ok (IbcStore, sub))
           | _ \<Rightarrow> Ok (AccountStore, k))
      | _ \<Rightarrow> Ok (AccountStore, k))"

record 't merkle_tree =
  mt_base :: 't
  mt_account :: 't
  mt_ibc :: 't
  mt_pos :: 't

definition mt_tree :: "'t merkle_tree \<Rightarrow> store_type \<Rightarrow> 't" where
  "mt_tree m st =
     (case st of BaseStore \<Rightarrow> mt_base m | AccountStore \<Rightarrow> mt_account m | IbcStore \<Rightarrow> mt_ibc m
      | PosStore \<Rightarrow> mt_pos m)"

text \<open>\<^verbatim>\<open>update_tree\<close>; the base tree is never updated directly.\<close>

definition mt_update_tree ::
  "('t, 'h, 's) smt_lib \<Rightarrow> 't merkle_tree \<Rightarrow> store_type \<Rightarrow> 'h \<Rightarrow> 'h \<Rightarrow> ('t merkle_tree, 'e merkle_error) outcome" where
  "mt_update_tree L m st k v =
     (if st = BaseStore then Panic
      else outcome_bind (ok_or (smt_update L (mt_tree m st) k v) Smt) (\<lambda>(t, sub_root).
        let m' = (case st of
                    AccountStore \<Rightarrow> m\<lparr> mt_account := t \<rparr>
                  | IbcStore \<Rightarrow> m\<lparr> mt_ibc := t \<rparr>
                  | _ \<Rightarrow> m\<lparr> mt_pos := t \<rparr>)
        in outcome_bind
             (ok_or (smt_update L (mt_base m') (smt_hash L (store_type_to_string st)) sub_root) Smt)
             (\<lambda>(b, _). Ok (m'\<lparr> mt_base := b \<rparr>))))"

definition mt_has_key ::
  "'e bech32_lib \<Rightarrow> ('t, 'h, 's) smt_lib \<Rightarrow> 't merkle_tree \<Rightarrow> key \<Rightarrow> (bool, 'e merkle_error) outcome" where
  "mt_has_key lib L m k =
     outcome_bind (store_type_sub_key lib k) (\<lambda>(st, sub).
     outcome_bind (ok_or (smt_get L (mt_tree m st) (smt_hash L (key_string lib sub))) Smt) (\<lambda>v.
       Ok (v \<noteq> smt_zero L)))"

definition mt_update ::
  "'e bech32_lib \<Rightarrow> ('t, 'h, 's) smt_lib \<Rightarrow> 't merkle_tree \<Rightarrow> key \<Rightarrow> string \<Rightarrow> ('t merkle_tree, 'e merkle_error) outcome" where
  "mt_update lib L m k value =
     outcome_bind (store_type_sub_key lib k) (\<lambda>(st, sub).
       mt_update_tree L m st (smt_hash L (key_string lib sub)) (smt_hash L value))"

definition mt_delete ::
  "'e bech32_lib \<Rightarrow> ('t, 'h, 's) smt_lib \<Rightarrow> 't merkle_tree \<Rightarrow> key \<Rightarrow> ('t merkle_tree, 'e merkle_error) outcome" where
  "mt_delete lib L m k =
     outcome_bind (store_type_sub_key lib k) (\<lambda>(st, sub).
       mt_update_tree L m st (smt_hash L (key_string lib sub)) (smt_zero L))"

definition merkle_tree_default :: "('t, 'h, 's) smt_lib \<Rightarrow> 't merkle_tree" where
  "merkle_tree_default L =
     \<lparr> mt_base = smt_default L, mt_account = smt_default L, mt_ibc = smt_default L, mt_pos = smt_default L \<rparr>"

definition mt_root :: "('t, 'h, 's) smt_lib \<Rightarrow> 't merkle_tree \<Rightarrow> 'h" where
  "mt_root L m = smt_root L (mt_base m)"

section \<open>Stores\<close>

text \<open>The roots and stores of the trees, as they are written to and read from the database.\<close>

record ('h, 's) merkle_stores =
  ms_base :: "'h \<times> 's"
  ms_account :: "'h \<times> 's"
  ms_ibc :: "'h \<times> 's"
  ms_pos :: "'h \<times> 's"

definition merkle_stores_default :: "('t, 'h, 's) smt_lib \<Rightarrow> ('h, 's) merkle_stores" where
  "merkle_stores_default L =
     (let d = (smt_zero L, smt_default_store L)
      in \<lparr> ms_base = d, ms_account = d, ms_ibc = d, ms_pos = d \<rparr>)"

fun ms_set_root :: "store_type \<Rightarrow> 'h \<Rightarrow> ('h, 's) merkle_stores \<Rightarrow> ('h, 's) merkle_stores" where
  "ms_set_root BaseStore r ms = ms\<lparr> ms_base := (r, snd (ms_base ms)) \<rparr>"
| "ms_set_root AccountStore r ms = ms\<lparr> ms_account := (r, snd (ms_account ms)) \<rparr>"
| "ms_set_root IbcStore r ms = ms\<lparr> ms_ibc := (r, snd (ms_ibc ms)) \<rparr>"
| "ms_set_root PosStore r ms = ms\<lparr> ms_pos := (r, snd (ms_pos ms)) \<rparr>"

fun ms_set_store :: "store_type \<Rightarrow> 's \<Rightarrow> ('h, 's) merkle_stores \<Rightarrow> ('h, 's) merkle_stores" where
  "ms_set_store BaseStore s ms = ms\<lparr> ms_base := (fst (ms_base ms), s) \<rparr>"
| "ms_set_store AccountStore s ms = ms\<lparr> ms_account := (fst (ms_account ms), s) \<rparr>"
| "ms_set_store IbcStore s ms = ms\<lparr> ms_ibc := (fst (ms_ibc ms), s) \<rparr>"
| "ms_set_store PosStore s ms = ms\<lparr> ms_pos := (fst (ms_pos ms), s) \<rparr>"

fun ms_get :: "('h, 's) merkle_stores \<Rightarrow> store_type \<Rightarrow> 'h \<times> 's" where
  "ms_get ms BaseStore = ms_base ms"
| "ms_get ms AccountStore = ms_account ms"
| "ms_get ms IbcStore = ms_ibc ms"
| "ms_get ms PosStore = ms_pos ms"

definition ms_root :: "('h, 's) merkle_stores \<Rightarrow> store_type \<Rightarrow> 'h" where
  "ms_root ms st = fst (ms_get ms st)"

definition ms_store :: "('h, 's) merkle_stores \<Rightarrow> store_type \<Rightarrow> 's" where
  "ms_store ms st = snd (ms_get ms st)"

definition mt_stores :: "('t, 'h, 's) smt_lib \<Rightarrow> 't merkle_tree \<Rightarrow> ('h, 's) merkle_stores" where
  "mt_stores L m =
     \<lparr> ms_base = (smt_root L (mt_base m), smt_store L (mt_base m)),
       ms_account = (smt_root L (mt_account m), smt_store L (mt_account m)),
       ms_ibc = (smt_root L (mt_ibc m), smt_store L (mt_ibc m)),
       ms_pos = (smt_root L (mt_pos m), smt_store L (mt_pos m)) \<rparr>"

definition mt_new :: "('t, 'h, 's) smt_lib \<Rightarrow> ('h, 's) merkle_stores \<Rightarrow> 't merkle_tree" where
  "mt_new L ms =
     \<lparr> mt_base = smt_new L (fst (ms_base ms)) (snd (ms_base ms)),
       mt_account = smt_new L (fst (ms_account ms)) (snd (ms_account ms)),
       mt_ibc = smt_new L (fst (ms_ibc ms)) (snd (ms_ibc ms)),
       mt_pos = smt_new L (fst (ms_pos ms)) (snd (ms_pos ms)) \<rparr>"

lemma mt_new_stores: "smt_laws L \<Longrightarrow> mt_new L (mt_stores L m) = m"
  by (simp add: mt_new_def mt_stores_def smt_laws_def)

lemma ms_set_get:
  "ms_get (ms_set_root st r ms) st' = (if st' = st then (r, snd (ms_get ms st)) else ms_get ms st')"
  "ms_get (ms_set_store st s ms) st' = (if st' = st then (fst (ms_get ms st), s) else ms_get ms st')"
  by (cases st; cases st'; simp)+

lemma ms_eqI: "(\<And>st. ms_get (ms :: ('h, 's) merkle_stores) st = ms_get ms' st) \<Longrightarrow> ms = ms'"
  by (metis ms_get.simps merkle_stores.equality old.unit.exhaust)

section \<open>Which keys share an entry\<close>

text \<open>The place of a key in the tree.\<close>

definition mt_slot :: "'e bech32_lib \<Rightarrow> ('t, 'h, 's) smt_lib \<Rightarrow> key \<Rightarrow> (store_type \<times> 'h) option" where
  "mt_slot lib L k =
     (case store_type_sub_key lib k of
        Ok (st, sub) \<Rightarrow> Some (st, smt_hash L (key_string lib sub))
      | _ \<Rightarrow> None)"

lemma store_type_sub_key_not_base: "store_type_sub_key lib k = Ok (st, sub) \<Longrightarrow> st \<noteq> BaseStore"
  by (auto simp: store_type_sub_key_def outcome_simps split: if_splits list.splits db_key_seg.splits
      address.splits internal_address.splits)

lemma mt_tree_update:
  fixes L :: "('t, 'h, 's) smt_lib"
  assumes "smt_laws L" "st \<noteq> BaseStore"
  shows "\<exists>m'. (mt_update_tree L m st k v :: ('t merkle_tree, 'e merkle_error) outcome) = Ok m' \<and>
    (\<forall>st' k'. st' \<noteq> BaseStore \<longrightarrow> smt_get L (mt_tree m' st') k' =
      (if st' = st \<and> k' = k then Some v else smt_get L (mt_tree m st') k'))"
proof -
  obtain t root where t: "smt_update L (mt_tree m st) k v = Some (t, root)"
    "\<forall>k'. smt_get L t k' = (if k' = k then Some v else smt_get L (mt_tree m st) k')"
    using assms(1) unfolding smt_laws_def by meson
  define m1 where "m1 = (case st of
      AccountStore \<Rightarrow> m\<lparr> mt_account := t \<rparr> | IbcStore \<Rightarrow> m\<lparr> mt_ibc := t \<rparr> | _ \<Rightarrow> m\<lparr> mt_pos := t \<rparr>)"
  obtain b root' where "smt_update L (mt_base m1) (smt_hash L (store_type_to_string st)) root = Some (b, root')"
    using assms(1) unfolding smt_laws_def by meson
  then have "(mt_update_tree L m st k v :: ('t merkle_tree, 'e merkle_error) outcome) = Ok (m1\<lparr> mt_base := b \<rparr>)"
    using assms(2) t(1) by (simp add: mt_update_tree_def m1_def)
  moreover have "mt_tree (m1\<lparr> mt_base := b \<rparr>) st' = (if st' = st then t else mt_tree m st')" if "st' \<noteq> BaseStore" for st'
    using assms(2) that by (cases st; cases st') (simp_all add: mt_tree_def m1_def)
  ultimately show ?thesis
    using t(2) by (intro exI [of _ "m1\<lparr> mt_base := b \<rparr>"]) auto
qed

lemma mt_has_key_slot:
  assumes "smt_laws L" "mt_slot lib L k = Some (st, h)"
  shows "mt_has_key lib L m k = Ok (smt_get L (mt_tree m st) h \<noteq> Some (smt_zero L)) \<and> st \<noteq> BaseStore"
proof -
  obtain sub where sub: "store_type_sub_key lib k = Ok (st, sub)" "h = smt_hash L (key_string lib sub)"
    using assms(2) by (auto simp: mt_slot_def split: outcome.splits)
  moreover obtain v where "smt_get L (mt_tree m st) h = Some v"
    using assms(1) unfolding smt_laws_def by (meson not_None_eq)
  ultimately show ?thesis
    using store_type_sub_key_not_base [OF sub(1)] by (simp add: mt_has_key_def)
qed

lemma mt_slot_Ok:
  assumes "mt_slot lib L k \<noteq> None"
  obtains st sub where "store_type_sub_key lib k = Ok (st, sub)"
  using assms by (auto simp: mt_slot_def split: outcome.splits)

text \<open>An update or a deletion is seen exactly by the keys with the same place.\<close>

lemma mt_set_has_key:
  fixes lib :: "'e bech32_lib" and L :: "('t, 'h, 's) smt_lib"
  assumes "smt_laws L" "store_type_sub_key lib k = Ok (st, sub)" "mt_slot lib L k' \<noteq> None"
  shows "\<exists>m'. (mt_update_tree L m st (smt_hash L (key_string lib sub)) v :: ('t merkle_tree, 'e merkle_error) outcome) = Ok m' \<and>
    mt_has_key lib L m' k' =
      (if mt_slot lib L k' = mt_slot lib L k then Ok (v \<noteq> smt_zero L) else mt_has_key lib L m k')"
proof -
  let ?h = "smt_hash L (key_string lib sub)"
  obtain st' h' where slot: "mt_slot lib L k' = Some (st', h')"
    using assms(3) by auto
  obtain m' where m': "(mt_update_tree L m st ?h v :: ('t merkle_tree, 'e merkle_error) outcome) = Ok m'"
    "\<forall>st' k'. st' \<noteq> BaseStore \<longrightarrow> smt_get L (mt_tree m' st') k' =
      (if st' = st \<and> k' = ?h then Some v else smt_get L (mt_tree m st') k')"
    using mt_tree_update [OF assms(1) store_type_sub_key_not_base [OF assms(2)], where 'e = 'e] by meson
  have "mt_slot lib L k = Some (st, ?h)"
    using assms(2) by (simp add: mt_slot_def)
  with m'(2) have "mt_has_key lib L m' k' =
      (if mt_slot lib L k' = mt_slot lib L k then Ok (v \<noteq> smt_zero L) else mt_has_key lib L m k')"
    using mt_has_key_slot [OF assms(1) slot] by (simp add: slot)
  with m'(1) show ?thesis by blast
qed

lemma mt_update_has_key:
  assumes "smt_laws L" "mt_slot lib L k \<noteq> None" "mt_slot lib L k' \<noteq> None"
  shows "\<exists>m'. mt_update lib L m k value = Ok m' \<and>
    mt_has_key lib L m' k' = (if mt_slot lib L k' = mt_slot lib L k then Ok True else mt_has_key lib L m k')"
proof -
  obtain st sub where sub: "store_type_sub_key lib k = Ok (st, sub)"
    using assms(2) by (rule mt_slot_Ok)
  moreover have "smt_hash L value \<noteq> smt_zero L"
    using assms(1) by (simp add: smt_laws_def)
  ultimately show ?thesis
    using mt_set_has_key [OF assms(1) sub assms(3), of m "smt_hash L value"]
    by (cases "mt_slot lib L k' = mt_slot lib L k") (simp_all add: mt_update_def)
qed

lemma mt_delete_has_key:
  assumes "smt_laws L" "mt_slot lib L k \<noteq> None" "mt_slot lib L k' \<noteq> None"
  shows "\<exists>m'. mt_delete lib L m k = Ok m' \<and>
    mt_has_key lib L m' k' = (if mt_slot lib L k' = mt_slot lib L k then Ok False else mt_has_key lib L m k')"
proof -
  obtain st sub where sub: "store_type_sub_key lib k = Ok (st, sub)"
    using assms(2) by (rule mt_slot_Ok)
  then show ?thesis
    using mt_set_has_key [OF assms(1) sub assms(3), of m "smt_zero L"]
    by (cases "mt_slot lib L k' = mt_slot lib L k") (simp_all add: mt_delete_def)
qed

text \<open>
  A tree that is a list of places and hashes, where the hash of a value is the value itself.
\<close>

definition example_smt ::
  "((string option \<times> string option) list, string option, (string option \<times> string option) list) smt_lib" where
  "example_smt =
     \<lparr> smt_get = (\<lambda>t k. Some (case hm_get t k of None \<Rightarrow> None | Some v \<Rightarrow> v)),
       smt_update = (\<lambda>t k v. Some (hm_insert k v t, v)),
       smt_root = (\<lambda>t. None), smt_store = (\<lambda>t. t), smt_new = (\<lambda>_ s. s), smt_default = [],
       smt_default_store = [], smt_zero = None, smt_hash = Some \<rparr>"

lemma example_smt_laws: "smt_laws example_smt"
  by (auto simp: smt_laws_def example_smt_def)

text \<open>
  Claim C33. Two different accounts share entries of the Merkle tree: a key of the proof-of-stake
  account and the key with the same sub-segments of its slash pool have the same place, because the
  first segment is dropped for both. After a value is written under the first key, whatever the tree
  was, the tree reports the second one as present, and after a deletion of the first as absent.
\<close>

theorem merkle_slash_pool_collision:
  assumes "smt_laws L" "rest \<noteq> []"
    and "key_string lib (Key (AddressSeg (Internal PoS) # rest)) \<noteq> []"
    and "key_string lib (Key (AddressSeg (Internal PosSlashPool) # rest)) \<noteq> []"
  shows "(\<exists>m'. mt_update lib L m (Key (AddressSeg (Internal PoS) # rest)) value = Ok m' \<and>
      mt_has_key lib L m' (Key (AddressSeg (Internal PosSlashPool) # rest)) = Ok True) \<and>
    (\<exists>m'. mt_delete lib L m (Key (AddressSeg (Internal PoS) # rest)) = Ok m' \<and>
      mt_has_key lib L m' (Key (AddressSeg (Internal PosSlashPool) # rest)) = Ok False)"
proof -
  let ?k = "Key (AddressSeg (Internal PoS) # rest)" and ?k' = "Key (AddressSeg (Internal PosSlashPool) # rest)"
  have slots: "mt_slot lib L ?k = mt_slot lib L ?k'" "mt_slot lib L ?k \<noteq> None" "mt_slot lib L ?k' \<noteq> None"
    using assms(2-4) by (simp_all add: mt_slot_def store_type_sub_key_def sub_key_def)
  show ?thesis
    using mt_update_has_key [OF assms(1) slots(2,3), of m "value"]
      mt_delete_has_key [OF assms(1) slots(2,3), of m] slots(1) by simp
qed

theorem merkle_slash_pool_collision_witness:
  "smt_laws example_smt \<and>
   (\<exists>m'. mt_update example_bech32 example_smt
      (merkle_tree_default example_smt)
      (Key [AddressSeg (Internal PoS), StringSeg ''params'']) ''v'' = Ok m' \<and>
    mt_has_key example_bech32 example_smt m'
      (Key [AddressSeg (Internal PosSlashPool), StringSeg ''params'']) = Ok True)"
proof -
  have "key_string example_bech32 (Key [AddressSeg (Internal PoS), StringSeg ''params'']) \<noteq> []"
    and "key_string example_bech32 (Key [AddressSeg (Internal PosSlashPool), StringSeg ''params'']) \<noteq> []"
    by code_simp+
  then show ?thesis
    using merkle_slash_pool_collision [OF example_smt_laws, of "[StringSeg ''params'']" example_bech32
        "merkle_tree_default example_smt" "''v''"]
      example_smt_laws by simp
qed

end
