(* ===== verification/Db_Types.thy ===== *)
theory Db_Types
  imports Merkle "HOL-Library.Countable"
begin

text \<open>
  What the storage and its database backends share (\<^verbatim>\<open>shared/src/ledger/storage/mod.rs\<close>, the trait
  \<^verbatim>\<open>DB\<close>, and \<^verbatim>\<open>shared/src/ledger/storage/types.rs\<close>): the data of a block in the database, the layout of
  the database keys, and the interface of a backend as a record of operations with the laws a client
  of the interface uses. Borsh encoding is the parameter \<open>borsh_lib\<close>; \<^verbatim>\<open>DateTimeUtc\<close> is the type variable
  \<open>'time\<close> and a wrapper transaction the type variable \<open>'w\<close>.
\<close>

datatype 'e db_error =
    DbTemporary
  | UnknownKey string
  | DbKeyError "'e storage_error"
  | CodingError
  | MerkleTreeError "'e merkle_error"
  | DBError string
  | BorshCodingError
  | NoMerkleTree block_height

record 'time header =
  header_hash :: string
  header_time :: 'time
  next_validators_hash :: string

record ('h, 's, 'time, 'w) block_state =
  bs_stores :: "('h, 's) merkle_stores"
  bs_hash :: string
  bs_height :: block_height
  bs_epoch :: u64
  bs_pred_epochs :: epochs
  bs_next_epoch_min_start_height :: block_height
  bs_next_epoch_min_start_time :: 'time
  bs_address_gen :: established_address_gen
  bs_tx_queue :: "'w tx_queue"

text \<open>\<^verbatim>\<open>BlockStateWrite\<close> has the fields of \<^verbatim>\<open>BlockStateRead\<close> and the header.\<close>

record ('h, 's, 'time, 'w) block_state_write =
  bw_state :: "('h, 's, 'time, 'w) block_state"
  bw_header :: "'time header option"

section \<open>Encoding\<close>

text \<open>
  \<^verbatim>\<open>types::encode\<close> and \<^verbatim>\<open>types::decode\<close> at the types the storage uses, and \<^verbatim>\<open>try_to_vec\<close> and
  \<^verbatim>\<open>try_from_slice\<close> of a header; \<^const>\<open>None\<close> is a decoding error.
\<close>

record ('h, 's, 'time, 'w) borsh_lib =
  enc_height :: "block_height \<Rightarrow> string"
  dec_height :: "string \<Rightarrow> block_height option"
  enc_time :: "'time \<Rightarrow> string"
  dec_time :: "string \<Rightarrow> 'time option"
  enc_tx_queue :: "'w tx_queue \<Rightarrow> string"
  dec_tx_queue :: "string \<Rightarrow> 'w tx_queue option"
  enc_root :: "'h \<Rightarrow> string"
  dec_root :: "string \<Rightarrow> 'h option"
  enc_store :: "'s \<Rightarrow> string"
  dec_store :: "string \<Rightarrow> 's option"
  enc_block_hash :: "string \<Rightarrow> string"
  dec_block_hash :: "string \<Rightarrow> string option"
  enc_epoch :: "u64 \<Rightarrow> string"
  dec_epoch :: "string \<Rightarrow> u64 option"
  enc_pred_epochs :: "epochs \<Rightarrow> string"
  dec_pred_epochs :: "string \<Rightarrow> epochs option"
  enc_address_gen :: "established_address_gen \<Rightarrow> string"
  dec_address_gen :: "string \<Rightarrow> established_address_gen option"
  enc_header :: "'time header \<Rightarrow> string"
  dec_header :: "string \<Rightarrow> 'time header option"

text \<open>Decoding undoes encoding.\<close>

definition borsh_laws :: "('h, 's, 'time, 'w) borsh_lib \<Rightarrow> bool" where
  "borsh_laws B \<longleftrightarrow>
     (\<forall>x. dec_height B (enc_height B x) = Some x) \<and> (\<forall>x. dec_time B (enc_time B x) = Some x) \<and>
     (\<forall>x. dec_tx_queue B (enc_tx_queue B x) = Some x) \<and> (\<forall>x. dec_root B (enc_root B x) = Some x) \<and>
     (\<forall>x. dec_store B (enc_store B x) = Some x) \<and> (\<forall>x. dec_block_hash B (enc_block_hash B x) = Some x) \<and>
     (\<forall>x. dec_epoch B (enc_epoch B x) = Some x) \<and> (\<forall>x. dec_pred_epochs B (enc_pred_epochs B x) = Some x) \<and>
     (\<forall>x. dec_address_gen B (enc_address_gen B x) = Some x) \<and> (\<forall>x. dec_header B (enc_header B x) = Some x)"

text \<open>The external crates together.\<close>

record ('e, 't, 'h, 's, 'time, 'w) node_env =
  ne_bech32 :: "'e bech32_lib"
  ne_smt :: "('t, 'h, 's) smt_lib"
  ne_borsh :: "('h, 's, 'time, 'w) borsh_lib"

definition node_laws :: "('e, 't, 'h, 's, 'time, 'w) node_env \<Rightarrow> bool" where
  "node_laws E \<longleftrightarrow> bech32_laws (ne_bech32 E) \<and> smt_laws (ne_smt E) \<and> borsh_laws (ne_borsh E)"

text \<open>\<^verbatim>\<open>types::decode(bytes).map_err(Error::CodingError)?\<close>.\<close>

definition decode_or :: "(string \<Rightarrow> 'a option) \<Rightarrow> string \<Rightarrow> ('a, 'e db_error) outcome" where
  "decode_or dec bytes = ok_or (dec bytes) CodingError"

section \<open>Database keys\<close>

definition db_push :: "'e bech32_lib \<Rightarrow> key \<Rightarrow> string \<Rightarrow> (key, 'e db_error) outcome" where
  "db_push lib k s = map_err DbKeyError (key_push lib k s)"

definition height_key :: "block_height \<Rightarrow> key" where
  "height_key h = key_from_seg (StringSeg (block_height_seg_raw h))"

definition subspace_key :: "'e bech32_lib \<Rightarrow> key \<Rightarrow> (string, 'e db_error) outcome" where
  "subspace_key lib k =
     outcome_bind (map_err DbKeyError (key_parse lib ''subspace'')) (\<lambda>s. Ok (key_string lib (key_join s k)))"

lemma db_push_lit:
  "s = c # s' \<Longrightarrow> c \<noteq> CHR ''#'' \<Longrightarrow> CHR ''/'' \<notin> set s \<Longrightarrow> db_push lib (Key segs) s = Ok (Key (segs @ [StringSeg s]))"
  by (simp add: db_push_def key_push_def db_key_seg_parse_def key_constants)

lemma subspace_key_eq: "subspace_key lib k = Ok (key_string lib (Key (StringSeg ''subspace'' # segments k)))"
  by (simp add: subspace_key_def key_parse_def db_key_seg_parse_def key_constants key_join_def)

lemma key_string_StringSeg:
  assumes "bech32_laws lib" "key_wf k"
  shows "key_string lib (Key (StringSeg s # segments k)) = s @ CHR ''/'' # key_string lib k"
proof -
  obtain parts where "collect_raws lib (segments k) = Some parts" "length parts = length (segments k)"
    using parse_segments_raws [OF assms(1)] assms(2) unfolding key_wf_def by blast
  moreover from this(2) assms(2) have "parts \<noteq> []"
    by (auto simp: key_wf_def)
  ultimately show ?thesis
    by (simp add: key_string_def key_to_string_def db_key_seg_raw_def str_join_Cons key_constants)
qed

lemma key_parse_key_string:
  assumes "bech32_laws lib" "key_wf k"
  shows "key_parse lib (key_string lib k) = Ok k"
proof -
  obtain s where "key_to_string lib k = Some s" "key_parse lib s = Ok k"
    by (rule key_parse_to_string [OF assms])
  then show ?thesis by (simp add: key_string_def)
qed

lemma key_string_inject:
  "bech32_laws lib \<Longrightarrow> key_wf k \<Longrightarrow> key_wf k' \<Longrightarrow> key_string lib k = key_string lib k' \<Longrightarrow> k = k'"
  by (metis key_parse_key_string outcome.inject(1))

lemma key_string_not_Nil:
  assumes "bech32_laws lib" "key_wf k" "segments k \<noteq> [StringSeg []]"
  shows "key_string lib k \<noteq> []"
proof
  assume "key_string lib k = []"
  then have "key_parse lib [] = Ok k"
    using key_parse_key_string [OF assms(1,2)] by simp
  then have "k = Key [StringSeg []]"
    by (simp add: key_parse_def db_key_seg_parse_def)
  with assms(3) show False by simp
qed

section \<open>The interface of a backend\<close>

text \<open>
  A batch write of \<^verbatim>\<open>MockDB\<close> changes the database at once, so the batch operations return the database
  as well. \<open>db_iter_prefix\<close> gives the pairs an iterator returns, with their gas; \<^const>\<open>None\<close> is a panic.
\<close>

record ('d, 'b, 'e, 'h, 's, 'time, 'w) db_ops =
  db_read_last_block :: "'d \<Rightarrow> (('h, 's, 'time, 'w) block_state option, 'e db_error) outcome"
  db_write_block :: "'d \<Rightarrow> ('h, 's, 'time, 'w) block_state_write \<Rightarrow> ('d, 'e db_error) outcome"
  db_read_block_header :: "'d \<Rightarrow> block_height \<Rightarrow> ('time header option, 'e db_error) outcome"
  db_read_merkle_tree_stores ::
    "'d \<Rightarrow> block_height \<Rightarrow> (('h, 's) merkle_stores option, 'e db_error) outcome"
  db_read_subspace_val :: "'d \<Rightarrow> key \<Rightarrow> (string option, 'e db_error) outcome"
  db_read_subspace_val_with_height :: "'d \<Rightarrow> key \<Rightarrow> block_height \<Rightarrow> (string option, 'e db_error) outcome"
  db_write_subspace_val :: "'d \<Rightarrow> block_height \<Rightarrow> key \<Rightarrow> string \<Rightarrow> ('d \<times> i64, 'e db_error) outcome"
  db_delete_subspace_val :: "'d \<Rightarrow> block_height \<Rightarrow> key \<Rightarrow> ('d \<times> i64, 'e db_error) outcome"
  db_batch :: 'b
  db_exec_batch :: "'d \<Rightarrow> 'b \<Rightarrow> ('d, 'e db_error) outcome"
  db_batch_write_subspace_val ::
    "'d \<Rightarrow> 'b \<Rightarrow> block_height \<Rightarrow> key \<Rightarrow> string \<Rightarrow> ('d \<times> 'b \<times> i64, 'e db_error) outcome"
  db_batch_delete_subspace_val ::
    "'d \<Rightarrow> 'b \<Rightarrow> block_height \<Rightarrow> key \<Rightarrow> ('d \<times> 'b \<times> i64, 'e db_error) outcome"
  db_iter_prefix :: "'d \<Rightarrow> key \<Rightarrow> (string \<times> string \<times> u64) list option"

text \<open>
  The contract: the values of the good keys form a map that writes and deletes update at one key, and a
  batch is a view of the map as it will be when the batch is executed.
\<close>

locale subspace_db =
  fixes ops :: "('d, 'b, 'e, 'h, 's, 'time, 'w) db_ops"
    and good :: "key \<Rightarrow> bool"
    and view :: "'d \<Rightarrow> key \<Rightarrow> string option"
    and batch_view :: "'d \<Rightarrow> 'b \<Rightarrow> key \<Rightarrow> string option"
  assumes read_view: "good k \<Longrightarrow> db_read_subspace_val ops d k = Ok (view d k)"
    and write_view: "good k \<Longrightarrow> \<exists>d' n. db_write_subspace_val ops d h k v = Ok (d', n) \<and>
      (\<forall>k'. good k' \<longrightarrow> view d' k' = (if k' = k then Some v else view d k'))"
    and delete_view: "good k \<Longrightarrow> \<exists>d' n. db_delete_subspace_val ops d h k = Ok (d', n) \<and>
      (\<forall>k'. good k' \<longrightarrow> view d' k' = (if k' = k then None else view d k'))"
    and batch_start: "good k \<Longrightarrow> batch_view d (db_batch ops) k = view d k"
    and batch_write_view: "good k \<Longrightarrow> \<exists>d' b' n. db_batch_write_subspace_val ops d b h k v = Ok (d', b', n) \<and>
      (\<forall>k'. good k' \<longrightarrow> batch_view d' b' k' = (if k' = k then Some v else batch_view d b k'))"
    and batch_delete_view: "good k \<Longrightarrow> \<exists>d' b' n. db_batch_delete_subspace_val ops d b h k = Ok (d', b', n) \<and>
      (\<forall>k'. good k' \<longrightarrow> batch_view d' b' k' = (if k' = k then None else batch_view d b k'))"
    and exec_view: "good k \<Longrightarrow> \<exists>d'. db_exec_batch ops d b = Ok d' \<and>
      (\<forall>k'. good k' \<longrightarrow> view d' k' = batch_view d b k')"

section \<open>An example of the encoding\<close>

text \<open>
  Every countable type has an encoding that satisfies the law; it serves closed examples.
\<close>

definition enc_any :: "'a :: countable \<Rightarrow> string" where
  "enc_any x = replicate (to_nat x) CHR ''x''"

definition dec_any :: "string \<Rightarrow> 'a :: countable option" where
  "dec_any s = Some (from_nat (length s))"

lemma dec_enc_any [simp]: "dec_any (enc_any x) = Some x"
  by (simp add: dec_any_def enc_any_def)

definition example_borsh ::
  "(string option, (string option \<times> string option) list, nat, 'w :: countable) borsh_lib" where
  "example_borsh =
     \<lparr> enc_height = (\<lambda>h. enc_any (unat h)), dec_height = (\<lambda>s. map_option of_nat (dec_any s)),
       enc_time = enc_any, dec_time = dec_any,
       enc_tx_queue = (\<lambda>q. enc_any (next_wrapper q, wrapper_queue q)),
       dec_tx_queue = (\<lambda>s. map_option (\<lambda>(n, ws). \<lparr> next_wrapper = n, wrapper_queue = ws \<rparr>) (dec_any s)),
       enc_root = enc_any, dec_root = dec_any, enc_store = enc_any, dec_store = dec_any,
       enc_block_hash = enc_any, dec_block_hash = dec_any,
       enc_epoch = (\<lambda>h. enc_any (unat h)), dec_epoch = (\<lambda>s. map_option of_nat (dec_any s)),
       enc_pred_epochs = (\<lambda>es. enc_any (unat (first_known_epoch es), map unat (first_block_heights es))),
       dec_pred_epochs = (\<lambda>s. map_option (\<lambda>(e, hs). \<lparr> first_known_epoch = of_nat e, first_block_heights = map of_nat hs \<rparr>) (dec_any s)),
       enc_address_gen = (\<lambda>g. enc_any (last_hash g)), dec_address_gen = (\<lambda>s. map_option (\<lambda>h. \<lparr> last_hash = h \<rparr>) (dec_any s)),
       enc_header = (\<lambda>h. enc_any (header_hash h, header_time h, next_validators_hash h)),
       dec_header = (\<lambda>s. map_option (\<lambda>(a, b, c). \<lparr> header_hash = a, header_time = b, next_validators_hash = c \<rparr>) (dec_any s)) \<rparr>"

lemma example_borsh_laws: "borsh_laws example_borsh"
  by (simp add: borsh_laws_def example_borsh_def o_def map_idI)

definition example_env ::
  "(unit, (string option \<times> string option) list, string option, (string option \<times> string option) list, nat, 'w :: countable) node_env" where
  "example_env = \<lparr> ne_bech32 = example_bech32, ne_smt = example_smt, ne_borsh = example_borsh \<rparr>"

lemma example_env_laws: "node_laws example_env"
  by (simp add: node_laws_def example_env_def example_bech32_laws example_smt_laws example_borsh_laws)

end
