(* ===== verification/Mock_DB.thy ===== *)
theory Mock_DB
  imports Db_Types
begin

text \<open>
  The in-memory backend, \<^verbatim>\<open>shared/src/ledger/storage/mockdb.rs\<close>: a \<^verbatim>\<open>BTreeMap\<close> from strings to bytes.
  The map is an association list that is sorted whenever it is visited. The functions that lay out a
  block under its height and read it back are used by the persistent backend as well, which repeats
  their code.
\<close>

type_synonym mock_db = "(string \<times> string) list"

text \<open>\<^verbatim>\<open>BTreeMap::range\<close> with an included and an excluded bound panics when the bounds are out of order.\<close>

definition bt_range :: "('k :: linorder \<times> 'v) list \<Rightarrow> 'k \<Rightarrow> 'k \<Rightarrow> ('k \<times> 'v) list option" where
  "bt_range m lo hi =
     (if hi < lo then None else Some (filter (\<lambda>(k, _). lo \<le> k \<and> k < hi) (sort_key fst m)))"

section \<open>The entries of a block\<close>

definition tree_entries ::
  "('e, 't, 'h, 's, 'time, 'w) node_env \<Rightarrow> ('h, 's) merkle_stores \<Rightarrow> key \<Rightarrow> store_type
     \<Rightarrow> ((string \<times> string) list, 'e db_error) outcome" where
  "tree_entries E ms tree_key st =
     outcome_bind (db_push (ne_bech32 E) tree_key (store_type_to_string st)) (\<lambda>prefix_key.
     outcome_bind (db_push (ne_bech32 E) prefix_key ''root'') (\<lambda>root_key.
     outcome_bind (db_push (ne_bech32 E) prefix_key ''store'') (\<lambda>store_key.
       Ok [(key_string (ne_bech32 E) root_key, enc_root (ne_borsh E) (ms_root ms st)),
           (key_string (ne_bech32 E) store_key, enc_store (ne_borsh E) (ms_store ms st))])))"

fun concat_entries :: "('a \<Rightarrow> ('b list, 'e) outcome) \<Rightarrow> 'a list \<Rightarrow> ('b list, 'e) outcome" where
  "concat_entries f [] = Ok []"
| "concat_entries f (x # xs) =
     outcome_bind (f x) (\<lambda>es. outcome_bind (concat_entries f xs) (\<lambda>es'. Ok (es @ es')))"

definition height_entries ::
  "('e, 't, 'h, 's, 'time, 'w) node_env \<Rightarrow> ('h, 's, 'time, 'w) block_state_write
     \<Rightarrow> ((string \<times> string) list, 'e db_error) outcome" where
  "height_entries E bw =
     (let lib = ne_bech32 E; B = ne_borsh E; st = bw_state bw; prefix_key = height_key (bs_height st)
      in outcome_bind (db_push lib prefix_key ''tree'') (\<lambda>tree_key.
         outcome_bind (concat_entries (tree_entries E (bs_stores st) tree_key) store_types) (\<lambda>tree.
         outcome_bind (db_push lib prefix_key ''header'') (\<lambda>header_key.
         outcome_bind (db_push lib prefix_key ''hash'') (\<lambda>hash_key.
         outcome_bind (db_push lib prefix_key ''epoch'') (\<lambda>epoch_key.
         outcome_bind (db_push lib prefix_key ''pred_epochs'') (\<lambda>pred_epochs_key.
         outcome_bind (db_push lib prefix_key ''address_gen'') (\<lambda>address_gen_key.
           Ok (tree
               @ (case bw_header bw of
                    None \<Rightarrow> []
                  | Some h \<Rightarrow> [(key_string lib header_key, enc_header B h)])
               @ [(key_string lib hash_key, enc_block_hash B (bs_hash st)),
                  (key_string lib epoch_key, enc_epoch B (bs_epoch st)),
                  (key_string lib pred_epochs_key, enc_pred_epochs B (bs_pred_epochs st)),
                  (key_string lib address_gen_key, enc_address_gen B (bs_address_gen st))])))))))))"

definition mock_insert :: "mock_db \<Rightarrow> string \<times> string \<Rightarrow> mock_db" where
  "mock_insert db e = hm_insert (fst e) (snd e) db"

definition mock_write_block ::
  "('e, 't, 'h, 's, 'time, 'w) node_env \<Rightarrow> mock_db \<Rightarrow> ('h, 's, 'time, 'w) block_state_write
     \<Rightarrow> (mock_db, 'e db_error) outcome" where
  "mock_write_block E db bw =
     (let B = ne_borsh E; st = bw_state bw
      in outcome_bind (height_entries E bw) (\<lambda>entries.
           Ok (foldl mock_insert db
                 ([(''next_epoch_min_start_height'', enc_height B (bs_next_epoch_min_start_height st)),
                   (''next_epoch_min_start_time'', enc_time B (bs_next_epoch_min_start_time st)),
                   (''tx_queue'', enc_tx_queue B (bs_tx_queue st))]
                  @ entries @ [(''height'', enc_height B (bs_height st))]))))"

section \<open>Reading a block\<close>

text \<open>The variables of the loop over the entries of a height.\<close>

record ('h, 's) block_read =
  br_stores :: "('h, 's) merkle_stores"
  br_hash :: "string option"
  br_epoch :: "u64 option"
  br_pred_epochs :: "epochs option"
  br_address_gen :: "established_address_gen option"

text \<open>
  One turn of the loop. The persistent backend has one more case, for the entries of the differences
  that it keeps, which the flag switches on.
\<close>

definition read_block_entry ::
  "('e, 't, 'h, 's, 'time, 'w) node_env \<Rightarrow> bool \<Rightarrow> ('h, 's) block_read \<Rightarrow> string \<times> string
     \<Rightarrow> (('h, 's) block_read, 'e db_error) outcome" where
  "read_block_entry E has_diffs acc entry =
     (let B = ne_borsh E; path = fst entry; bytes = snd entry;
          segs = str_split KEY_SEGMENT_SEPARATOR path
      in case vec_get segs 1 of
           None \<Rightarrow> Err (UnknownKey path)
         | Some kind \<Rightarrow>
             if kind = ''tree'' then
               (case vec_get segs 2 of
                  None \<Rightarrow> Err (UnknownKey path)
                | Some s \<Rightarrow>
                    outcome_bind (map_err MerkleTreeError (store_type_from_str s)) (\<lambda>st.
                      if vec_get segs 3 = Some ''root'' then
                        outcome_bind (decode_or (dec_root B) bytes) (\<lambda>r.
                          Ok (acc\<lparr> br_stores := ms_set_root st r (br_stores acc) \<rparr>))
                      else if vec_get segs 3 = Some ''store'' then
                        outcome_bind (decode_or (dec_store B) bytes) (\<lambda>s.
                          Ok (acc\<lparr> br_stores := ms_set_store st s (br_stores acc) \<rparr>))
                      else Err (UnknownKey path)))
             else if kind = ''header'' then Ok acc
             else if kind = ''hash'' then
               outcome_bind (decode_or (dec_block_hash B) bytes) (\<lambda>x. Ok (acc\<lparr> br_hash := Some x \<rparr>))
             else if kind = ''epoch'' then
               outcome_bind (decode_or (dec_epoch B) bytes) (\<lambda>x. Ok (acc\<lparr> br_epoch := Some x \<rparr>))
             else if kind = ''pred_epochs'' then
               outcome_bind (decode_or (dec_pred_epochs B) bytes) (\<lambda>x. Ok (acc\<lparr> br_pred_epochs := Some x \<rparr>))
             else if kind = ''address_gen'' then
               outcome_bind (decode_or (dec_address_gen B) bytes) (\<lambda>x. Ok (acc\<lparr> br_address_gen := Some x \<rparr>))
             else if has_diffs \<and> kind = ''diffs'' then Ok acc
             else Err (UnknownKey path))"

fun read_block_entries ::
  "('e, 't, 'h, 's, 'time, 'w) node_env \<Rightarrow> bool \<Rightarrow> ('h, 's) block_read \<Rightarrow> (string \<times> string) list
     \<Rightarrow> (('h, 's) block_read, 'e db_error) outcome" where
  "read_block_entries E has_diffs acc [] = Ok acc"
| "read_block_entries E has_diffs acc (entry # entries) =
     outcome_bind (read_block_entry E has_diffs acc entry) (\<lambda>acc'. read_block_entries E has_diffs acc' entries)"

definition block_read_init :: "('e, 't, 'h, 's, 'time, 'w) node_env \<Rightarrow> ('h, 's) block_read" where
  "block_read_init E =
     \<lparr> br_stores = merkle_stores_default (ne_smt E), br_hash = None, br_epoch = None,
       br_pred_epochs = None, br_address_gen = None \<rparr>"

definition block_read_result ::
  "block_height \<Rightarrow> block_height \<Rightarrow> 'time \<Rightarrow> 'w tx_queue \<Rightarrow> ('h, 's) block_read
     \<Rightarrow> (('h, 's, 'time, 'w) block_state option, 'e db_error) outcome" where
  "block_read_result height min_height min_time queue acc =
     (case (br_hash acc, br_epoch acc, br_pred_epochs acc, br_address_gen acc) of
        (Some hash, Some epoch, Some pred_epochs, Some address_gen) \<Rightarrow>
          Ok (Some \<lparr> bs_stores = br_stores acc, bs_hash = hash, bs_height = height, bs_epoch = epoch,
                     bs_pred_epochs = pred_epochs, bs_next_epoch_min_start_height = min_height,
                     bs_next_epoch_min_start_time = min_time, bs_address_gen = address_gen,
                     bs_tx_queue = queue \<rparr>)
      | _ \<Rightarrow> Err DbTemporary)"

definition height_prefix :: "block_height \<Rightarrow> string" where
  "height_prefix h = block_height_seg_raw h @ ''/''"

definition mock_read_last_block ::
  "('e, 't, 'h, 's, 'time, 'w) node_env \<Rightarrow> mock_db
     \<Rightarrow> (('h, 's, 'time, 'w) block_state option, 'e db_error) outcome" where
  "mock_read_last_block E db =
     (let B = ne_borsh E
      in case hm_get db ''height'' of
           None \<Rightarrow> Ok None
         | Some height_bytes \<Rightarrow> outcome_bind (decode_or (dec_height B) height_bytes) (\<lambda>height.
         case hm_get db ''next_epoch_min_start_height'' of
           None \<Rightarrow> Ok None
         | Some next_height_bytes \<Rightarrow> outcome_bind (decode_or (dec_height B) next_height_bytes) (\<lambda>min_height.
         case hm_get db ''next_epoch_min_start_time'' of
           None \<Rightarrow> Ok None
         | Some time_bytes \<Rightarrow> outcome_bind (decode_or (dec_time B) time_bytes) (\<lambda>min_time.
         case hm_get db ''tx_queue'' of
           None \<Rightarrow> Ok None
         | Some queue_bytes \<Rightarrow> outcome_bind (decode_or (dec_tx_queue B) queue_bytes) (\<lambda>queue.
         outcome_bind (unwrap (bt_range db (height_prefix height) (height_prefix (next_height height)))) (\<lambda>entries.
         outcome_bind (read_block_entries E False (block_read_init E) entries)
           (block_read_result height min_height min_time queue)))))))"

section \<open>Headers and stores of a height\<close>

definition mock_read_block_header ::
  "('e, 't, 'h, 's, 'time, 'w) node_env \<Rightarrow> mock_db \<Rightarrow> block_height
     \<Rightarrow> ('time header option, 'e db_error) outcome" where
  "mock_read_block_header E db height =
     outcome_bind (db_push (ne_bech32 E) (height_key height) ''header'') (\<lambda>k.
       case hm_get db (key_string (ne_bech32 E) k) of
         None \<Rightarrow> Ok None
       | Some v \<Rightarrow> outcome_bind (ok_or (dec_header (ne_borsh E) v) BorshCodingError) (\<lambda>h. Ok (Some h)))"

text \<open>
  The loop over the trees, over any lookup; \<^const>\<open>None\<close> is the early return when an entry is missing.
\<close>

fun read_stores_loop ::
  "('e, 't, 'h, 's, 'time, 'w) node_env \<Rightarrow> (string \<Rightarrow> (string option, 'e db_error) outcome) \<Rightarrow> key
     \<Rightarrow> store_type list \<Rightarrow> ('h, 's) merkle_stores \<Rightarrow> (('h, 's) merkle_stores option, 'e db_error) outcome" where
  "read_stores_loop E get tree_key [] ms = Ok (Some ms)"
| "read_stores_loop E get tree_key (st # sts) ms =
     outcome_bind (db_push (ne_bech32 E) tree_key (store_type_to_string st)) (\<lambda>prefix_key.
     outcome_bind (db_push (ne_bech32 E) prefix_key ''root'') (\<lambda>root_key.
     outcome_bind (get (key_string (ne_bech32 E) root_key)) (\<lambda>root_bytes.
       case root_bytes of
         None \<Rightarrow> Ok None
       | Some b \<Rightarrow>
           outcome_bind (decode_or (dec_root (ne_borsh E)) b) (\<lambda>root.
           outcome_bind (db_push (ne_bech32 E) prefix_key ''store'') (\<lambda>store_key.
           outcome_bind (get (key_string (ne_bech32 E) store_key)) (\<lambda>store_bytes.
             case store_bytes of
               None \<Rightarrow> Ok None
             | Some b \<Rightarrow>
                 outcome_bind (decode_or (dec_store (ne_borsh E)) b) (\<lambda>store.
                   read_stores_loop E get tree_key sts (ms_set_store st store (ms_set_root st root ms)))))))))"

definition mock_read_merkle_tree_stores ::
  "('e, 't, 'h, 's, 'time, 'w) node_env \<Rightarrow> mock_db \<Rightarrow> block_height
     \<Rightarrow> (('h, 's) merkle_stores option, 'e db_error) outcome" where
  "mock_read_merkle_tree_stores E db height =
     outcome_bind (db_push (ne_bech32 E) (height_key height) ''tree'') (\<lambda>tree_key.
       read_stores_loop E (\<lambda>k. Ok (hm_get db k)) tree_key store_types (merkle_stores_default (ne_smt E)))"

section \<open>Values of accounts\<close>

definition mock_read_subspace_val :: "'e bech32_lib \<Rightarrow> mock_db \<Rightarrow> key \<Rightarrow> (string option, 'e db_error) outcome" where
  "mock_read_subspace_val lib db k = outcome_bind (subspace_key lib k) (\<lambda>s. Ok (hm_get db s))"

text \<open>\<^verbatim>\<open>unimplemented!()\<close>.\<close>

definition mock_read_subspace_val_with_height ::
  "mock_db \<Rightarrow> key \<Rightarrow> block_height \<Rightarrow> (string option, 'e db_error) outcome" where
  "mock_read_subspace_val_with_height db k height = Panic"

definition mock_write_subspace_val ::
  "'e bech32_lib \<Rightarrow> mock_db \<Rightarrow> block_height \<Rightarrow> key \<Rightarrow> string \<Rightarrow> (mock_db \<times> i64, 'e db_error) outcome" where
  "mock_write_subspace_val lib db height k v =
     outcome_bind (subspace_key lib k) (\<lambda>s.
       let current_len = of_nat (length v)
       in Ok (hm_insert s v db,
              case hm_get db s of
                Some prev_value \<Rightarrow> current_len - of_nat (length prev_value)
              | None \<Rightarrow> current_len))"

definition mock_delete_subspace_val ::
  "'e bech32_lib \<Rightarrow> mock_db \<Rightarrow> block_height \<Rightarrow> key \<Rightarrow> (mock_db \<times> i64, 'e db_error) outcome" where
  "mock_delete_subspace_val lib db height k =
     outcome_bind (subspace_key lib k) (\<lambda>s.
       Ok (hm_remove s db, case hm_get db s of Some v \<Rightarrow> of_nat (length v) | None \<Rightarrow> 0))"

definition mock_batch_write_subspace_val ::
  "'e bech32_lib \<Rightarrow> mock_db \<Rightarrow> unit \<Rightarrow> block_height \<Rightarrow> key \<Rightarrow> string
     \<Rightarrow> (mock_db \<times> unit \<times> i64, 'e db_error) outcome" where
  "mock_batch_write_subspace_val lib db batch height k v =
     outcome_bind (subspace_key lib k) (\<lambda>s.
       let current_len = of_nat (length v)
       in Ok (hm_insert s v db, (),
              case hm_get db s of
                Some prev_value \<Rightarrow> current_len - of_nat (length prev_value)
              | None \<Rightarrow> current_len))"

definition mock_batch_delete_subspace_val ::
  "'e bech32_lib \<Rightarrow> mock_db \<Rightarrow> unit \<Rightarrow> block_height \<Rightarrow> key \<Rightarrow> (mock_db \<times> unit \<times> i64, 'e db_error) outcome" where
  "mock_batch_delete_subspace_val lib db batch height k =
     outcome_bind (subspace_key lib k) (\<lambda>s.
       Ok (hm_remove s db, (), case hm_get db s of Some v \<Rightarrow> of_nat (length v) | None \<Rightarrow> 0))"

text \<open>\<^verbatim>\<open>str::strip_prefix\<close>, and the iterators: pairs whose key starts with the prefix, in the order of the keys.\<close>

definition strip_prefix :: "string \<Rightarrow> string \<Rightarrow> string option" where
  "strip_prefix p s = (if prefix p s then Some (drop (length p) s) else None)"

definition mock_iterator :: "mock_db \<Rightarrow> string \<Rightarrow> (string \<times> string) list" where
  "mock_iterator db p = filter (\<lambda>(k, _). prefix p k) (sort_key fst db)"

definition prefix_iterator :: "string \<Rightarrow> (string \<times> string) list \<Rightarrow> (string \<times> string \<times> u64) list" where
  "prefix_iterator db_prefix entries =
     List.map_filter (\<lambda>(k, v). map_option (\<lambda>k'. (k', v, of_nat (length k' + length v))) (strip_prefix db_prefix k))
       entries"

definition mock_iter_prefix :: "'e bech32_lib \<Rightarrow> mock_db \<Rightarrow> key \<Rightarrow> (string \<times> string \<times> u64) list option" where
  "mock_iter_prefix lib db p =
     Some (prefix_iterator ''subspace/'' (mock_iterator db (''subspace/'' @ key_string lib p)))"

definition mock_ops :: "('e, 't, 'h, 's, 'time, 'w) node_env \<Rightarrow> (mock_db, unit, 'e, 'h, 's, 'time, 'w) db_ops" where
  "mock_ops E =
     \<lparr> db_read_last_block = mock_read_last_block E,
       db_write_block = mock_write_block E,
       db_read_block_header = mock_read_block_header E,
       db_read_merkle_tree_stores = mock_read_merkle_tree_stores E,
       db_read_subspace_val = mock_read_subspace_val (ne_bech32 E),
       db_read_subspace_val_with_height = mock_read_subspace_val_with_height,
       db_write_subspace_val = mock_write_subspace_val (ne_bech32 E),
       db_delete_subspace_val = mock_delete_subspace_val (ne_bech32 E),
       db_batch = (),
       db_exec_batch = (\<lambda>db _. Ok db),
       db_batch_write_subspace_val = mock_batch_write_subspace_val (ne_bech32 E),
       db_batch_delete_subspace_val = mock_batch_delete_subspace_val (ne_bech32 E),
       db_iter_prefix = mock_iter_prefix (ne_bech32 E) \<rparr>"

section \<open>The backend implements the interface\<close>

definition subspace_string :: "'e bech32_lib \<Rightarrow> key \<Rightarrow> string" where
  "subspace_string lib k = key_string lib (Key (StringSeg ''subspace'' # segments k))"

lemma subspace_key_string: "subspace_key lib k = Ok (subspace_string lib k)"
  by (simp add: subspace_key_eq subspace_string_def)

lemma subspace_string_inject:
  assumes "bech32_laws lib" "key_wf k" "key_wf k'"
  shows "subspace_string lib k = subspace_string lib k' \<longleftrightarrow> k = k'"
  using key_string_inject [OF assms] by (auto simp: subspace_string_def key_string_StringSeg assms)

definition good_key :: "'e bech32_lib \<Rightarrow> key \<Rightarrow> bool" where
  "good_key lib k \<longleftrightarrow> bech32_laws lib \<and> key_wf k"

lemma subspace_string_good [simp]:
  "good_key lib k \<Longrightarrow> good_key lib k' \<Longrightarrow> subspace_string lib k = subspace_string lib k' \<longleftrightarrow> k = k'"
  unfolding good_key_def by (blast dest: subspace_string_inject)

lemmas mock_subspace_defs = mock_read_subspace_val_def mock_write_subspace_val_def mock_delete_subspace_val_def
  mock_batch_write_subspace_val_def mock_batch_delete_subspace_val_def subspace_key_string

interpretation mock: subspace_db "mock_ops E" "good_key (ne_bech32 E)"
  "\<lambda>db k. hm_get db (subspace_string (ne_bech32 E) k)" "\<lambda>db _ k. hm_get db (subspace_string (ne_bech32 E) k)"
  by unfold_locales (simp_all add: mock_ops_def mock_subspace_defs Let_def)

section \<open>A block is read back\<close>

text \<open>The fields of a block, their segments below the height and their bytes.\<close>

datatype 'time block_field =
  RootField store_type | StoreField store_type | HeaderField "'time header" | HashField | EpochField
  | PredEpochsField | AddressGenField

fun field_segs :: "'time block_field \<Rightarrow> string list" where
  "field_segs (RootField t) = [''tree'', store_type_to_string t, ''root'']"
| "field_segs (StoreField t) = [''tree'', store_type_to_string t, ''store'']"
| "field_segs (HeaderField _) = [''header'']"
| "field_segs HashField = [''hash'']"
| "field_segs EpochField = [''epoch'']"
| "field_segs PredEpochsField = [''pred_epochs'']"
| "field_segs AddressGenField = [''address_gen'']"

fun field_bytes ::
  "('e, 't, 'h, 's, 'time, 'w) node_env \<Rightarrow> ('h, 's, 'time, 'w) block_state \<Rightarrow> 'time block_field \<Rightarrow> string" where
  "field_bytes E st (RootField t) = enc_root (ne_borsh E) (ms_root (bs_stores st) t)"
| "field_bytes E st (StoreField t) = enc_store (ne_borsh E) (ms_store (bs_stores st) t)"
| "field_bytes E st (HeaderField h) = enc_header (ne_borsh E) h"
| "field_bytes E st HashField = enc_block_hash (ne_borsh E) (bs_hash st)"
| "field_bytes E st EpochField = enc_epoch (ne_borsh E) (bs_epoch st)"
| "field_bytes E st PredEpochsField = enc_pred_epochs (ne_borsh E) (bs_pred_epochs st)"
| "field_bytes E st AddressGenField = enc_address_gen (ne_borsh E) (bs_address_gen st)"

definition field_key :: "block_height \<Rightarrow> 'time block_field \<Rightarrow> string" where
  "field_key h f = str_join CHR ''/'' (block_height_seg_raw h # field_segs f)"

definition block_fields :: "'time header option \<Rightarrow> 'time block_field list" where
  "block_fields hdr =
     concat (map (\<lambda>t. [RootField t, StoreField t]) store_types)
     @ (case hdr of None \<Rightarrow> [] | Some h \<Rightarrow> [HeaderField h])
     @ [HashField, EpochField, PredEpochsField, AddressGenField]"

definition field_entry ::
  "('e, 't, 'h, 's, 'time, 'w) node_env \<Rightarrow> ('h, 's, 'time, 'w) block_state \<Rightarrow> 'time block_field \<Rightarrow> string \<times> string" where
  "field_entry E st f = (field_key (bs_height st) f, field_bytes E st f)"

lemma collect_raws_StringSeg: "collect_raws lib (map StringSeg parts) = Some parts"
  by (induct parts) (simp_all add: db_key_seg_raw_def)

lemma key_string_StringSegs: "key_string lib (Key (map StringSeg parts)) = str_join CHR ''/'' parts"
  by (simp add: key_string_def key_to_string_def collect_raws_StringSeg key_constants)

lemma key_string_parts:
  "key_string lib (Key [StringSeg a, StringSeg b]) = str_join CHR ''/'' [a, b]"
  "key_string lib (Key [StringSeg a, StringSeg b, StringSeg c, StringSeg d]) = str_join CHR ''/'' [a, b, c, d]"
  using key_string_StringSegs [of lib "[a, b]"] key_string_StringSegs [of lib "[a, b, c, d]"] by simp_all

lemma height_entries_eq:
  "height_entries E bw = Ok (map (field_entry E (bw_state bw)) (block_fields (bw_header bw)))"
  by (cases "bw_header bw")
    (simp_all add: height_entries_def tree_entries_def store_types_def height_key_def key_from_seg_def db_push_lit
      block_fields_def field_entry_def field_key_def key_string_parts Let_def del: str_join.simps)

lemma store_type_from_to_string [simp]: "store_type_from_str (store_type_to_string t) = Ok t"
  by (cases t) (simp_all add: store_type_from_str_def)

lemma store_type_to_string_inject [simp]: "store_type_to_string t = store_type_to_string u \<longleftrightarrow> t = u"
  by (cases t; cases u) simp_all

lemma store_type_to_string_no_slash [simp]: "CHR ''/'' \<notin> set (store_type_to_string t)"
  by (cases t) simp_all

lemma height_raw_no_slash [simp]: "CHR ''/'' \<notin> set (block_height_seg_raw h)"
  using show_nat_digits [of "CHR ''/''" "unat h"] by (auto simp: block_height_seg_raw_def show_u64_def)

lemma field_segs_no_slash: "\<forall>s\<in>set (field_segs f). CHR ''/'' \<notin> set s"
  by (cases f) simp_all

lemma split_field_key: "str_split CHR ''/'' (field_key h f) = block_height_seg_raw h # field_segs f"
  using field_segs_no_slash [of f] by (simp add: field_key_def str_split_join)

text \<open>What the loop has read once it has seen the given fields.\<close>

fun field_read :: "('h, 's, 'time, 'w) block_state \<Rightarrow> ('h, 's) block_read \<Rightarrow> 'time block_field \<Rightarrow> bool" where
  "field_read st acc (RootField t) \<longleftrightarrow> ms_root (br_stores acc) t = ms_root (bs_stores st) t"
| "field_read st acc (StoreField t) \<longleftrightarrow> ms_store (br_stores acc) t = ms_store (bs_stores st) t"
| "field_read st acc (HeaderField h) \<longleftrightarrow> True"
| "field_read st acc HashField \<longleftrightarrow> br_hash acc = Some (bs_hash st)"
| "field_read st acc EpochField \<longleftrightarrow> br_epoch acc = Some (bs_epoch st)"
| "field_read st acc PredEpochsField \<longleftrightarrow> br_pred_epochs acc = Some (bs_pred_epochs st)"
| "field_read st acc AddressGenField \<longleftrightarrow> br_address_gen acc = Some (bs_address_gen st)"

lemma ms_root_set [simp]:
  "ms_root (ms_set_root t r ms) u = (if u = t then r else ms_root ms u)"
  "ms_root (ms_set_store t s ms) u = ms_root ms u"
  "ms_store (ms_set_root t r ms) u = ms_store ms u"
  "ms_store (ms_set_store t s ms) u = (if u = t then s else ms_store ms u)"
  by (simp_all add: ms_root_def ms_store_def ms_set_get)

definition read_field ::
  "('h, 's, 'time, 'w) block_state \<Rightarrow> ('h, 's) block_read \<Rightarrow> 'time block_field \<Rightarrow> ('h, 's) block_read" where
  "read_field st acc f =
     (case f of
        RootField t \<Rightarrow> acc\<lparr> br_stores := ms_set_root t (ms_root (bs_stores st) t) (br_stores acc) \<rparr>
      | StoreField t \<Rightarrow> acc\<lparr> br_stores := ms_set_store t (ms_store (bs_stores st) t) (br_stores acc) \<rparr>
      | HeaderField _ \<Rightarrow> acc
      | HashField \<Rightarrow> acc\<lparr> br_hash := Some (bs_hash st) \<rparr>
      | EpochField \<Rightarrow> acc\<lparr> br_epoch := Some (bs_epoch st) \<rparr>
      | PredEpochsField \<Rightarrow> acc\<lparr> br_pred_epochs := Some (bs_pred_epochs st) \<rparr>
      | AddressGenField \<Rightarrow> acc\<lparr> br_address_gen := Some (bs_address_gen st) \<rparr>)"

lemma read_block_entry_field:
  assumes "borsh_laws (ne_borsh E)"
  shows "read_block_entry E d acc (field_entry E st f) = Ok (read_field st acc f)"
proof -
  have "str_split KEY_SEGMENT_SEPARATOR (fst (field_entry E st f)) = block_height_seg_raw (bs_height st) # field_segs f"
    by (simp add: field_entry_def split_field_key key_constants)
  moreover have "snd (field_entry E st f) = field_bytes E st f"
    by (simp add: field_entry_def)
  ultimately show ?thesis
    using assms by (cases f) (simp_all add: read_block_entry_def Let_def vec_get_def decode_or_def borsh_laws_def read_field_def)
qed

lemma field_read_read_field: "field_read st acc g \<or> g = f \<Longrightarrow> field_read st (read_field st acc f) g"
  by (cases g; cases f) (auto simp: read_field_def)

lemma read_block_entries_fields:
  assumes "borsh_laws (ne_borsh E)"
  shows "read_block_entries E d acc (map (field_entry E st) fs) = Ok (foldl (read_field st) acc fs)"
  by (induct fs arbitrary: acc) (simp_all add: read_block_entry_field [OF assms])

lemma foldl_read_field: "field_read st acc g \<or> g \<in> set fs \<Longrightarrow> field_read st (foldl (read_field st) acc fs) g"
proof (induct fs arbitrary: acc)
  case (Cons f fs)
  then show ?case
    using field_read_read_field [of st acc g f] by (cases "g = f") auto
qed simp

lemma block_fields_all:
  "RootField t \<in> set (block_fields hdr)" "StoreField t \<in> set (block_fields hdr)" "HashField \<in> set (block_fields hdr)"
  "EpochField \<in> set (block_fields hdr)" "PredEpochsField \<in> set (block_fields hdr)" "AddressGenField \<in> set (block_fields hdr)"
  by (cases t; simp add: block_fields_def store_types_def)+

lemma block_read_result_fields:
  assumes "set (block_fields hdr) \<subseteq> set fs"
  shows "block_read_result (bs_height st) (bs_next_epoch_min_start_height st) (bs_next_epoch_min_start_time st)
    (bs_tx_queue st) (foldl (read_field st) acc fs) = Ok (Some st)"
proof -
  let ?acc = "foldl (read_field st) acc fs"
  have read: "field_read st ?acc f" if "f \<in> set (block_fields hdr)" for f
    using assms that by (intro foldl_read_field) blast
  have "ms_get (br_stores ?acc) t = ms_get (bs_stores st) t" for t
    using read [OF block_fields_all(1) [of t]] read [OF block_fields_all(2) [of t]]
    by (simp add: ms_root_def ms_store_def prod_eq_iff)
  then have "br_stores ?acc = bs_stores st" by (rule ms_eqI)
  then show ?thesis
    using read [OF block_fields_all(3)] read [OF block_fields_all(4)] read [OF block_fields_all(5)]
      read [OF block_fields_all(6)]
    by (simp add: block_read_result_def)
qed

lemma list_less_append:
  "A < B \<Longrightarrow> \<not> prefix A B \<Longrightarrow> A @ x < (B :: 'a :: linorder list)"
proof (induct A arbitrary: B)
  case (Cons a A)
  then show ?case by (cases B) auto
qed simp

lemma list_le_append: "A \<le> A @ (x :: 'a :: linorder list)"
  by (induct A) simp_all

lemma height_raw_inject [simp]: "block_height_seg_raw h = block_height_seg_raw h' \<longleftrightarrow> h = h'"
  unfolding block_height_seg_raw_def by (metis parse_show_u64 option.inject)

lemma height_prefix_prefix: "prefix (height_prefix h) (height_prefix h') \<Longrightarrow> h = h'"
proof -
  assume "prefix (height_prefix h) (height_prefix h')"
  then obtain s where "block_height_seg_raw h' @ ''/'' = block_height_seg_raw h @ CHR ''/'' # s"
    by (auto simp: height_prefix_def prefix_def)
  then have "str_split CHR ''/'' (block_height_seg_raw h' @ ''/'') = str_split CHR ''/'' (block_height_seg_raw h @ CHR ''/'' # s)"
    by simp
  then show "h = h'" by (simp add: str_split_append)
qed

lemma field_key_prefix: "\<exists>s. field_key h f = height_prefix h @ s"
  by (cases f) (auto simp: field_key_def height_prefix_def)

lemma field_key_in_range:
  assumes "\<not> height_prefix (next_height h) < height_prefix h"
  shows "height_prefix h \<le> field_key h f \<and> field_key h f < height_prefix (next_height h)"
proof -
  obtain s where s: "field_key h f = height_prefix h @ s"
    using field_key_prefix by blast
  have "h \<noteq> next_height h" by (simp add: next_height_def)
  then have np: "\<not> prefix (height_prefix h) (height_prefix (next_height h))"
    by (rule contrapos_nn) (rule height_prefix_prefix)
  then have "height_prefix h \<noteq> height_prefix (next_height h)"
    by (rule contrapos_nn) simp
  with assms np have "height_prefix h @ s < height_prefix (next_height h)"
    by (intro list_less_append) auto
  moreover have "height_prefix h \<le> height_prefix h @ s"
    by (rule list_le_append)
  ultimately show ?thesis by (simp add: s)
qed

text \<open>Keys that start with a letter are after every height.\<close>

lemma height_prefix_digit: "\<exists>c s. height_prefix h = c # s \<and> c < CHR '':''"
proof -
  obtain c s where cs: "block_height_seg_raw h = c # s"
    by (cases "block_height_seg_raw h") (auto simp: block_height_seg_raw_def show_u64_def)
  then have "byte c \<le> 57"
    using show_nat_digits [of c "unat h"] by (simp add: block_height_seg_raw_def show_u64_def)
  then have "c < CHR '':''" by (simp add: less_char_def)
  with cs show ?thesis by (simp add: height_prefix_def)
qed

lemma letter_not_in_range: "CHR '':'' < c \<Longrightarrow> \<not> c # s < height_prefix h"
  using height_prefix_digit [of h] by (auto simp: dest: less_trans)

lemma HeaderField_block_fields: "HeaderField h \<in> set (block_fields hdr) \<longleftrightarrow> hdr = Some h"
proof (cases hdr)
  case (Some a)
  then have "HeaderField h \<in> set (block_fields hdr) \<longleftrightarrow> h = a"
    by (simp add: block_fields_def store_types_def)
  with Some show ?thesis by auto
qed (simp add: block_fields_def store_types_def)

lemma field_key_inj: "inj_on (field_key h) (set (block_fields hdr))"
proof (rule inj_onI)
  fix f g :: "'a block_field"
  assume mem: "f \<in> set (block_fields hdr)" "g \<in> set (block_fields hdr)" and eq: "field_key h f = field_key h g"
  have segs: "field_segs f = field_segs g"
    using split_field_key [of h f] split_field_key [of h g] unfolding eq by simp
  show "f = g"
    by (cases f; cases g) (use segs mem in \<open>simp_all add: HeaderField_block_fields\<close>)
qed

lemma distinct_block_fields: "distinct (block_fields hdr)"
  by (cases hdr) (simp_all add: block_fields_def store_types_def)

lemma hm_get_foldl_insert: "hm_get (foldl mock_insert db es) = hm_get db ++ map_of (rev es)"
proof (induct es arbitrary: db)
  case (Cons e es)
  then show ?case
    by (cases e) (simp add: mock_insert_def map_of_append fun_eq_iff map_add_def split: option.splits)
qed simp

lemma hm_ok_foldl_insert: "hm_ok db \<Longrightarrow> hm_ok (foldl mock_insert db es)"
  by (induct es arbitrary: db) (simp_all add: mock_insert_def)

definition written_entries ::
  "('e, 't, 'h, 's, 'time, 'w) node_env \<Rightarrow> ('h, 's, 'time, 'w) block_state_write \<Rightarrow> (string \<times> string) list" where
  "written_entries E bw =
     (let st = bw_state bw; B = ne_borsh E
      in [(''next_epoch_min_start_height'', enc_height B (bs_next_epoch_min_start_height st)),
          (''next_epoch_min_start_time'', enc_time B (bs_next_epoch_min_start_time st)),
          (''tx_queue'', enc_tx_queue B (bs_tx_queue st))]
         @ map (field_entry E st) (block_fields (bw_header bw)) @ [(''height'', enc_height B (bs_height st))])"

lemma mock_write_block_eq: "mock_write_block E db bw = Ok (foldl mock_insert db (written_entries E bw))"
  by (simp add: mock_write_block_def height_entries_eq written_entries_def Let_def)

lemma field_key_letter: "CHR '':'' < c \<Longrightarrow> c # s \<noteq> field_key h f"
  using field_key_prefix [of h f] height_prefix_digit [of h] by auto

lemma field_key_names [simp]:
  "''next_epoch_min_start_height'' \<noteq> field_key h f" "''next_epoch_min_start_time'' \<noteq> field_key h f"
  "''tx_queue'' \<noteq> field_key h f" "''height'' \<noteq> field_key h f"
  by (rule field_key_letter, simp)+

lemma distinct_written_entries: "distinct (map fst (written_entries E bw))"
proof -
  have "map fst (map (field_entry E (bw_state bw)) fs) = map (field_key (bs_height (bw_state bw))) fs" for fs
    by (simp add: field_entry_def)
  then have "map fst (written_entries E bw) =
      [''next_epoch_min_start_height'', ''next_epoch_min_start_time'', ''tx_queue'']
      @ map (field_key (bs_height (bw_state bw))) (block_fields (bw_header bw)) @ [''height'']"
    by (simp add: written_entries_def Let_def)
  moreover have "distinct (map (field_key (bs_height (bw_state bw))) (block_fields (bw_header bw)))"
    by (simp add: distinct_map field_key_inj distinct_block_fields)
  ultimately show ?thesis
    by (simp add: image_iff field_key_names [symmetric])
qed

lemma hm_get_write_block:
  "hm_get (foldl mock_insert db (written_entries E bw)) k =
     (case map_of (written_entries E bw) k of Some v \<Rightarrow> Some v | None \<Rightarrow> hm_get db k)"
proof -
  have "map_of (rev (written_entries E bw)) = map_of (written_entries E bw)"
    using distinct_written_entries [of E bw] by (subst map_of_inject_set) (simp_all add: rev_map [symmetric])
  then show ?thesis
    by (simp add: hm_get_foldl_insert map_add_def)
qed

lemma map_preimage: "set es \<subseteq> f ` A \<Longrightarrow> \<exists>fs. es = map f fs \<and> set fs \<subseteq> A"
proof (induct es)
  case (Cons e es)
  then obtain fs g where "es = map f fs" "set fs \<subseteq> A" "e = f g" "g \<in> A"
    by auto
  then show ?case by (intro exI [of _ "g # fs"]) simp
qed simp

lemma bt_range_write_block:
  fixes bw :: "('h, 's, 'time, 'w) block_state_write"
  assumes "hm_ok db" "\<not> height_prefix (next_height h) < height_prefix h" "h = bs_height (bw_state bw)"
    and fresh: "\<forall>k\<in>fst ` set db. \<not> (height_prefix h \<le> k \<and> k < height_prefix (next_height h))"
  shows "\<exists>fs. bt_range (foldl mock_insert db (written_entries E bw)) (height_prefix h) (height_prefix (next_height h))
      = Some (map (field_entry E (bw_state bw)) fs) \<and> set (block_fields (bw_header bw)) \<subseteq> set fs"
proof -
  let ?db = "foldl mock_insert db (written_entries E bw)" and ?e = "field_entry E (bw_state bw)"
  let ?fields = "set (block_fields (bw_header bw))" and ?in = "\<lambda>k. height_prefix h \<le> k \<and> k < height_prefix (next_height h)"
  define es where "es = filter (\<lambda>(k, _). ?in k) (sort_key fst ?db)"
  have es: "e \<in> set es \<longleftrightarrow> hm_get ?db (fst e) = Some (snd e) \<and> ?in (fst e)" for e
    using hm_get_Some_iff [OF hm_ok_foldl_insert [OF assms(1)]] by (auto simp: es_def)
  have in_range: "?in (field_key h f)" for f :: "'time block_field"
    by (rule field_key_in_range [OF assms(2)])
  have "map_of (written_entries E bw) (field_key h f) = Some (field_bytes E (bw_state bw) f)" if "f \<in> ?fields" for f
    using that distinct_written_entries [of E bw]
    by (subst map_of_eq_Some_iff) (auto simp: written_entries_def Let_def field_entry_def assms(3))
  then have sub: "?e f \<in> set es" if "f \<in> ?fields" for f
    using that in_range by (simp add: es hm_get_write_block field_entry_def assms(3))
  have "e \<in> ?e ` ?fields" if "e \<in> set es" for e
  proof (cases "map_of (written_entries E bw) (fst e)")
    case None
    then have "hm_get db (fst e) = Some (snd e)" "?in (fst e)"
      using that by (simp_all add: es hm_get_write_block)
    moreover from this(1) have "fst e \<in> fst ` set db"
      by (simp add: hm_get_Some_iff [OF assms(1)])
    ultimately show ?thesis using fresh by blast
  next
    case (Some v)
    then have "e \<in> set (written_entries E bw)" "?in (fst e)"
      using that map_of_SomeD [OF Some] by (simp_all add: es hm_get_write_block)
    with letter_not_in_range show ?thesis
      by (auto simp: written_entries_def Let_def)
  qed
  then obtain fs where fs: "es = map ?e fs" "set fs \<subseteq> ?fields"
    using map_preimage [of es ?e ?fields] by blast
  have "f \<in> set fs" if f: "f \<in> ?fields" for f
  proof -
    obtain g where "g \<in> set fs" "?e f = ?e g"
      using sub [OF f] unfolding fs(1) set_map by (rule imageE)
    moreover from this have "field_key h g = field_key h f"
      by (simp add: field_entry_def assms(3))
    ultimately show ?thesis
      using inj_onD [OF field_key_inj, of h g f] fs(2) f by blast
  qed
  with fs(1) assms(2) show ?thesis
    by (auto simp: bt_range_def es_def)
qed

lemma map_of_written:
  "map_of (written_entries E bw) ''height'' = Some (enc_height (ne_borsh E) (bs_height (bw_state bw)))"
  "map_of (written_entries E bw) ''next_epoch_min_start_height'' =
     Some (enc_height (ne_borsh E) (bs_next_epoch_min_start_height (bw_state bw)))"
  "map_of (written_entries E bw) ''next_epoch_min_start_time'' =
     Some (enc_time (ne_borsh E) (bs_next_epoch_min_start_time (bw_state bw)))"
  "map_of (written_entries E bw) ''tx_queue'' = Some (enc_tx_queue (ne_borsh E) (bs_tx_queue (bw_state bw)))"
  by (subst map_of_eq_Some_iff [OF distinct_written_entries], simp add: written_entries_def Let_def)+

text \<open>
  Claim C29. A block that was written to the in-memory database is read back as it was, when no other
  entries lie between the prefix of its height and the prefix of the next one; but where the decimal
  representation of the next height sorts before the one of the height, as at 9, 99 and so on, reading
  it back panics.
\<close>

theorem mock_block_roundtrip:
  assumes "borsh_laws (ne_borsh E)" "hm_ok db" "h = bs_height (bw_state bw)"
    and "\<forall>k\<in>fst ` set db. \<not> (height_prefix h \<le> k \<and> k < height_prefix (next_height h))"
  shows "\<exists>db'. mock_write_block E db bw = Ok db' \<and>
    mock_read_last_block E db' =
      (if height_prefix (next_height h) < height_prefix h then Panic else Ok (Some (bw_state bw)))"
proof -
  let ?db = "foldl mock_insert db (written_entries E bw)" and ?st = "bw_state bw"
  have names: "hm_get ?db ''height'' = Some (enc_height (ne_borsh E) (bs_height ?st))"
    "hm_get ?db ''next_epoch_min_start_height'' = Some (enc_height (ne_borsh E) (bs_next_epoch_min_start_height ?st))"
    "hm_get ?db ''next_epoch_min_start_time'' = Some (enc_time (ne_borsh E) (bs_next_epoch_min_start_time ?st))"
    "hm_get ?db ''tx_queue'' = Some (enc_tx_queue (ne_borsh E) (bs_tx_queue ?st))"
    by (simp_all add: hm_get_write_block map_of_written)
  have read: "mock_read_last_block E ?db =
      outcome_bind (unwrap (bt_range ?db (height_prefix h) (height_prefix (next_height h)))) (\<lambda>entries.
      outcome_bind (read_block_entries E False (block_read_init E) entries)
        (block_read_result h (bs_next_epoch_min_start_height ?st) (bs_next_epoch_min_start_time ?st) (bs_tx_queue ?st)))"
    using assms(1) by (simp add: mock_read_last_block_def names decode_or_def borsh_laws_def assms(3))
  show ?thesis
  proof (cases "height_prefix (next_height h) < height_prefix h")
    case True
    then show ?thesis
      by (simp add: mock_write_block_eq read bt_range_def)
  next
    case False
    then obtain fs where "bt_range ?db (height_prefix h) (height_prefix (next_height h)) = Some (map (field_entry E ?st) fs)"
      "set (block_fields (bw_header bw)) \<subseteq> set fs"
      using bt_range_write_block [OF assms(2) False assms(3,4)] by blast
    with False show ?thesis
      by (simp add: mock_write_block_eq read read_block_entries_fields [OF assms(1)]
          block_read_result_fields assms(3))
  qed
qed

definition example_block :: "block_height \<Rightarrow> (string option, (string option \<times> string option) list, nat, nat) block_state_write" where
  "example_block h =
     \<lparr> bw_state = \<lparr> bs_stores = merkle_stores_default example_smt, bs_hash = ''h'', bs_height = h, bs_epoch = 1,
         bs_pred_epochs = epochs_default, bs_next_epoch_min_start_height = 20, bs_next_epoch_min_start_time = 5,
         bs_address_gen = \<lparr> last_hash = ''seed'' \<rparr>, bs_tx_queue = tx_queue_default \<rparr>,
       bw_header = None \<rparr>"

lemma height_prefix_examples:
  "height_prefix 1 = ''1/''" "height_prefix (next_height 1) = ''2/''"
  "height_prefix 9 = ''9/''" "height_prefix (next_height 9) = ''10/''"
  by code_simp+

theorem mock_block_roundtrip_witness:
  "(\<exists>db'. mock_write_block example_env [] (example_block 1) = Ok db' \<and>
      mock_read_last_block example_env db' = Ok (Some (bw_state (example_block 1)))) \<and>
   (\<exists>db'. mock_write_block example_env [] (example_block 9) = Ok db' \<and>
      mock_read_last_block (example_env :: (unit, _, _, _, nat, nat) node_env) db' = Panic)"
proof -
  have laws: "borsh_laws (ne_borsh (example_env :: (unit, _, _, _, nat, nat) node_env))"
    by (simp add: example_env_def example_borsh_laws)
  have h: "h = bs_height (bw_state (example_block h))" for h
    by (simp add: example_block_def)
  show ?thesis
    using mock_block_roundtrip [OF laws _ h [of 1], of "[]"] mock_block_roundtrip [OF laws _ h [of 9], of "[]"]
    by (simp add: height_prefix_examples)
qed

end
