(* ===== verification/Rocks_DB.thy ===== *)
theory Rocks_DB
  imports Mock_DB
begin

text \<open>
  The persistent backend, \<^verbatim>\<open>apps/src/lib/node/ledger/storage/rocksdb.rs\<close>. The crate \<^verbatim>\<open>rocksdb\<close> is the
  parameter \<open>kv_lib\<close>: an ordered map from byte strings to byte strings whose keys are compared with the
  comparator of the source. Opening the database and its options are not modelled.
\<close>

section \<open>The comparator\<close>

datatype ordering = Less | Equal | Greater

definition cmp :: "'a :: linorder \<Rightarrow> 'a \<Rightarrow> ordering" where
  "cmp a b = (if a < b then Less else if a = b then Equal else Greater)"

text \<open>\<^const>\<open>None\<close> is the panic on bytes that are not UTF-8.\<close>

definition key_comparator :: "string \<Rightarrow> string \<Rightarrow> ordering option" where
  "key_comparator a b =
     (if \<not> is_utf8 a \<or> \<not> is_utf8 b then None
      else
        (let a_vec = str_split CHR ''/'' a; b_vec = str_split CHR ''/'' b
         in Some (case (parse_u64 (hd a_vec), parse_u64 (hd b_vec)) of
              (Some a_h, Some b_h) \<Rightarrow> if a_h = b_h then cmp (tl a_vec) (tl b_vec) else cmp a_h b_h
            | _ \<Rightarrow> cmp a b)))"

definition key_eq :: "string \<Rightarrow> string \<Rightarrow> bool" where
  "key_eq a b \<longleftrightarrow> key_comparator a b = Some Equal"

section \<open>The key-value store\<close>

datatype batch_op = PutOp string string | DeleteOp string

record 'd kv_lib =
  kv_get :: "'d \<Rightarrow> string \<Rightarrow> (string option, string) outcome"
  kv_put :: "'d \<Rightarrow> string \<Rightarrow> string \<Rightarrow> ('d, string) outcome"
  kv_delete :: "'d \<Rightarrow> string \<Rightarrow> ('d, string) outcome"
  kv_write :: "'d \<Rightarrow> batch_op list \<Rightarrow> ('d, string) outcome"
  kv_flush :: "'d \<Rightarrow> (unit, string) outcome"
  kv_iter :: "'d \<Rightarrow> string \<Rightarrow> string \<Rightarrow> (string \<times> string) list option"

fun apply_op :: "batch_op \<Rightarrow> (string \<Rightarrow> string option) \<Rightarrow> string \<Rightarrow> string option" where
  "apply_op (PutOp k v) m = (\<lambda>x. if key_eq x k then Some v else m x)"
| "apply_op (DeleteOp k) m = (\<lambda>x. if key_eq x k then None else m x)"

definition kv_view :: "'d kv_lib \<Rightarrow> 'd \<Rightarrow> string \<Rightarrow> string option" where
  "kv_view K d k = (case kv_get K d k of Ok v \<Rightarrow> v | _ \<Rightarrow> None)"

text \<open>
  What the code relies on of the store, when no I/O error occurs: single writes and the operations of a
  batch in their order update the entries that are equal to their key under the comparator.
\<close>

definition kv_laws :: "'d kv_lib \<Rightarrow> bool" where
  "kv_laws K \<longleftrightarrow>
     (\<forall>d k. kv_get K d k = Ok (kv_view K d k)) \<and>
     (\<forall>d k v. \<exists>d'. kv_put K d k v = Ok d' \<and> kv_view K d' = apply_op (PutOp k v) (kv_view K d)) \<and>
     (\<forall>d k. \<exists>d'. kv_delete K d k = Ok d' \<and> kv_view K d' = apply_op (DeleteOp k) (kv_view K d)) \<and>
     (\<forall>d ops. \<exists>d'. kv_write K d ops = Ok d' \<and> kv_view K d' = fold apply_op ops (kv_view K d)) \<and>
     (\<forall>d. kv_flush K d = Ok ())"

section \<open>Values of accounts\<close>

definition diff_key :: "'e bech32_lib \<Rightarrow> block_height \<Rightarrow> string \<Rightarrow> key \<Rightarrow> (string, 'e db_error) outcome" where
  "diff_key lib height side k =
     outcome_bind (db_push lib (height_key height) ''diffs'') (\<lambda>p.
     outcome_bind (db_push lib p side) (\<lambda>q. Ok (key_string lib (key_join q k))))"

text \<open>The entries that record a change: the old value, if any, and the new value, if any.\<close>

definition diff_ops ::
  "'e bech32_lib \<Rightarrow> block_height \<Rightarrow> key \<Rightarrow> string option \<Rightarrow> string option \<Rightarrow> (batch_op list, 'e db_error) outcome" where
  "diff_ops lib height k old_value new_value =
     outcome_bind (case old_value of
         Some v \<Rightarrow> outcome_bind (diff_key lib height ''old'' k) (\<lambda>s. Ok [PutOp s v])
       | None \<Rightarrow> Ok []) (\<lambda>olds.
     outcome_bind (case new_value of
         Some v \<Rightarrow> outcome_bind (diff_key lib height ''new'' k) (\<lambda>s. Ok [PutOp s v])
       | None \<Rightarrow> Ok []) (\<lambda>news. Ok (olds @ news)))"

fun put_ops :: "'d kv_lib \<Rightarrow> batch_op list \<Rightarrow> 'd \<Rightarrow> ('d, 'e db_error) outcome" where
  "put_ops K [] d = Ok d"
| "put_ops K (PutOp k v # ops) d = outcome_bind (map_err DBError (kv_put K d k v)) (put_ops K ops)"
| "put_ops K (DeleteOp k # ops) d = outcome_bind (map_err DBError (kv_delete K d k)) (put_ops K ops)"

definition write_subspace_diff ::
  "'e bech32_lib \<Rightarrow> 'd kv_lib \<Rightarrow> 'd \<Rightarrow> block_height \<Rightarrow> key \<Rightarrow> string option \<Rightarrow> string option
     \<Rightarrow> ('d, 'e db_error) outcome" where
  "write_subspace_diff lib K d height k old_value new_value =
     outcome_bind (diff_ops lib height k old_value new_value) (\<lambda>ops. put_ops K ops d)"

definition batch_write_subspace_diff ::
  "'e bech32_lib \<Rightarrow> batch_op list \<Rightarrow> block_height \<Rightarrow> key \<Rightarrow> string option \<Rightarrow> string option
     \<Rightarrow> (batch_op list, 'e db_error) outcome" where
  "batch_write_subspace_diff lib batch height k old_value new_value =
     outcome_bind (diff_ops lib height k old_value new_value) (\<lambda>ops. Ok (batch @ ops))"

definition rocks_get :: "'d kv_lib \<Rightarrow> 'd \<Rightarrow> string \<Rightarrow> (string option, 'e db_error) outcome" where
  "rocks_get K d k = map_err DBError (kv_get K d k)"

definition rocks_read_subspace_val ::
  "'e bech32_lib \<Rightarrow> 'd kv_lib \<Rightarrow> 'd \<Rightarrow> key \<Rightarrow> (string option, 'e db_error) outcome" where
  "rocks_read_subspace_val lib K d k = outcome_bind (subspace_key lib k) (rocks_get K d)"

text \<open>The loop goes down from the height to one; \<^term>\<open>n\<close> is the height as a number.\<close>

fun height_loop ::
  "'e bech32_lib \<Rightarrow> 'd kv_lib \<Rightarrow> 'd \<Rightarrow> key \<Rightarrow> nat \<Rightarrow> (string option, 'e db_error) outcome" where
  "height_loop lib K d k 0 = Ok None"
| "height_loop lib K d k (Suc n) =
     outcome_bind (diff_key lib (of_nat (Suc n)) ''new'' k) (\<lambda>s.
     outcome_bind (rocks_get K d s) (\<lambda>val.
       case val of Some bytes \<Rightarrow> Ok (Some bytes) | None \<Rightarrow> height_loop lib K d k n))"

definition rocks_read_subspace_val_with_height ::
  "'e bech32_lib \<Rightarrow> 'd kv_lib \<Rightarrow> 'd \<Rightarrow> key \<Rightarrow> block_height \<Rightarrow> (string option, 'e db_error) outcome" where
  "rocks_read_subspace_val_with_height lib K d k height =
     outcome_bind (rocks_read_subspace_val lib K d k) (\<lambda>current.
       if current = None then Ok None else height_loop lib K d k (unat height))"

definition rocks_write_subspace_val ::
  "'e bech32_lib \<Rightarrow> 'd kv_lib \<Rightarrow> 'd \<Rightarrow> block_height \<Rightarrow> key \<Rightarrow> string \<Rightarrow> ('d \<times> i64, 'e db_error) outcome" where
  "rocks_write_subspace_val lib K d height k v =
     outcome_bind (subspace_key lib k) (\<lambda>s.
     outcome_bind (rocks_get K d s) (\<lambda>prev.
     outcome_bind (write_subspace_diff lib K d height k prev (Some v)) (\<lambda>d'.
     outcome_bind (map_err DBError (kv_put K d' s v)) (\<lambda>d''.
       Ok (d'', case prev of
                  Some prev_value \<Rightarrow> of_nat (length v) - of_nat (length prev_value)
                | None \<Rightarrow> of_nat (length v))))))"

text \<open>The previous value is looked up under the key itself, not under the key in the subspace.\<close>

definition rocks_delete_subspace_val ::
  "'e bech32_lib \<Rightarrow> 'd kv_lib \<Rightarrow> 'd \<Rightarrow> block_height \<Rightarrow> key \<Rightarrow> ('d \<times> i64, 'e db_error) outcome" where
  "rocks_delete_subspace_val lib K d height k =
     outcome_bind (subspace_key lib k) (\<lambda>s.
     outcome_bind (rocks_get K d (key_string lib k)) (\<lambda>prev.
     outcome_bind (case prev of
         Some prev_value \<Rightarrow>
           outcome_bind (write_subspace_diff lib K d height k (Some prev_value) None) (\<lambda>d'.
             Ok (d', of_nat (length prev_value)))
       | None \<Rightarrow> Ok (d, 0)) (\<lambda>(d', prev_len).
     outcome_bind (map_err DBError (kv_delete K d' s)) (\<lambda>d''. Ok (d'', prev_len)))))"

definition rocks_exec_batch :: "'d kv_lib \<Rightarrow> 'd \<Rightarrow> batch_op list \<Rightarrow> ('d, 'e db_error) outcome" where
  "rocks_exec_batch K d batch = map_err DBError (kv_write K d batch)"

definition rocks_batch_write_subspace_val ::
  "'e bech32_lib \<Rightarrow> 'd kv_lib \<Rightarrow> 'd \<Rightarrow> batch_op list \<Rightarrow> block_height \<Rightarrow> key \<Rightarrow> string
     \<Rightarrow> ('d \<times> batch_op list \<times> i64, 'e db_error) outcome" where
  "rocks_batch_write_subspace_val lib K d batch height k v =
     outcome_bind (subspace_key lib k) (\<lambda>s.
     outcome_bind (rocks_get K d s) (\<lambda>prev.
     outcome_bind (batch_write_subspace_diff lib batch height k prev (Some v)) (\<lambda>batch'.
       Ok (d, batch' @ [PutOp s v],
           case prev of
             Some old_value \<Rightarrow> of_nat (length v) - of_nat (length old_value)
           | None \<Rightarrow> of_nat (length v)))))"

definition rocks_batch_delete_subspace_val ::
  "'e bech32_lib \<Rightarrow> 'd kv_lib \<Rightarrow> 'd \<Rightarrow> batch_op list \<Rightarrow> block_height \<Rightarrow> key
     \<Rightarrow> ('d \<times> batch_op list \<times> i64, 'e db_error) outcome" where
  "rocks_batch_delete_subspace_val lib K d batch height k =
     outcome_bind (subspace_key lib k) (\<lambda>s.
     outcome_bind (rocks_get K d (key_string lib k)) (\<lambda>prev.
     outcome_bind (case prev of
         Some prev_value \<Rightarrow>
           outcome_bind (batch_write_subspace_diff lib batch height k (Some prev_value) None) (\<lambda>batch'.
             Ok (batch', of_nat (length prev_value)))
       | None \<Rightarrow> Ok (batch, 0)) (\<lambda>(batch', prev_len).
       Ok (d, batch' @ [DeleteOp s], prev_len))))"

section \<open>Blocks\<close>

text \<open>The predecessor value that is kept for a rollback.\<close>

definition pred_ops :: "'d kv_lib \<Rightarrow> 'd \<Rightarrow> string \<Rightarrow> (batch_op list, 'e db_error) outcome" where
  "pred_ops K d name =
     outcome_bind (rocks_get K d name) (\<lambda>current.
       Ok (case current of Some v \<Rightarrow> [PutOp (''pred/'' @ name) v] | None \<Rightarrow> []))"

definition rocks_write_block ::
  "('e, 't, 'h, 's, 'time, 'w) node_env \<Rightarrow> 'd kv_lib \<Rightarrow> 'd \<Rightarrow> ('h, 's, 'time, 'w) block_state_write
     \<Rightarrow> ('d, 'e db_error) outcome" where
  "rocks_write_block E K d bw =
     (let B = ne_borsh E; st = bw_state bw
      in outcome_bind (pred_ops K d ''next_epoch_min_start_height'') (\<lambda>pred_height.
         outcome_bind (pred_ops K d ''next_epoch_min_start_time'') (\<lambda>pred_time.
         outcome_bind (pred_ops K d ''tx_queue'') (\<lambda>pred_queue.
         outcome_bind (height_entries E bw) (\<lambda>entries.
         outcome_bind
           (rocks_exec_batch K d
              (pred_height
               @ [PutOp ''next_epoch_min_start_height'' (enc_height B (bs_next_epoch_min_start_height st))]
               @ pred_time
               @ [PutOp ''next_epoch_min_start_time'' (enc_time B (bs_next_epoch_min_start_time st))]
               @ pred_queue
               @ [PutOp ''tx_queue'' (enc_tx_queue B (bs_tx_queue st))]
               @ map (\<lambda>(k, v). PutOp k v) entries
               @ [PutOp ''height'' (enc_height B (bs_height st))])) (\<lambda>d'.
         outcome_bind (map_err DBError (kv_flush K d')) (\<lambda>_. Ok d')))))))"

text \<open>A path that is not UTF-8 is the error \<^verbatim>\<open>Temporary\<close> at the entry that has it.\<close>

fun rocks_read_entries ::
  "('e, 't, 'h, 's, 'time, 'w) node_env \<Rightarrow> ('h, 's) block_read \<Rightarrow> (string \<times> string) list
     \<Rightarrow> (('h, 's) block_read, 'e db_error) outcome" where
  "rocks_read_entries E acc [] = Ok acc"
| "rocks_read_entries E acc (entry # entries) =
     (if \<not> is_utf8 (fst entry) then Err DbTemporary
      else outcome_bind (read_block_entry E True acc entry) (\<lambda>acc'. rocks_read_entries E acc' entries))"

definition rocks_read_last_block ::
  "('e, 't, 'h, 's, 'time, 'w) node_env \<Rightarrow> 'd kv_lib \<Rightarrow> 'd
     \<Rightarrow> (('h, 's, 'time, 'w) block_state option, 'e db_error) outcome" where
  "rocks_read_last_block E K d =
     (let B = ne_borsh E
      in outcome_bind (rocks_get K d ''height'') (\<lambda>height_val.
         case height_val of
           None \<Rightarrow> Ok None
         | Some height_bytes \<Rightarrow> outcome_bind (decode_or (dec_height B) height_bytes) (\<lambda>height.
         outcome_bind (rocks_get K d ''next_epoch_min_start_height'') (\<lambda>min_height_val.
         case min_height_val of
           None \<Rightarrow> Ok None
         | Some min_height_bytes \<Rightarrow> outcome_bind (decode_or (dec_height B) min_height_bytes) (\<lambda>min_height.
         outcome_bind (rocks_get K d ''next_epoch_min_start_time'') (\<lambda>min_time_val.
         case min_time_val of
           None \<Rightarrow> Ok None
         | Some time_bytes \<Rightarrow> outcome_bind (decode_or (dec_time B) time_bytes) (\<lambda>min_time.
         outcome_bind (rocks_get K d ''tx_queue'') (\<lambda>queue_val.
         case queue_val of
           None \<Rightarrow> Ok None
         | Some queue_bytes \<Rightarrow> outcome_bind (decode_or (dec_tx_queue B) queue_bytes) (\<lambda>queue.
         outcome_bind (unwrap (kv_iter K d (height_prefix height) (height_prefix (next_height height)))) (\<lambda>entries.
         outcome_bind (rocks_read_entries E (block_read_init E) entries)
           (block_read_result height min_height min_time queue)))))))))))"

definition rocks_read_block_header ::
  "('e, 't, 'h, 's, 'time, 'w) node_env \<Rightarrow> 'd kv_lib \<Rightarrow> 'd \<Rightarrow> block_height
     \<Rightarrow> ('time header option, 'e db_error) outcome" where
  "rocks_read_block_header E K d height =
     outcome_bind (db_push (ne_bech32 E) (height_key height) ''header'') (\<lambda>k.
     outcome_bind (rocks_get K d (key_string (ne_bech32 E) k)) (\<lambda>val.
       case val of
         None \<Rightarrow> Ok None
       | Some v \<Rightarrow> outcome_bind (ok_or (dec_header (ne_borsh E) v) BorshCodingError) (\<lambda>h. Ok (Some h))))"

definition rocks_read_merkle_tree_stores ::
  "('e, 't, 'h, 's, 'time, 'w) node_env \<Rightarrow> 'd kv_lib \<Rightarrow> 'd \<Rightarrow> block_height
     \<Rightarrow> (('h, 's) merkle_stores option, 'e db_error) outcome" where
  "rocks_read_merkle_tree_stores E K d height =
     outcome_bind (db_push (ne_bech32 E) (height_key height) ''tree'') (\<lambda>tree_key.
       read_stores_loop E (rocks_get K d) tree_key store_types (merkle_stores_default (ne_smt E)))"

text \<open>The upper bound of a prefix: its last byte is increased by one.\<close>

definition upper_prefix :: "string \<Rightarrow> string" where
  "upper_prefix p = (if p = [] then [] else butlast p @ [char_of (byte (last p) + 1)])"

definition rocks_iter_prefix ::
  "'e bech32_lib \<Rightarrow> 'd kv_lib \<Rightarrow> 'd \<Rightarrow> key \<Rightarrow> (string \<times> string \<times> u64) list option" where
  "rocks_iter_prefix lib K d p =
     (let pre = ''subspace/'' @ key_string lib p
      in map_option (prefix_iterator ''subspace/'') (kv_iter K d pre (upper_prefix pre)))"

definition rocks_ops ::
  "('e, 't, 'h, 's, 'time, 'w) node_env \<Rightarrow> 'd kv_lib \<Rightarrow> ('d, batch_op list, 'e, 'h, 's, 'time, 'w) db_ops" where
  "rocks_ops E K =
     \<lparr> db_read_last_block = rocks_read_last_block E K,
       db_write_block = rocks_write_block E K,
       db_read_block_header = rocks_read_block_header E K,
       db_read_merkle_tree_stores = rocks_read_merkle_tree_stores E K,
       db_read_subspace_val = rocks_read_subspace_val (ne_bech32 E) K,
       db_read_subspace_val_with_height = rocks_read_subspace_val_with_height (ne_bech32 E) K,
       db_write_subspace_val = rocks_write_subspace_val (ne_bech32 E) K,
       db_delete_subspace_val = rocks_delete_subspace_val (ne_bech32 E) K,
       db_batch = [],
       db_exec_batch = rocks_exec_batch K,
       db_batch_write_subspace_val = rocks_batch_write_subspace_val (ne_bech32 E) K,
       db_batch_delete_subspace_val = rocks_batch_delete_subspace_val (ne_bech32 E) K,
       db_iter_prefix = rocks_iter_prefix (ne_bech32 E) K \<rparr>"

section \<open>Keys under the comparator\<close>

text \<open>
  The keys of the database: UTF-8 strings that start with a height in decimal, or with a character
  after the digits. On them the comparator is a linear order, by the height first.
\<close>

definition db_key :: "string \<Rightarrow> bool" where
  "db_key s \<longleftrightarrow> is_utf8 s \<and>
     ((\<exists>h. hd (str_split CHR ''/'' s) = show_u64 h) \<or> (\<exists>c t. s = c # t \<and> CHR '':'' < c))"

definition key_rank :: "string \<Rightarrow> nat \<times> u64 \<times> string list" where
  "key_rank s =
     (case parse_u64 (hd (str_split CHR ''/'' s)) of
        Some h \<Rightarrow> (0, h, tl (str_split CHR ''/'' s))
      | None \<Rightarrow> (1, 0, [s]))"

lemma db_key_heightI: "is_utf8 s \<Longrightarrow> hd (str_split CHR ''/'' s) = show_u64 h \<Longrightarrow> db_key s"
  by (auto simp: db_key_def)

lemma db_key_letterI: "is_utf8 (c # t) \<Longrightarrow> CHR '':'' < c \<Longrightarrow> db_key (c # t)"
  by (auto simp: db_key_def)

lemma cmp_simps [simp]: "cmp a b = Less \<longleftrightarrow> a < b" "cmp a b = Equal \<longleftrightarrow> a = b" "cmp a b = Greater \<longleftrightarrow> b < a"
  by (auto simp: cmp_def)

lemma char_digit_after: "CHR '':'' < c \<Longrightarrow> char_digit c = None"
  by (simp add: char_digit_def less_char_def)

lemma parse_u64_letter: "CHR '':'' < c \<Longrightarrow> parse_u64 (c # t) = None"
  by (auto simp: parse_u64_def char_digit_after Let_def)

lemma hd_str_split_Cons: "c \<noteq> sep \<Longrightarrow> \<exists>u. hd (str_split sep (c # t)) = c # u"
  by (cases "str_split sep t") auto

lemma show_u64_digit: "\<exists>c s. show_u64 h = c # s \<and> c < CHR '':''"
  using height_prefix_digit [of h] by (cases "show_u64 h") (auto simp: height_prefix_def block_height_seg_raw_def show_u64_def)

lemma parse_u64_hd_letter: "CHR '':'' < c \<Longrightarrow> parse_u64 (hd (str_split CHR ''/'' (c # t))) = None"
  using hd_str_split_Cons [of c "CHR ''/''" t] parse_u64_letter [of c] by (fastforce simp: less_char_def)

lemma split_hd_digit:
  assumes "hd (str_split CHR ''/'' s) = show_u64 h"
  shows "\<exists>c t. s = c # t \<and> c < CHR '':''"
proof (cases s)
  case Nil
  with assms show ?thesis using show_u64_digit [of h] by auto
next
  case (Cons c t)
  show ?thesis
  proof (cases "c = CHR ''/''")
    case True
    with assms Cons show ?thesis using show_u64_digit [of h] by auto
  next
    case False
    then show ?thesis
      using hd_str_split_Cons [of c "CHR ''/''" t] assms Cons show_u64_digit [of h] by fastforce
  qed
qed

lemma key_comparator_rank:
  assumes "db_key a" "db_key b"
  shows "key_comparator a b = Some (cmp (key_rank a) (key_rank b))"
proof -
  consider (heights) h h' where "hd (str_split CHR ''/'' a) = show_u64 h" "hd (str_split CHR ''/'' b) = show_u64 h'"
    | (left) h c t where "hd (str_split CHR ''/'' a) = show_u64 h" "b = c # t" "CHR '':'' < c"
    | (right) h c t where "a = c # t" "CHR '':'' < c" "hd (str_split CHR ''/'' b) = show_u64 h"
    | (letters) c t c' t' where "a = c # t" "CHR '':'' < c" "b = c' # t'" "CHR '':'' < c'"
    using assms unfolding db_key_def by blast
  then show ?thesis
  proof cases
    case heights
    then show ?thesis
      using assms by (simp add: key_comparator_def db_key_def key_rank_def parse_show_u64 cmp_def Let_def)
  next
    case left
    moreover have "a < b" using split_hd_digit [OF left(1)] left(2,3) by auto
    ultimately show ?thesis
      using assms parse_u64_hd_letter [OF left(3), of t]
      by (simp add: key_comparator_def db_key_def key_rank_def parse_show_u64 cmp_def)
  next
    case right
    moreover have "b < a" using split_hd_digit [OF right(3)] right(1,2) by auto
    ultimately show ?thesis
      using assms parse_u64_hd_letter [OF right(2), of t]
      by (auto simp: key_comparator_def db_key_def key_rank_def parse_show_u64 cmp_def)
  next
    case letters
    then show ?thesis
      using assms parse_u64_hd_letter [OF letters(2), of t] parse_u64_hd_letter [OF letters(4), of t']
      by (simp add: key_comparator_def db_key_def key_rank_def cmp_def)
  qed
qed

lemma key_rank_inject:
  assumes "db_key a" "db_key b" "key_rank a = key_rank b"
  shows "a = b"
proof -
  have rank: "(\<exists>h. key_rank s = (0, h, tl (str_split CHR ''/'' s)) \<and> hd (str_split CHR ''/'' s) = show_u64 h) \<or>
      key_rank s = (1, 0, [s])" if "db_key s" for s
    using that parse_u64_hd_letter by (auto simp: db_key_def key_rank_def parse_show_u64)
  have "s = str_join CHR ''/'' (hd (str_split CHR ''/'' s) # tl (str_split CHR ''/'' s))" for s
    by simp
  then show ?thesis
    using rank [OF assms(1)] rank [OF assms(2)] assms(3) by (metis Pair_inject list.inject zero_neq_one)
qed

lemma key_eq_db_key: "db_key a \<Longrightarrow> db_key b \<Longrightarrow> key_eq a b \<longleftrightarrow> a = b"
  using key_rank_inject by (auto simp: key_eq_def key_comparator_rank)

text \<open>
  Claim C30. On the keys that the ledger writes, the comparator of the database is a total linear order: it
  always gives an order, only equal keys compare as equal, so that no entry replaces another one, and
  it is antisymmetric and transitive. Entries of a height come before all others, sorted by the height as a
  number and then by the segments after it; the other keys are in the order of their bytes.
\<close>

theorem key_comparator_linear:
  assumes "db_key a" "db_key b" "db_key c"
  shows "key_comparator a b \<noteq> None \<and> (key_comparator a b = Some Equal \<longleftrightarrow> a = b) \<and>
    (key_comparator a b = Some Less \<longleftrightarrow> key_comparator b a = Some Greater) \<and>
    (key_comparator a b = Some Less \<longrightarrow> key_comparator b c = Some Less \<longrightarrow> key_comparator a c = Some Less) \<and>
    (\<forall>h h' s s'. a = show_u64 h @ CHR ''/'' # s \<longrightarrow> b = show_u64 h' @ CHR ''/'' # s' \<longrightarrow>
       (key_comparator a b = Some Less \<longleftrightarrow> h < h' \<or> h = h' \<and> str_split CHR ''/'' s < str_split CHR ''/'' s')) \<and>
    (\<forall>h s x t. a = show_u64 h @ CHR ''/'' # s \<longrightarrow> b = x # t \<longrightarrow> CHR '':'' < x \<longrightarrow> key_comparator a b = Some Less) \<and>
    (\<forall>x t y u. a = x # t \<longrightarrow> b = y # u \<longrightarrow> CHR '':'' < x \<longrightarrow> CHR '':'' < y \<longrightarrow> (key_comparator a b = Some Less \<longleftrightarrow> a < b))"
proof -
  have no_slash: "CHR ''/'' \<notin> set (show_u64 h)" for h
    using height_raw_no_slash [of h] by (simp add: block_height_seg_raw_def)
  have height: "key_rank (show_u64 h @ CHR ''/'' # s) = (0, h, str_split CHR ''/'' s)" for h s
    using no_slash by (simp add: key_rank_def str_split_append parse_show_u64)
  have letter: "key_rank (x # t) = (1, 0, [x # t])" if "CHR '':'' < x" for x t
    using parse_u64_hd_letter [OF that] by (simp add: key_rank_def)
  have "key_rank a = key_rank b \<longleftrightarrow> a = b"
    using key_rank_inject [OF assms(1,2)] by blast
  then show ?thesis
    by (simp only: key_comparator_rank assms option.inject cmp_simps option.distinct not_False_eq_True simp_thms)
      (auto simp: height letter intro: less_trans)
qed

lemma show_u64_examples: "show_u64 9 = ''9''" "show_u64 10 = ''10''"
  by code_simp+

theorem key_comparator_linear_witness:
  "key_comparator ''9/hash'' ''10/hash'' = Some Less \<and> key_comparator ''9/hash'' ''height'' = Some Less"
proof -
  have k9: "db_key ''9/hash''"
    by (rule db_key_heightI [of _ 9]) (simp_all add: show_u64_examples)
  have k10: "db_key ''10/hash''"
    by (rule db_key_heightI [of _ 10]) (simp_all add: show_u64_examples)
  have kh: "db_key ''height''"
    by (rule db_key_letterI) (simp_all add: less_char_def)
  have s9: "''9/hash'' = show_u64 9 @ CHR ''/'' # ''hash''" and s10: "''10/hash'' = show_u64 10 @ CHR ''/'' # ''hash''"
    by (simp_all add: show_u64_examples)
  have "key_comparator ''9/hash'' ''10/hash'' = Some Less \<longleftrightarrow>
      (9 :: u64) < 10 \<or> (9 :: u64) = 10 \<and> str_split CHR ''/'' ''hash'' < str_split CHR ''/'' ''hash''"
    by (rule key_comparator_linear [OF k9 k10 kh, THEN conjunct2, THEN conjunct2, THEN conjunct2, THEN conjunct2,
          THEN conjunct1, THEN spec, THEN spec, THEN spec, THEN spec, THEN mp [OF _ s9], THEN mp [OF _ s10]])
  moreover have "CHR '':'' < CHR ''h''" by (simp add: less_char_def)
  then have "key_comparator ''9/hash'' ''height'' = Some Less"
    by (rule key_comparator_linear [OF k9 kh k10, THEN conjunct2, THEN conjunct2, THEN conjunct2, THEN conjunct2,
          THEN conjunct2, THEN conjunct1, THEN spec, THEN spec, THEN spec, THEN spec, THEN mp [OF _ s9],
          THEN mp [OF _ refl], THEN mp])
  ultimately show ?thesis by simp
qed

section \<open>The backend implements the interface\<close>

definition rocks_good :: "'e bech32_lib \<Rightarrow> 'd kv_lib \<Rightarrow> key \<Rightarrow> bool" where
  "rocks_good lib K k \<longleftrightarrow> kv_laws K \<and> good_key lib k \<and> is_utf8 (key_string lib k)"

lemma rocks_goodD: "rocks_good lib K k \<Longrightarrow> kv_laws K" "rocks_good lib K k \<Longrightarrow> good_key lib k"
  by (simp_all add: rocks_good_def)

lemma is_utf8_append_ascii: "\<forall>c\<in>set s. byte c < 128 \<Longrightarrow> is_utf8 (s @ t) = is_utf8 t"
  by (induct s) auto

lemma is_utf8_show_u64: "is_utf8 (show_u64 h @ t) = is_utf8 t"
  using show_nat_digits [of _ "unat h"] by (intro is_utf8_append_ascii) (fastforce simp: show_u64_def)

lemma subspace_string_eq:
  "good_key lib k \<Longrightarrow> subspace_string lib k = ''subspace/'' @ key_string lib k"
  by (simp add: subspace_string_def good_key_def key_string_StringSeg)

lemma db_key_subspace: "rocks_good lib K k \<Longrightarrow> db_key (subspace_string lib k)"
  by (auto simp: rocks_good_def subspace_string_eq less_char_def intro!: db_key_letterI)

text \<open>The string of a difference.\<close>

definition diff_string :: "'e bech32_lib \<Rightarrow> block_height \<Rightarrow> string \<Rightarrow> key \<Rightarrow> string" where
  "diff_string lib height side k = show_u64 height @ ''/diffs/'' @ side @ ''/'' @ key_string lib k"

lemma key_wf_StringSeg: "key_wf (Key (StringSeg s # segs)) \<longleftrightarrow> seg_wf (StringSeg s) \<and> list_all seg_wf segs"
  by (simp add: key_wf_def)

lemma diff_key_eq:
  assumes "good_key lib k" "side \<in> {''old'', ''new''}"
  shows "diff_key lib height side k = Ok (diff_string lib height side k)"
proof -
  have laws: "bech32_laws lib" and wf: "key_wf k"
    using assms(1) by (simp_all add: good_key_def)
  have wf1: "key_wf (Key (StringSeg side # segments k))"
    and wf2: "key_wf (Key (StringSeg ''diffs'' # StringSeg side # segments k))"
    using wf assms(2) by (auto simp: key_wf_def key_constants)
  have "key_string lib (Key (StringSeg h # StringSeg ''diffs'' # StringSeg side # segments k)) =
      h @ ''/diffs/'' @ side @ ''/'' @ key_string lib k" for h
    using key_string_StringSeg [OF laws wf2, of h] key_string_StringSeg [OF laws wf1, of "''diffs''"]
      key_string_StringSeg [OF laws wf, of side] by simp
  moreover have "db_push lib (height_key height) ''diffs'' = Ok (Key [StringSeg (show_u64 height), StringSeg ''diffs''])"
    by (simp add: height_key_def key_from_seg_def block_height_seg_raw_def db_push_lit)
  moreover have "db_push lib (Key segs) side = Ok (Key (segs @ [StringSeg side]))" for segs
    using assms(2) by (auto simp: db_push_lit)
  ultimately show ?thesis
    by (simp add: diff_key_def diff_string_def key_join_def)
qed

lemma diff_ops_eq:
  assumes "good_key lib k"
  shows "diff_ops lib height k old_value new_value =
    Ok ((case old_value of Some v \<Rightarrow> [PutOp (diff_string lib height ''old'' k) v] | None \<Rightarrow> [])
      @ (case new_value of Some v \<Rightarrow> [PutOp (diff_string lib height ''new'' k) v] | None \<Rightarrow> []))"
  using assms by (simp add: diff_ops_def diff_key_eq split: option.splits)

lemma hd_split_diff_string: "hd (str_split CHR ''/'' (diff_string lib height side k)) = show_u64 height"
  using height_raw_no_slash [of height]
  by (simp add: diff_string_def str_split_append block_height_seg_raw_def)

lemma db_key_diff:
  "rocks_good lib K k \<Longrightarrow> side \<in> {''old'', ''new''} \<Longrightarrow> db_key (diff_string lib height side k)"
  by (rule db_key_heightI [OF _ hd_split_diff_string])
    (auto simp: diff_string_def is_utf8_show_u64 rocks_good_def)

lemma subspace_not_diff:
  "rocks_good lib K k \<Longrightarrow> subspace_string lib k \<noteq> diff_string lib height side k'"
  using show_u64_digit [of height]
  by (auto simp: rocks_good_def subspace_string_eq diff_string_def less_char_def)

lemma key_eq_subspace_diff:
  "rocks_good lib K k \<Longrightarrow> rocks_good lib K k' \<Longrightarrow> side \<in> {''old'', ''new''} \<Longrightarrow>
     \<not> key_eq (subspace_string lib k) (diff_string lib height side k')"
  using db_key_subspace [of lib K k] db_key_diff [of lib K k' side height] subspace_not_diff [of lib K k]
  by (simp add: key_eq_db_key)

lemma key_eq_subspace:
  "rocks_good lib K k \<Longrightarrow> rocks_good lib K k' \<Longrightarrow>
     key_eq (subspace_string lib k) (subspace_string lib k') \<longleftrightarrow> k = k'"
  using db_key_subspace [of lib K k] db_key_subspace [of lib K k']
    rocks_goodD(2) [of lib K k] rocks_goodD(2) [of lib K k']
  by (simp add: key_eq_db_key)

text \<open>The differences do not show in the values of accounts.\<close>

lemma fold_diff_ops_subspace:
  assumes "rocks_good lib K k" "rocks_good lib K k'" "diff_ops lib height k old_value new_value = Ok ops"
  shows "fold apply_op ops m (subspace_string lib k') = m (subspace_string lib k')"
  using assms(3) key_eq_subspace_diff [OF assms(2,1)]
  by (auto simp: diff_ops_eq [OF rocks_goodD(2) [OF assms(1)]] split: option.splits)

lemma rocks_get_view: "kv_laws K \<Longrightarrow> rocks_get K d k = Ok (kv_view K d k)"
  unfolding kv_laws_def rocks_get_def by (metis map_err.simps(1))

lemma put_ops_view:
  assumes "kv_laws K"
  shows "\<exists>d'. (put_ops K ops d :: ('d, 'e db_error) outcome) = Ok d' \<and> kv_view K d' = fold apply_op ops (kv_view K d)"
proof (induct ops arbitrary: d)
  case (Cons op ops)
  show ?case
  proof (cases op)
    case (PutOp k v)
    obtain d1 where "kv_put K d k v = Ok d1" "kv_view K d1 = apply_op (PutOp k v) (kv_view K d)"
      using assms unfolding kv_laws_def by blast
    then show ?thesis using Cons [of d1] by (simp add: PutOp)
  next
    case (DeleteOp k)
    obtain d1 where "kv_delete K d k = Ok d1" "kv_view K d1 = apply_op (DeleteOp k) (kv_view K d)"
      using assms unfolding kv_laws_def by blast
    then show ?thesis using Cons [of d1] by (simp add: DeleteOp)
  qed
qed simp

lemma rocks_read_view:
  "kv_laws K \<Longrightarrow> rocks_read_subspace_val lib K d k = Ok (kv_view K d (subspace_string lib k))"
  by (simp add: rocks_read_subspace_val_def subspace_key_string rocks_get_view)

lemma write_subspace_diff_view:
  fixes lib :: "'e bech32_lib"
  assumes "rocks_good lib K k"
  shows "\<exists>d' ops. write_subspace_diff lib K d height k old_value new_value = Ok d' \<and>
    diff_ops lib height k old_value new_value = Ok ops \<and> kv_view K d' = fold apply_op ops (kv_view K d)"
proof -
  obtain ops where ops: "diff_ops lib height k old_value new_value = Ok ops"
    using diff_ops_eq [OF rocks_goodD(2) [OF assms]] by blast
  with put_ops_view [OF rocks_goodD(1) [OF assms], where 'e = 'e, of ops d] show ?thesis
    by (simp add: write_subspace_diff_def)
qed

lemma rocks_write_view:
  assumes "rocks_good lib K k"
  shows "\<exists>d' n ops. rocks_write_subspace_val lib K d height k v = Ok (d', n) \<and>
    diff_ops lib height k (kv_view K d (subspace_string lib k)) (Some v) = Ok ops \<and>
    kv_view K d' = apply_op (PutOp (subspace_string lib k) v) (fold apply_op ops (kv_view K d))"
proof -
  let ?s = "subspace_string lib k"
  obtain d1 ops where d1: "write_subspace_diff lib K d height k (kv_view K d ?s) (Some v) = Ok d1"
    "diff_ops lib height k (kv_view K d ?s) (Some v) = Ok ops" "kv_view K d1 = fold apply_op ops (kv_view K d)"
    using write_subspace_diff_view [OF assms] by blast
  obtain d2 where "kv_put K d1 ?s v = Ok d2" "kv_view K d2 = apply_op (PutOp ?s v) (kv_view K d1)"
    using rocks_goodD(1) [OF assms] unfolding kv_laws_def by blast
  with d1 show ?thesis
    by (simp add: rocks_write_subspace_val_def subspace_key_string rocks_get_view [OF rocks_goodD(1) [OF assms]])
qed

lemma rocks_delete_view:
  assumes "rocks_good lib K k"
  shows "\<exists>d' n ops. rocks_delete_subspace_val lib K d height k = Ok (d', n) \<and>
    diff_ops lib height k (kv_view K d (key_string lib k)) None = Ok ops \<and>
    n = (case kv_view K d (key_string lib k) of Some v \<Rightarrow> of_nat (length v) | None \<Rightarrow> 0) \<and>
    kv_view K d' = apply_op (DeleteOp (subspace_string lib k)) (fold apply_op ops (kv_view K d))"
proof -
  let ?s = "subspace_string lib k" and ?prev = "kv_view K d (key_string lib k)"
  obtain d1 ops where d1: "write_subspace_diff lib K d height k ?prev None = Ok d1"
    "diff_ops lib height k ?prev None = Ok ops" "kv_view K d1 = fold apply_op ops (kv_view K d)"
    using write_subspace_diff_view [OF assms] by blast
  obtain d2 where d2: "kv_delete K d1 ?s = Ok d2" "kv_view K d2 = apply_op (DeleteOp ?s) (kv_view K d1)"
    using rocks_goodD(1) [OF assms] unfolding kv_laws_def by blast
  have del: "rocks_delete_subspace_val lib K d height k =
      outcome_bind (case ?prev of Some v \<Rightarrow> outcome_bind (Ok d1) (\<lambda>d'. Ok (d', of_nat (length v))) | None \<Rightarrow> Ok (d, 0))
        (\<lambda>(d', prev_len). outcome_bind (map_err DBError (kv_delete K d' ?s)) (\<lambda>d''. Ok (d'', prev_len)))"
    using d1(1) by (cases ?prev) (simp_all add: rocks_delete_subspace_val_def subspace_key_string
        rocks_get_view [OF rocks_goodD(1) [OF assms]])
  show ?thesis
  proof (cases ?prev)
    case None
    then have "ops = []" "d1 = d"
      using d1(1,2) by (simp_all add: diff_ops_eq rocks_goodD(2) [OF assms] write_subspace_diff_def)
    with None d2 d1(2) show ?thesis by (intro exI [of _ d2] exI [of _ 0] exI [of _ "[]"]) (simp add: del)
  next
    case (Some v)
    with d2 d1 show ?thesis by (simp add: del)
  qed
qed

lemma rocks_batch_write_eq:
  assumes "rocks_good lib K k"
  shows "\<exists>n ops. rocks_batch_write_subspace_val lib K d batch height k v = Ok (d, batch @ ops @ [PutOp (subspace_string lib k) v], n) \<and>
    diff_ops lib height k (kv_view K d (subspace_string lib k)) (Some v) = Ok ops"
  by (simp add: rocks_batch_write_subspace_val_def batch_write_subspace_diff_def subspace_key_string
      rocks_get_view [OF rocks_goodD(1) [OF assms]] diff_ops_eq [OF rocks_goodD(2) [OF assms]])

lemma rocks_batch_delete_eq:
  assumes "rocks_good lib K k"
  shows "\<exists>n ops. rocks_batch_delete_subspace_val lib K d batch height k = Ok (d, batch @ ops @ [DeleteOp (subspace_string lib k)], n) \<and>
    diff_ops lib height k (kv_view K d (key_string lib k)) None = Ok ops"
  by (simp add: rocks_batch_delete_subspace_val_def batch_write_subspace_diff_def subspace_key_string
      rocks_get_view [OF rocks_goodD(1) [OF assms]] diff_ops_eq [OF rocks_goodD(2) [OF assms]] split: option.splits)

lemma rocks_exec_view:
  assumes "kv_laws K"
  shows "\<exists>d'. (rocks_exec_batch K d batch :: ('d, 'e db_error) outcome) = Ok d' \<and> kv_view K d' = fold apply_op batch (kv_view K d)"
proof -
  obtain d' where "kv_write K d batch = Ok d'" "kv_view K d' = fold apply_op batch (kv_view K d)"
    using assms unfolding kv_laws_def by blast
  then show ?thesis by (simp add: rocks_exec_batch_def)
qed

interpretation rocks: subspace_db "rocks_ops E K" "rocks_good (ne_bech32 E) K"
  "\<lambda>d k. kv_view K d (subspace_string (ne_bech32 E) k)"
  "\<lambda>d b k. fold apply_op b (kv_view K d) (subspace_string (ne_bech32 E) k)"
proof unfold_locales
  let ?lib = "ne_bech32 E" and ?s = "subspace_string (ne_bech32 E)"
  fix d b k v and h :: block_height
  assume good: "rocks_good ?lib K k"
  note laws = rocks_goodD(1) [OF good]
  show "db_read_subspace_val (rocks_ops E K) d k = Ok (kv_view K d (?s k))"
    by (simp add: rocks_ops_def rocks_read_view [OF laws])
  show "fold apply_op (db_batch (rocks_ops E K)) (kv_view K d) (?s k) = kv_view K d (?s k)"
    by (simp add: rocks_ops_def)
  show "\<exists>d' n. db_write_subspace_val (rocks_ops E K) d h k v = Ok (d', n) \<and>
      (\<forall>k'. rocks_good ?lib K k' \<longrightarrow> kv_view K d' (?s k') = (if k' = k then Some v else kv_view K d (?s k')))"
    using rocks_write_view [OF good, of d h v] fold_diff_ops_subspace [OF good]
    by (fastforce simp: rocks_ops_def key_eq_subspace good)
  show "\<exists>d' n. db_delete_subspace_val (rocks_ops E K) d h k = Ok (d', n) \<and>
      (\<forall>k'. rocks_good ?lib K k' \<longrightarrow> kv_view K d' (?s k') = (if k' = k then None else kv_view K d (?s k')))"
    using rocks_delete_view [OF good, of d h] fold_diff_ops_subspace [OF good]
    by (fastforce simp: rocks_ops_def key_eq_subspace good)
  show "\<exists>d' b' n. db_batch_write_subspace_val (rocks_ops E K) d b h k v = Ok (d', b', n) \<and>
      (\<forall>k'. rocks_good ?lib K k' \<longrightarrow> fold apply_op b' (kv_view K d') (?s k') =
        (if k' = k then Some v else fold apply_op b (kv_view K d) (?s k')))"
    using rocks_batch_write_eq [OF good, of d b h v] fold_diff_ops_subspace [OF good]
    by (fastforce simp: rocks_ops_def key_eq_subspace good)
  show "\<exists>d' b' n. db_batch_delete_subspace_val (rocks_ops E K) d b h k = Ok (d', b', n) \<and>
      (\<forall>k'. rocks_good ?lib K k' \<longrightarrow> fold apply_op b' (kv_view K d') (?s k') =
        (if k' = k then None else fold apply_op b (kv_view K d) (?s k')))"
    using rocks_batch_delete_eq [OF good, of d b h] fold_diff_ops_subspace [OF good]
    by (fastforce simp: rocks_ops_def key_eq_subspace good)
  show "\<exists>d'. db_exec_batch (rocks_ops E K) d b = Ok d' \<and>
      (\<forall>k'. rocks_good ?lib K k' \<longrightarrow> kv_view K d' (?s k') = fold apply_op b (kv_view K d) (?s k'))"
    using rocks_exec_view [OF laws, of d b] by (auto simp: rocks_ops_def)
qed

section \<open>Values at earlier heights\<close>

text \<open>A sequence of writes, each at a height, and what it says of a key at a height.\<close>

type_synonym write_event = "block_height \<times> key \<times> string"

fun rocks_run :: "'e bech32_lib \<Rightarrow> 'd kv_lib \<Rightarrow> 'd \<Rightarrow> write_event list \<Rightarrow> ('d, 'e db_error) outcome" where
  "rocks_run lib K d [] = Ok d"
| "rocks_run lib K d ((height, k, v) # evs) =
     outcome_bind (rocks_write_subspace_val lib K d height k v) (\<lambda>(d', _). rocks_run lib K d' evs)"

definition value_at :: "write_event list \<Rightarrow> key \<Rightarrow> block_height \<Rightarrow> string option" where
  "value_at evs k h = foldl (\<lambda>cur (h', k', v). if k' = k \<and> h' \<le> h then Some v else cur) None evs"

definition written_at :: "write_event list \<Rightarrow> key \<Rightarrow> block_height \<Rightarrow> string option" where
  "written_at evs k h = foldl (\<lambda>cur (h', k', v). if k' = k \<and> h' = h then Some v else cur) None evs"

definition current_value :: "write_event list \<Rightarrow> key \<Rightarrow> string option" where
  "current_value evs k = foldl (\<lambda>cur (_, k', v). if k' = k then Some v else cur) None evs"

lemma rocks_run_append:
  "rocks_run lib K d (evs @ evs') = outcome_bind (rocks_run lib K d evs) (\<lambda>d'. rocks_run lib K d' evs')"
proof (induct evs arbitrary: d)
  case (Cons e evs)
  then show ?case
    by (cases e; cases "rocks_write_subspace_val lib K d (fst e) (fst (snd e)) (snd (snd e))") auto
qed simp

lemma diff_string_inject:
  assumes "rocks_good lib K k" "rocks_good lib K k'" "side \<in> {''old'', ''new''}" "side' \<in> {''old'', ''new''}"
  shows "diff_string lib h side k = diff_string lib h' side' k' \<longleftrightarrow> h = h' \<and> side = side' \<and> k = k'"
proof
  have split: "str_split CHR ''/'' (diff_string lib h side k) = show_u64 h # ''diffs'' # side # str_split CHR ''/'' (key_string lib k)"
    if "side \<in> {''old'', ''new''}" for h side k
  proof -
    have "CHR ''/'' \<notin> set (show_u64 h)" "CHR ''/'' \<notin> set side"
      using that height_raw_no_slash [of h] by (auto simp: block_height_seg_raw_def)
    then show ?thesis
      using str_split_append [of "CHR ''/''" "''diffs''"] by (simp add: diff_string_def str_split_append)
  qed
  assume eq: "diff_string lib h side k = diff_string lib h' side' k'"
  then have "show_u64 h = show_u64 h'" "side = side'" "str_split CHR ''/'' (key_string lib k) = str_split CHR ''/'' (key_string lib k')"
    using arg_cong [OF eq, of "str_split CHR ''/''"] unfolding split [OF assms(3)] split [OF assms(4)] by simp_all
  moreover from this(3) have "key_string lib k = key_string lib k'"
    by (metis str_join_split)
  then have "k = k'"
    using assms(1,2) key_string_inject by (auto simp: rocks_good_def good_key_def)
  moreover from \<open>show_u64 h = show_u64 h'\<close> have "h = h'"
    by (metis parse_show_u64 option.inject)
  ultimately show "h = h' \<and> side = side' \<and> k = k'" by blast
qed simp

lemma rocks_run_view:
  assumes "kv_view K d = (\<lambda>_. None)" "\<forall>(_, k, _)\<in>set evs. rocks_good lib K k"
  shows "\<exists>d'. rocks_run lib K d evs = Ok d' \<and> (\<forall>k. rocks_good lib K k \<longrightarrow>
    kv_view K d' (subspace_string lib k) = current_value evs k \<and>
    (\<forall>h. kv_view K d' (diff_string lib h ''new'' k) = written_at evs k h))"
  using assms(2)
proof (induct evs rule: rev_induct)
  case Nil
  show ?case using assms(1) by (simp add: current_value_def written_at_def)
next
  case (snoc e evs)
  obtain h k v where e: "e = (h, k, v)" by (cases e)
  with snoc.prems have good: "rocks_good lib K k" by simp
  obtain d1 where d1: "rocks_run lib K d evs = Ok d1"
    "\<forall>k. rocks_good lib K k \<longrightarrow> kv_view K d1 (subspace_string lib k) = current_value evs k \<and>
      (\<forall>h. kv_view K d1 (diff_string lib h ''new'' k) = written_at evs k h)"
    using snoc by auto
  obtain d2 n ops where d2: "rocks_write_subspace_val lib K d1 h k v = Ok (d2, n)"
    "diff_ops lib h k (kv_view K d1 (subspace_string lib k)) (Some v) = Ok ops"
    "kv_view K d2 = apply_op (PutOp (subspace_string lib k) v) (fold apply_op ops (kv_view K d1))"
    using rocks_write_view [OF good] by blast
  have diff: "key_eq (diff_string lib h' ''new'' k') (diff_string lib h side k) \<longleftrightarrow> h' = h \<and> side = ''new'' \<and> k' = k"
    if "rocks_good lib K k'" "side \<in> {''old'', ''new''}" for h' k' side
    using db_key_diff [OF that(1), of "''new''" h'] db_key_diff [OF good that(2), of h]
      diff_string_inject [OF that(1) good, of "''new''" side h' h] that(2)
    by (auto simp: key_eq_db_key)
  have sub: "\<not> key_eq (diff_string lib h' ''new'' k') (subspace_string lib k)" if "rocks_good lib K k'" for h' k'
    using db_key_diff [OF that, of "''new''" h'] db_key_subspace [OF good] subspace_not_diff [OF good]
    by (metis insertCI key_eq_db_key)
  have "kv_view K d2 (subspace_string lib k') = current_value (evs @ [e]) k' \<and>
      (\<forall>h'. kv_view K d2 (diff_string lib h' ''new'' k') = written_at (evs @ [e]) k' h')"
    if "rocks_good lib K k'" for k'
  proof -
    have "kv_view K d2 (subspace_string lib k') = current_value (evs @ [e]) k'"
      using d1(2) that by (auto simp: d2(3) key_eq_subspace [OF that good] fold_diff_ops_subspace [OF good that d2(2)]
          current_value_def e)
    moreover have "kv_view K d2 (diff_string lib h' ''new'' k') = written_at (evs @ [e]) k' h'" for h'
      using d1(2) that d2(2) sub [OF that] diff [OF that]
      by (auto simp: d2(3) diff_ops_eq [OF rocks_goodD(2) [OF good]] written_at_def e split: option.splits)
    ultimately show ?thesis by blast
  qed
  with d1(1) d2(1) show ?case
    by (simp add: rocks_run_append e)
qed

lemma written_at_snoc: "written_at (evs @ [(h', k', v)]) k h = (if k' = k \<and> h' = h then Some v else written_at evs k h)"
  by (simp add: written_at_def)

lemma value_at_snoc: "value_at (evs @ [(h', k', v)]) k h = (if k' = k \<and> h' \<le> h then Some v else value_at evs k h)"
  by (simp add: value_at_def)

lemma written_at_None: "\<forall>e\<in>set evs. fst e \<noteq> h \<Longrightarrow> written_at evs k h = None"
  by (induct evs rule: rev_induct) (auto simp: written_at_snoc written_at_def [of "[]"])

lemma value_at_zero: "\<forall>e\<in>set evs. fst e \<noteq> 0 \<Longrightarrow> value_at evs k 0 = None"
  by (induct evs rule: rev_induct) (auto simp: value_at_snoc value_at_def [of "[]"])

text \<open>With heights in order, the value at a height is the one written there, or the one at the height before.\<close>

lemma value_at_step:
  assumes "sorted (map fst evs)" "unat h = Suc n"
  shows "value_at evs k h = (case written_at evs k h of Some v \<Rightarrow> Some v | None \<Rightarrow> value_at evs k (h - 1))"
  using assms(1)
proof (induct evs rule: rev_induct)
  case Nil
  then show ?case by (simp add: value_at_def written_at_def)
next
  case (snoc e evs)
  obtain h' k' v where e: "e = (h', k', v)" by (cases e)
  have pred: "x \<le> h - 1 \<longleftrightarrow> x \<le> h \<and> x \<noteq> h" for x :: u64
  proof -
    have "unat (h - 1) = n"
      using assms(2) by (metis diff_Suc_1 unat_minus_one unat_0 nat.distinct(1))
    then show ?thesis
      using assms(2) by (auto simp: word_le_nat_alt word_unat_eq_iff)
  qed
  show ?case
  proof (cases "k' = k \<and> h' \<le> h - 1")
    case True
    then have "\<forall>e\<in>set evs. fst e \<noteq> h"
      using snoc.prems pred e by (auto simp: sorted_append)
    with True show ?thesis
      using pred by (simp add: e value_at_snoc written_at_snoc written_at_None)
  next
    case False
    then have same: "value_at (evs @ [e]) k (h - 1) = value_at evs k (h - 1)"
      by (auto simp: e value_at_snoc)
    have "sorted (map fst evs)" using snoc.prems by (simp add: sorted_append)
    from snoc.hyps [OF this] False pred [of h'] show ?thesis
      unfolding same by (cases "k' = k \<and> h' = h") (auto simp: e value_at_snoc written_at_snoc)
  qed
qed

lemma height_loop_value:
  assumes "kv_laws K" "good_key lib k" "sorted (map fst evs)" "\<forall>e\<in>set evs. fst e \<noteq> 0"
    "\<forall>h. kv_view K d (diff_string lib h ''new'' k) = written_at evs k h" "n < 2 ^ 64"
  shows "height_loop lib K d k n = Ok (value_at evs k (of_nat n))"
  using assms(6)
proof (induct n)
  case 0
  then show ?case using value_at_zero [OF assms(4)] by simp
next
  case (Suc n)
  then have "unat (of_nat (Suc n) :: u64) = Suc n" by (simp only: unat_of_nat_u64)
  from value_at_step [OF assms(3) this, of k] Suc show ?case
    by (simp add: diff_key_eq [OF assms(2)] rocks_get_view [OF assms(1)] assms(5) split: option.splits)
qed

lemma value_at_no_current: "current_value evs k = None \<Longrightarrow> value_at evs k h = None"
  by (induct evs rule: rev_induct) (auto simp: current_value_def value_at_def split: if_splits prod.splits)

lemma rocks_height_reads:
  assumes "kv_view K d = (\<lambda>_. None)" "\<forall>(_, k, _)\<in>set evs. rocks_good lib K k"
    and "sorted (map fst evs)" "\<forall>e\<in>set evs. fst e \<noteq> 0"
  shows "\<exists>d'. rocks_run lib K d evs = Ok d' \<and>
    (\<forall>k h. rocks_good lib K k \<longrightarrow> rocks_read_subspace_val_with_height lib K d' k h = Ok (value_at evs k h))"
proof -
  obtain d' where run: "rocks_run lib K d evs = Ok d'"
    and view: "\<And>k. rocks_good lib K k \<Longrightarrow> kv_view K d' (subspace_string lib k) = current_value evs k \<and>
      (\<forall>h. kv_view K d' (diff_string lib h ''new'' k) = written_at evs k h)"
    using rocks_run_view [OF assms(1,2)] by blast
  have "rocks_read_subspace_val_with_height lib K d' k h = Ok (value_at evs k h)" if "rocks_good lib K k" for k h
  proof -
    have "height_loop lib K d' k (unat h) = Ok (value_at evs k h)"
      using height_loop_value [OF rocks_goodD(1) [OF that] rocks_goodD(2) [OF that] assms(3,4), of d' "unat h"]
        view [OF that] by simp
    then show ?thesis
      using view [OF that] value_at_no_current [of evs k h]
      by (simp add: rocks_read_subspace_val_with_height_def rocks_read_view [OF rocks_goodD(1) [OF that]])
  qed
  with run show ?thesis by blast
qed

text \<open>
  Claim C28. Reading at a height gives the value that a key had at this height: after any sequence of
  writes at positive heights in order, which never fails, the value read at a height is the last one
  that was written at this height or before, for every key and height.
\<close>

theorem rocks_read_with_height_correct:
  assumes "kv_view K d = (\<lambda>_. None)" "\<forall>(_, k, _)\<in>set evs. rocks_good lib K k"
    and "sorted (map fst evs)" "\<forall>e\<in>set evs. fst e \<noteq> 0"
  shows "\<exists>d'. rocks_run lib K d evs = Ok d' \<and>
    (\<forall>k h. rocks_good lib K k \<longrightarrow> rocks_read_subspace_val_with_height lib K d' k h = Ok (value_at evs k h))"
  by (rule rocks_height_reads [OF assms])

text \<open>A store as the list of its operations, for closed examples.\<close>

definition example_kv :: "batch_op list kv_lib" where
  "example_kv =
     \<lparr> kv_get = (\<lambda>d k. Ok (fold apply_op d (\<lambda>_. None) k)), kv_put = (\<lambda>d k v. Ok (d @ [PutOp k v])),
       kv_delete = (\<lambda>d k. Ok (d @ [DeleteOp k])), kv_write = (\<lambda>d ops. Ok (d @ ops)),
       kv_flush = (\<lambda>d. Ok ()), kv_iter = (\<lambda>_ _ _. None) \<rparr>"

lemma kv_view_example: "kv_view example_kv d = fold apply_op d (\<lambda>_. None)"
  by (simp add: kv_view_def example_kv_def fun_eq_iff)

lemma example_kv_laws: "kv_laws example_kv"
  unfolding kv_laws_def kv_view_example by (simp add: example_kv_def)

lemma rocks_good_example: "rocks_good example_bech32 example_kv (Key [StringSeg ''x''])"
proof -
  have "key_string example_bech32 (Key [StringSeg ''x'']) = ''x''"
    using key_string_StringSegs [of example_bech32 "[''x'']"] by simp
  then show ?thesis
    by (simp add: rocks_good_def good_key_def example_kv_laws example_bech32_laws key_wf_def key_constants)
qed

theorem rocks_read_with_height_correct_witness:
  "\<exists>d'. rocks_run example_bech32 example_kv [] [(1, Key [StringSeg ''x''], ''a''), (5, Key [StringSeg ''x''], ''b'')] = Ok d' \<and>
     rocks_read_subspace_val_with_height example_bech32 example_kv d' (Key [StringSeg ''x'']) 3 = Ok (Some ''a'')"
proof -
  let ?evs = "[(1, Key [StringSeg ''x''], ''a''), (5, Key [StringSeg ''x''], ''b'')] :: write_event list"
  have "kv_view example_kv [] = (\<lambda>_. None)"
    by (simp add: kv_view_example)
  moreover have "value_at ?evs (Key [StringSeg ''x'']) 3 = Some ''a''"
    by (simp add: value_at_def)
  ultimately show ?thesis
    using rocks_read_with_height_correct [of example_kv "[]" ?evs example_bech32] rocks_good_example by auto
qed

lemma key_eq_parts: "key_eq a b \<Longrightarrow> length (str_split CHR ''/'' a) = length (str_split CHR ''/'' b)"
proof -
  assume "key_eq a b"
  then have "a = b \<or> tl (str_split CHR ''/'' a) = tl (str_split CHR ''/'' b)"
    by (auto simp: key_eq_def key_comparator_def Let_def split: if_splits option.splits)
  moreover have "length (str_split CHR ''/'' s) = Suc (length (tl (str_split CHR ''/'' s)))" for s
    by simp
  ultimately show ?thesis by metis
qed

text \<open>A first write does not make an entry under the bare key.\<close>

lemma rocks_run_bare_key:
  assumes "rocks_good lib K k" "kv_view K d = (\<lambda>_. None)" "rocks_run lib K d [(height, k, v)] = Ok d1"
  shows "kv_view K d1 (key_string lib k) = None"
proof -
  have new: "length (str_split CHR ''/'' (diff_string lib height ''new'' k)) = 3 + length (str_split CHR ''/'' (key_string lib k))"
    using height_raw_no_slash [of height] str_split_append [of "CHR ''/''" "''diffs''"]
    by (simp add: diff_string_def str_split_append block_height_seg_raw_def)
  have sub: "length (str_split CHR ''/'' (subspace_string lib k)) = 1 + length (str_split CHR ''/'' (key_string lib k))"
    using str_split_append [of "CHR ''/''" "''subspace''" "key_string lib k"]
    by (simp add: subspace_string_eq [OF rocks_goodD(2) [OF assms(1)]])
  obtain n ops where w: "rocks_write_subspace_val lib K d height k v = Ok (d1, n)"
    "diff_ops lib height k (kv_view K d (subspace_string lib k)) (Some v) = Ok ops"
    "kv_view K d1 = apply_op (PutOp (subspace_string lib k) v) (fold apply_op ops (kv_view K d))"
    using rocks_write_view [OF assms(1), of d height v] assms(3) by auto
  have "\<not> key_eq (key_string lib k) (subspace_string lib k)" "\<not> key_eq (key_string lib k) (diff_string lib height ''new'' k)"
    using key_eq_parts [of "key_string lib k"] new sub by (metis Suc_eq_plus1_left n_not_Suc_n, metis add_eq_self_zero add.commute zero_neq_numeral)
  with w(2) show ?thesis
    by (auto simp: w(3) diff_ops_eq [OF rocks_goodD(2) [OF assms(1)]] assms(2))
qed

text \<open>
  Claim C35. The history has gaps. A value that was written at height zero, as everything at genesis
  is, can be read as the current value, but no read at a height finds it. And once a key is deleted,
  reads at the heights at which it had a value find nothing; the deletion itself reports that it freed
  no bytes and records no difference, because it looks for the old value under the wrong key.
\<close>

theorem rocks_history_gaps:
  assumes "rocks_good lib K k" "kv_view K d = (\<lambda>_. None)" "height \<noteq> 0"
  shows "(\<exists>d'. rocks_run lib K d [(0, k, v)] = Ok d' \<and> rocks_read_subspace_val lib K d' k = Ok (Some v) \<and>
      (\<forall>h. rocks_read_subspace_val_with_height lib K d' k h = Ok None)) \<and>
    (\<exists>d1 d2. rocks_run lib K d [(height, k, v)] = Ok d1 \<and>
      rocks_read_subspace_val_with_height lib K d1 k height = Ok (Some v) \<and>
      rocks_delete_subspace_val lib K d1 (height + 1) k = Ok (d2, 0) \<and>
      rocks_read_subspace_val_with_height lib K d2 k height = Ok None)"
proof (intro conjI)
  note laws = rocks_goodD(1) [OF assms(1)] and good = rocks_goodD(2) [OF assms(1)]
  have run: "\<exists>d'. rocks_run lib K d [(h, k, v)] = Ok d' \<and> kv_view K d' (subspace_string lib k) = Some v \<and>
      (\<forall>h'. kv_view K d' (diff_string lib h' ''new'' k) = (if h' = h then Some v else None))" for h
    using rocks_run_view [OF assms(2), of "[(h, k, v)]" lib] assms(1)
    by (simp add: current_value_def written_at_def) (metis assms(1))
  obtain d0 where d0: "rocks_run lib K d [(0, k, v)] = Ok d0" "kv_view K d0 (subspace_string lib k) = Some v"
    "\<forall>h'. kv_view K d0 (diff_string lib h' ''new'' k) = (if h' = 0 then Some v else None)"
    using run by blast
  have "height_loop lib K d0 k n = Ok None" if "n < 2 ^ 64" for n
    using that
  proof (induct n)
    case (Suc n)
    then have "unat (of_nat (Suc n) :: u64) = Suc n" by (simp only: unat_of_nat_u64)
    then have "(of_nat (Suc n) :: u64) \<noteq> 0" by (metis unat_0 nat.distinct(1))
    with Suc d0(3) show ?case
      by (simp add: diff_key_eq [OF good] rocks_get_view [OF laws] del: of_nat_Suc)
  qed simp
  then have "\<forall>h. rocks_read_subspace_val_with_height lib K d0 k h = Ok None"
    by (simp add: rocks_read_subspace_val_with_height_def rocks_read_view [OF laws] d0(2))
  with d0(1,2) show "\<exists>d'. rocks_run lib K d [(0, k, v)] = Ok d' \<and> rocks_read_subspace_val lib K d' k = Ok (Some v) \<and>
      (\<forall>h. rocks_read_subspace_val_with_height lib K d' k h = Ok None)"
    by (simp add: rocks_read_view [OF laws])
  obtain d1 where d1: "rocks_run lib K d [(height, k, v)] = Ok d1"
    "rocks_read_subspace_val_with_height lib K d1 k height = Ok (Some v)"
    using rocks_height_reads [OF assms(2), of "[(height, k, v)]" lib] assms(1,3) by (auto simp: value_at_def)
  obtain d2 n where d2: "rocks_delete_subspace_val lib K d1 (height + 1) k = Ok (d2, n)"
    "n = (case kv_view K d1 (key_string lib k) of Some v \<Rightarrow> of_nat (length v) | None \<Rightarrow> 0)"
    "kv_view K d2 (subspace_string lib k) = None"
    using rocks_delete_view [OF assms(1), of d1 "height + 1"] key_eq_subspace [OF assms(1) assms(1)] by auto
  have "rocks_read_subspace_val_with_height lib K d2 k height = Ok None"
    by (simp add: rocks_read_subspace_val_with_height_def rocks_read_view [OF laws] d2(3))
  with d1 d2(1,2) show "\<exists>d1 d2. rocks_run lib K d [(height, k, v)] = Ok d1 \<and>
      rocks_read_subspace_val_with_height lib K d1 k height = Ok (Some v) \<and>
      rocks_delete_subspace_val lib K d1 (height + 1) k = Ok (d2, 0) \<and>
      rocks_read_subspace_val_with_height lib K d2 k height = Ok None"
    using rocks_run_bare_key [OF assms(1,2) d1(1)] by (intro exI [of _ d1] exI [of _ d2]) simp
qed

theorem rocks_history_gaps_witness:
  "\<exists>d'. rocks_run example_bech32 example_kv [] [(0, Key [StringSeg ''x''], ''a'')] = Ok d' \<and>
     rocks_read_subspace_val example_bech32 example_kv d' (Key [StringSeg ''x'']) = Ok (Some ''a'') \<and>
     rocks_read_subspace_val_with_height example_bech32 example_kv d' (Key [StringSeg ''x'']) 7 = Ok None"
proof -
  have "kv_view example_kv [] = (\<lambda>_. None)"
    by (simp add: kv_view_example)
  from rocks_history_gaps [OF rocks_good_example this, of 1 "''a''"] show ?thesis by auto
qed

end
