(* ===== verification/Storage.thy ===== *)
theory Storage
  imports Rocks_DB Gas
begin

text \<open>
  The storage of the ledger, \<^verbatim>\<open>shared/src/ledger/storage/mod.rs\<close>: a database backend together with the
  Merkle tree and the data of the current block. The backend is a record of operations; the facts about
  reading and writing are proved once for every backend that satisfies the interface and hold of both
  backends by interpretation. An operation whose result is an error returns no storage: the callers in
  the ledger treat such an error as fatal.
\<close>

section \<open>State\<close>

record 't block_storage =
  bl_tree :: "'t merkle_tree"
  bl_hash :: string
  bl_height :: block_height
  bl_epoch :: u64
  bl_pred_epochs :: epochs

record ('d, 't, 'time, 'w) storage =
  st_db :: 'd
  st_chain_id :: string
  st_block :: "'t block_storage"
  st_header :: "'time header option"
  st_last_height :: block_height
  st_last_epoch :: u64
  st_next_epoch_min_start_height :: block_height
  st_next_epoch_min_start_time :: 'time
  st_address_gen :: established_address_gen
  st_tx_queue :: "'w tx_queue"

definition CHAIN_ID_LENGTH :: nat where "CHAIN_ID_LENGTH = 30"

text \<open>\<^verbatim>\<open>Storage::open\<close>; the opened database and the current time are arguments.\<close>

definition storage_open ::
  "('e, 't, 'h, 's, 'time, 'w) node_env \<Rightarrow> 'd \<Rightarrow> string \<Rightarrow> 'time \<Rightarrow> ('d, 't, 'time, 'w) storage" where
  "storage_open E db chain_id now =
     \<lparr> st_db = db, st_chain_id = chain_id,
       st_block = \<lparr> bl_tree = merkle_tree_default (ne_smt E), bl_hash = replicate 32 (char_of (0 :: nat)),
         bl_height = 0, bl_epoch = 0, bl_pred_epochs = epochs_default \<rparr>,
       st_header = None, st_last_height = 0, st_last_epoch = 0,
       st_next_epoch_min_start_height = 0, st_next_epoch_min_start_time = now,
       st_address_gen = \<lparr> last_hash = ''Privacy is a function of liberty.'' \<rparr>,
       st_tx_queue = tx_queue_default \<rparr>"

definition load_last_state ::
  "('e, 't, 'h, 's, 'time, 'w) node_env \<Rightarrow> ('d, 'b, 'e, 'h, 's, 'time, 'w) db_ops
     \<Rightarrow> ('d, 't, 'time, 'w) storage \<Rightarrow> (('d, 't, 'time, 'w) storage, 'e db_error) outcome" where
  "load_last_state E ops s =
     outcome_bind (db_read_last_block ops (st_db s)) (\<lambda>last.
       Ok (case last of
             None \<Rightarrow> s
           | Some bs \<Rightarrow>
               s\<lparr> st_block := \<lparr> bl_tree = mt_new (ne_smt E) (bs_stores bs), bl_hash = bs_hash bs,
                     bl_height = bs_height bs, bl_epoch = bs_epoch bs, bl_pred_epochs = bs_pred_epochs bs \<rparr>,
                  st_last_height := bs_height bs, st_last_epoch := bs_epoch bs,
                  st_next_epoch_min_start_height := bs_next_epoch_min_start_height bs,
                  st_next_epoch_min_start_time := bs_next_epoch_min_start_time bs,
                  st_address_gen := bs_address_gen bs,
                  st_tx_queue := bs_tx_queue bs \<rparr>))"

definition merkle_root :: "('e, 't, 'h, 's, 'time, 'w) node_env \<Rightarrow> ('d, 't, 'time, 'w) storage \<Rightarrow> 'h" where
  "merkle_root E s = mt_root (ne_smt E) (bl_tree (st_block s))"

definition get_state ::
  "('e, 't, 'h, 's, 'time, 'w) node_env \<Rightarrow> ('d, 't, 'time, 'w) storage \<Rightarrow> ('h \<times> u64) option" where
  "get_state E s =
     (if bl_height (st_block s) \<noteq> 0 then Some (merkle_root E s, bl_height (st_block s)) else None)"

definition storage_commit ::
  "('e, 't, 'h, 's, 'time, 'w) node_env \<Rightarrow> ('d, 'b, 'e, 'h, 's, 'time, 'w) db_ops
     \<Rightarrow> ('d, 't, 'time, 'w) storage \<Rightarrow> (('d, 't, 'time, 'w) storage, 'e db_error) outcome" where
  "storage_commit E ops s =
     (let bl = st_block s;
          state = \<lparr> bs_stores = mt_stores (ne_smt E) (bl_tree bl), bs_hash = bl_hash bl, bs_height = bl_height bl,
                    bs_epoch = bl_epoch bl, bs_pred_epochs = bl_pred_epochs bl,
                    bs_next_epoch_min_start_height = st_next_epoch_min_start_height s,
                    bs_next_epoch_min_start_time = st_next_epoch_min_start_time s,
                    bs_address_gen = st_address_gen s, bs_tx_queue = st_tx_queue s \<rparr>
      in outcome_bind (db_write_block ops (st_db s) \<lparr> bw_state = state, bw_header = st_header s \<rparr>) (\<lambda>db.
           Ok (s\<lparr> st_db := db, st_last_height := bl_height bl, st_header := None \<rparr>)))"

section \<open>Values\<close>

definition key_size :: "'e bech32_lib \<Rightarrow> key \<Rightarrow> nat" where
  "key_size lib k = length (key_string lib k)"

definition storage_has_key ::
  "('e, 't, 'h, 's, 'time, 'w) node_env \<Rightarrow> ('d, 't, 'time, 'w) storage \<Rightarrow> key
     \<Rightarrow> (bool \<times> u64, 'e db_error) outcome" where
  "storage_has_key E s k =
     outcome_bind (map_err MerkleTreeError (mt_has_key (ne_bech32 E) (ne_smt E) (bl_tree (st_block s)) k))
       (\<lambda>present. Ok (present, of_nat (key_size (ne_bech32 E) k)))"

text \<open>The value that was found and the gas for it.\<close>

definition value_gas :: "'e bech32_lib \<Rightarrow> key \<Rightarrow> string option \<Rightarrow> string option \<times> u64" where
  "value_gas lib k v =
     (v, case v of Some bytes \<Rightarrow> of_nat (key_size lib k + length bytes) | None \<Rightarrow> of_nat (key_size lib k))"

definition storage_read ::
  "('e, 't, 'h, 's, 'time, 'w) node_env \<Rightarrow> ('d, 'b, 'e, 'h, 's, 'time, 'w) db_ops
     \<Rightarrow> ('d, 't, 'time, 'w) storage \<Rightarrow> key \<Rightarrow> (string option \<times> u64, 'e db_error) outcome" where
  "storage_read E ops s k =
     outcome_bind (storage_has_key E s k) (\<lambda>(present, gas).
       if \<not> present then Ok (None, gas)
       else outcome_bind (db_read_subspace_val ops (st_db s) k) (\<lambda>v. Ok (value_gas (ne_bech32 E) k v)))"

definition storage_read_with_height ::
  "('e, 't, 'h, 's, 'time, 'w) node_env \<Rightarrow> ('d, 'b, 'e, 'h, 's, 'time, 'w) db_ops
     \<Rightarrow> ('d, 't, 'time, 'w) storage \<Rightarrow> key \<Rightarrow> block_height \<Rightarrow> (string option \<times> u64, 'e db_error) outcome" where
  "storage_read_with_height E ops s k height =
     (if bl_height (st_block s) \<le> height then storage_read E ops s k
      else outcome_bind (db_read_subspace_val_with_height ops (st_db s) k height) (\<lambda>v.
             Ok (value_gas (ne_bech32 E) k v)))"

definition storage_iter_prefix ::
  "('e, 't, 'h, 's, 'time, 'w) node_env \<Rightarrow> ('d, 'b, 'e, 'h, 's, 'time, 'w) db_ops
     \<Rightarrow> ('d, 't, 'time, 'w) storage \<Rightarrow> key \<Rightarrow> (string \<times> string \<times> u64) list option \<times> u64" where
  "storage_iter_prefix E ops s p = (db_iter_prefix ops (st_db s) p, of_nat (key_size (ne_bech32 E) p))"

definition set_tree :: "('d, 't, 'time, 'w) storage \<Rightarrow> 't merkle_tree \<Rightarrow> ('d, 't, 'time, 'w) storage" where
  "set_tree s t = s\<lparr> st_block := (st_block s)\<lparr> bl_tree := t \<rparr> \<rparr>"

definition storage_write ::
  "('e, 't, 'h, 's, 'time, 'w) node_env \<Rightarrow> ('d, 'b, 'e, 'h, 's, 'time, 'w) db_ops
     \<Rightarrow> ('d, 't, 'time, 'w) storage \<Rightarrow> key \<Rightarrow> string
     \<Rightarrow> (('d, 't, 'time, 'w) storage \<times> u64 \<times> i64, 'e db_error) outcome" where
  "storage_write E ops s k v =
     outcome_bind (map_err MerkleTreeError (mt_update (ne_bech32 E) (ne_smt E) (bl_tree (st_block s)) k v)) (\<lambda>t.
     outcome_bind (db_write_subspace_val ops (st_db s) (st_last_height s) k v) (\<lambda>(db, size_diff).
       Ok ((set_tree s t)\<lparr> st_db := db \<rparr>, of_nat (key_size (ne_bech32 E) k + length v), size_diff)))"

definition storage_delete ::
  "('e, 't, 'h, 's, 'time, 'w) node_env \<Rightarrow> ('d, 'b, 'e, 'h, 's, 'time, 'w) db_ops
     \<Rightarrow> ('d, 't, 'time, 'w) storage \<Rightarrow> key
     \<Rightarrow> (('d, 't, 'time, 'w) storage \<times> u64 \<times> i64, 'e db_error) outcome" where
  "storage_delete E ops s k =
     outcome_bind (storage_has_key E s k) (\<lambda>(present, _).
     outcome_bind
       (if present then
          outcome_bind (map_err MerkleTreeError (mt_delete (ne_bech32 E) (ne_smt E) (bl_tree (st_block s)) k)) (\<lambda>t.
          outcome_bind (db_delete_subspace_val ops (st_db s) (st_last_height s) k) (\<lambda>(db, len).
            Ok ((set_tree s t)\<lparr> st_db := db \<rparr>, len)))
        else Ok (s, 0)) (\<lambda>(s', deleted_bytes_len).
       Ok (s', of_nat (key_size (ne_bech32 E) k) + deleted_bytes_len, deleted_bytes_len)))"

definition set_header :: "('d, 't, 'time, 'w) storage \<Rightarrow> 'time header \<Rightarrow> ('d, 't, 'time, 'w) storage" where
  "set_header s h = s\<lparr> st_header := Some h \<rparr>"

definition begin_block ::
  "('d, 't, 'time, 'w) storage \<Rightarrow> string \<Rightarrow> block_height \<Rightarrow> ('d, 't, 'time, 'w) storage" where
  "begin_block s hash height = s\<lparr> st_block := (st_block s)\<lparr> bl_hash := hash, bl_height := height \<rparr> \<rparr>"

definition storage_validity_predicate ::
  "('e, 't, 'h, 's, 'time, 'w) node_env \<Rightarrow> ('d, 'b, 'e, 'h, 's, 'time, 'w) db_ops
     \<Rightarrow> ('d, 't, 'time, 'w) storage \<Rightarrow> address \<Rightarrow> (string option \<times> u64, 'e db_error) outcome" where
  "storage_validity_predicate E ops s addr = storage_read E ops s (validity_predicate addr)"

definition storage_exists ::
  "('e, 't, 'h, 's, 'time, 'w) node_env \<Rightarrow> ('d, 't, 'time, 'w) storage \<Rightarrow> address
     \<Rightarrow> (bool \<times> u64, 'e db_error) outcome" where
  "storage_exists E s addr = storage_has_key E s (validity_predicate addr)"

definition get_chain_id :: "('d, 't, 'time, 'w) storage \<Rightarrow> string \<times> u64" where
  "get_chain_id s = (st_chain_id s, of_nat CHAIN_ID_LENGTH)"

definition get_block_height :: "('d, 't, 'time, 'w) storage \<Rightarrow> block_height \<times> u64" where
  "get_block_height s = (bl_height (st_block s), MIN_STORAGE_GAS)"

definition get_block_hash :: "('d, 't, 'time, 'w) storage \<Rightarrow> string \<times> u64" where
  "get_block_hash s = (bl_hash (st_block s), of_nat BLOCK_HASH_LENGTH)"

definition get_current_epoch :: "('d, 't, 'time, 'w) storage \<Rightarrow> u64 \<times> u64" where
  "get_current_epoch s = (bl_epoch (st_block s), MIN_STORAGE_GAS)"

definition get_last_epoch :: "('d, 't, 'time, 'w) storage \<Rightarrow> u64 \<times> u64" where
  "get_last_epoch s = (st_last_epoch s, MIN_STORAGE_GAS)"

definition get_block_header ::
  "('e, 't, 'h, 's, 'time, 'w) node_env \<Rightarrow> ('d, 'b, 'e, 'h, 's, 'time, 'w) db_ops
     \<Rightarrow> ('d, 't, 'time, 'w) storage \<Rightarrow> block_height option \<Rightarrow> ('time header option \<times> u64, 'e db_error) outcome" where
  "get_block_header E ops s height =
     (case height of
        None \<Rightarrow> Ok (st_header s, MIN_STORAGE_GAS)
      | Some h \<Rightarrow>
          if h = bl_height (st_block s) then Ok (st_header s, MIN_STORAGE_GAS)
          else outcome_bind (db_read_block_header ops (st_db s) h) (\<lambda>found.
            Ok (case found of
                  Some hdr \<Rightarrow> (Some hdr, of_nat (length (enc_header (ne_borsh E) hdr)))
                | None \<Rightarrow> (None, MIN_STORAGE_GAS))))"

section \<open>Batches\<close>

definition storage_batch_write ::
  "('e, 't, 'h, 's, 'time, 'w) node_env \<Rightarrow> ('d, 'b, 'e, 'h, 's, 'time, 'w) db_ops
     \<Rightarrow> ('d, 't, 'time, 'w) storage \<Rightarrow> 'b \<Rightarrow> key \<Rightarrow> string
     \<Rightarrow> (('d, 't, 'time, 'w) storage \<times> 'b \<times> i64, 'e db_error) outcome" where
  "storage_batch_write E ops s batch k v =
     outcome_bind (map_err MerkleTreeError (mt_update (ne_bech32 E) (ne_smt E) (bl_tree (st_block s)) k v)) (\<lambda>t.
     outcome_bind (db_batch_write_subspace_val ops (st_db s) batch (bl_height (st_block s)) k v) (\<lambda>(db, batch', n).
       Ok ((set_tree s t)\<lparr> st_db := db \<rparr>, batch', n)))"

definition storage_batch_delete ::
  "('e, 't, 'h, 's, 'time, 'w) node_env \<Rightarrow> ('d, 'b, 'e, 'h, 's, 'time, 'w) db_ops
     \<Rightarrow> ('d, 't, 'time, 'w) storage \<Rightarrow> 'b \<Rightarrow> key
     \<Rightarrow> (('d, 't, 'time, 'w) storage \<times> 'b \<times> i64, 'e db_error) outcome" where
  "storage_batch_delete E ops s batch k =
     outcome_bind (map_err MerkleTreeError (mt_delete (ne_bech32 E) (ne_smt E) (bl_tree (st_block s)) k)) (\<lambda>t.
     outcome_bind (db_batch_delete_subspace_val ops (st_db s) batch (bl_height (st_block s)) k) (\<lambda>(db, batch', n).
       Ok ((set_tree s t)\<lparr> st_db := db \<rparr>, batch', n)))"

definition storage_exec_batch ::
  "('d, 'b, 'e, 'h, 's, 'time, 'w) db_ops \<Rightarrow> ('d, 't, 'time, 'w) storage \<Rightarrow> 'b
     \<Rightarrow> (('d, 't, 'time, 'w) storage, 'e db_error) outcome" where
  "storage_exec_batch ops s batch =
     outcome_bind (db_exec_batch ops (st_db s) batch) (\<lambda>db. Ok (s\<lparr> st_db := db \<rparr>))"

section \<open>The storage is a map\<close>

text \<open>
  A set of keys that have different leaves in the Merkle tree. On such keys the storage is a map: a key
  has a value when it is in the tree, namely its value in the database.
\<close>

definition leaf :: "('e, 't, 'h, 's, 'time, 'w) node_env \<Rightarrow> key \<Rightarrow> (store_type \<times> 'h) option" where
  "leaf E k = mt_slot (ne_bech32 E) (ne_smt E) k"

definition leaves_apart :: "('e, 't, 'h, 's, 'time, 'w) node_env \<Rightarrow> key set \<Rightarrow> bool" where
  "leaves_apart E Ks \<longleftrightarrow> smt_laws (ne_smt E) \<and> inj_on (leaf E) Ks \<and> None \<notin> leaf E ` Ks"

definition in_tree :: "('e, 't, 'h, 's, 'time, 'w) node_env \<Rightarrow> 't merkle_tree \<Rightarrow> key \<Rightarrow> bool" where
  "in_tree E t k \<longleftrightarrow>
     (mt_has_key (ne_bech32 E) (ne_smt E) t k :: (bool, 'e merkle_error) outcome) = Ok True"

definition storage_view ::
  "('e, 't, 'h, 's, 'time, 'w) node_env \<Rightarrow> ('d \<Rightarrow> key \<Rightarrow> string option)
     \<Rightarrow> ('d, 't, 'time, 'w) storage \<Rightarrow> key \<Rightarrow> string option" where
  "storage_view E view s k = (if in_tree E (bl_tree (st_block s)) k then view (st_db s) k else None)"

lemma leaves_apartD:
  "leaves_apart E Ks \<Longrightarrow> smt_laws (ne_smt E)"
  "leaves_apart E Ks \<Longrightarrow> k \<in> Ks \<Longrightarrow> mt_slot (ne_bech32 E) (ne_smt E) k \<noteq> None"
  "leaves_apart E Ks \<Longrightarrow> k \<in> Ks \<Longrightarrow> k' \<in> Ks \<Longrightarrow>
     mt_slot (ne_bech32 E) (ne_smt E) k' = mt_slot (ne_bech32 E) (ne_smt E) k \<longleftrightarrow> k' = k"
  unfolding leaves_apart_def leaf_def inj_on_def image_iff by (simp, metis, metis)

lemma leaves_apart_mono: "leaves_apart E Ks \<Longrightarrow> Ks' \<subseteq> Ks \<Longrightarrow> leaves_apart E Ks'"
  unfolding leaves_apart_def by (meson image_mono inj_on_subset subset_iff)

lemma has_key_in_tree:
  "leaves_apart E Ks \<Longrightarrow> k \<in> Ks \<Longrightarrow> mt_has_key (ne_bech32 E) (ne_smt E) t k = Ok (in_tree E t k)"
  using mt_has_key_slot [OF leaves_apartD(1)] leaves_apartD(2) [of E Ks k]
  by (fastforce simp: in_tree_def)

lemma in_tree_update:
  assumes apart: "leaves_apart E Ks" and k: "k \<in> Ks"
  shows "\<exists>t'. mt_update (ne_bech32 E) (ne_smt E) t k v = Ok t' \<and>
    (\<forall>k'\<in>Ks. in_tree E t' k' \<longleftrightarrow> k' = k \<or> in_tree E t k')"
proof -
  note law = leaves_apartD(1) [OF apart] and slot = leaves_apartD(2) [OF apart]
  obtain t' where t': "mt_update (ne_bech32 E) (ne_smt E) t k v = Ok t'"
    using mt_update_has_key [OF law slot [OF k] slot [OF k], of t v] by blast
  have "in_tree E t' k' \<longleftrightarrow> k' = k \<or> in_tree E t k'" if k': "k' \<in> Ks" for k'
    using mt_update_has_key [OF law slot [OF k] slot [OF k'], of t v] leaves_apartD(3) [OF apart k k']
    by (simp add: t' in_tree_def)
  with t' show ?thesis by blast
qed

lemma in_tree_delete:
  assumes apart: "leaves_apart E Ks" and k: "k \<in> Ks"
  shows "\<exists>t'. mt_delete (ne_bech32 E) (ne_smt E) t k = Ok t' \<and>
    (\<forall>k'\<in>Ks. in_tree E t' k' \<longleftrightarrow> k' \<noteq> k \<and> in_tree E t k')"
proof -
  note law = leaves_apartD(1) [OF apart] and slot = leaves_apartD(2) [OF apart]
  obtain t' where t': "mt_delete (ne_bech32 E) (ne_smt E) t k = Ok t'"
    using mt_delete_has_key [OF law slot [OF k] slot [OF k], of t] by blast
  have "in_tree E t' k' \<longleftrightarrow> k' \<noteq> k \<and> in_tree E t k'" if k': "k' \<in> Ks" for k'
    using mt_delete_has_key [OF law slot [OF k] slot [OF k'], of t] leaves_apartD(3) [OF apart k k']
    by (simp add: t' in_tree_def)
  with t' show ?thesis by blast
qed

lemma set_tree_simps [simp]:
  "bl_tree (st_block (set_tree s t)) = t" "st_db (set_tree s t) = st_db s"
  by (simp_all add: set_tree_def)

context subspace_db
begin

lemma storage_read_view:
  assumes "leaves_apart E Ks" "k \<in> Ks" "good k"
  shows "storage_read E ops s k = Ok (value_gas (ne_bech32 E) k (storage_view E view s k))"
  by (simp add: storage_read_def storage_has_key_def has_key_in_tree [OF assms(1,2)] storage_view_def
      read_view [OF assms(3)] value_gas_def)

lemma storage_write_view:
  assumes apart: "leaves_apart E Ks" and k: "k \<in> Ks" and good: "\<forall>k\<in>Ks. good k"
  shows "\<exists>s' n. storage_write E ops s k v = Ok (s', of_nat (key_size (ne_bech32 E) k + length v), n) \<and>
    (\<forall>k'\<in>Ks. storage_view E view s' k' = (if k' = k then Some v else storage_view E view s k'))"
proof -
  obtain t where t: "mt_update (ne_bech32 E) (ne_smt E) (bl_tree (st_block s)) k v = Ok t"
    "\<forall>k'\<in>Ks. in_tree E t k' \<longleftrightarrow> k' = k \<or> in_tree E (bl_tree (st_block s)) k'"
    using in_tree_update [OF apart k] by blast
  obtain d n where d: "db_write_subspace_val ops (st_db s) (st_last_height s) k v = Ok (d, n)"
    "\<forall>k'. good k' \<longrightarrow> view d k' = (if k' = k then Some v else view (st_db s) k')"
    using write_view good k by blast
  show ?thesis
    using t(2) d(2) good by (simp add: storage_write_def t(1) d(1) storage_view_def)
qed

lemma storage_delete_view:
  assumes apart: "leaves_apart E Ks" and k: "k \<in> Ks" and good: "\<forall>k\<in>Ks. good k"
  shows "\<exists>s' gas n. storage_delete E ops s k = Ok (s', gas, n) \<and>
    (\<forall>k'\<in>Ks. storage_view E view s' k' = (if k' = k then None else storage_view E view s k'))"
proof -
  obtain t where t: "mt_delete (ne_bech32 E) (ne_smt E) (bl_tree (st_block s)) k = Ok t"
    "\<forall>k'\<in>Ks. in_tree E t k' \<longleftrightarrow> k' \<noteq> k \<and> in_tree E (bl_tree (st_block s)) k'"
    using in_tree_delete [OF apart k] by blast
  obtain d n where d: "db_delete_subspace_val ops (st_db s) (st_last_height s) k = Ok (d, n)"
    "\<forall>k'. good k' \<longrightarrow> view d k' = (if k' = k then None else view (st_db s) k')"
    using delete_view good k by blast
  show ?thesis
    using t(2) d(2) good
    by (simp add: storage_delete_def storage_has_key_def has_key_in_tree [OF apart k] t(1) d(1) storage_view_def)
qed

lemma storage_batch_write_view:
  assumes apart: "leaves_apart E Ks" and k: "k \<in> Ks" and good: "\<forall>k\<in>Ks. good k"
  shows "\<exists>s' b' n. storage_batch_write E ops s b k v = Ok (s', b', n) \<and>
    (\<forall>k'\<in>Ks. storage_view E (\<lambda>d. batch_view d b') s' k' =
       (if k' = k then Some v else storage_view E (\<lambda>d. batch_view d b) s k'))"
proof -
  obtain t where t: "mt_update (ne_bech32 E) (ne_smt E) (bl_tree (st_block s)) k v = Ok t"
    "\<forall>k'\<in>Ks. in_tree E t k' \<longleftrightarrow> k' = k \<or> in_tree E (bl_tree (st_block s)) k'"
    using in_tree_update [OF apart k] by blast
  obtain d b' n where d: "db_batch_write_subspace_val ops (st_db s) b (bl_height (st_block s)) k v = Ok (d, b', n)"
    "\<forall>k'. good k' \<longrightarrow> batch_view d b' k' = (if k' = k then Some v else batch_view (st_db s) b k')"
    using batch_write_view good k by blast
  show ?thesis
    using t(2) d(2) good by (simp add: storage_batch_write_def t(1) d(1) storage_view_def)
qed

lemma storage_batch_delete_view:
  assumes apart: "leaves_apart E Ks" and k: "k \<in> Ks" and good: "\<forall>k\<in>Ks. good k"
  shows "\<exists>s' b' n. storage_batch_delete E ops s b k = Ok (s', b', n) \<and>
    (\<forall>k'\<in>Ks. storage_view E (\<lambda>d. batch_view d b') s' k' =
       (if k' = k then None else storage_view E (\<lambda>d. batch_view d b) s k'))"
proof -
  obtain t where t: "mt_delete (ne_bech32 E) (ne_smt E) (bl_tree (st_block s)) k = Ok t"
    "\<forall>k'\<in>Ks. in_tree E t k' \<longleftrightarrow> k' \<noteq> k \<and> in_tree E (bl_tree (st_block s)) k'"
    using in_tree_delete [OF apart k] by blast
  obtain d b' n where d: "db_batch_delete_subspace_val ops (st_db s) b (bl_height (st_block s)) k = Ok (d, b', n)"
    "\<forall>k'. good k' \<longrightarrow> batch_view d b' k' = (if k' = k then None else batch_view (st_db s) b k')"
    using batch_delete_view good k by blast
  show ?thesis
    using t(2) d(2) good by (simp add: storage_batch_delete_def t(1) d(1) storage_view_def)
qed

lemma storage_exec_batch_view:
  assumes k: "k \<in> Ks" and good: "\<forall>k\<in>Ks. good k"
  shows "\<exists>s'. storage_exec_batch ops s b = Ok s' \<and>
    (\<forall>k'\<in>Ks. storage_view E view s' k' = storage_view E (\<lambda>d. batch_view d b) s k')"
proof -
  obtain d where d: "db_exec_batch ops (st_db s) b = Ok d" "\<forall>k'. good k' \<longrightarrow> view d k' = batch_view (st_db s) b k'"
    using exec_view good k by blast
  show ?thesis
    using d(2) good by (simp add: storage_exec_batch_def d(1) storage_view_def)
qed

lemma storage_batch_start_view:
  "good k \<Longrightarrow> storage_view E (\<lambda>d. batch_view d (db_batch ops)) s k = storage_view E view s k"
  by (simp add: storage_view_def batch_start)

end

end
