(* ===== verification/Write_Log.thy ===== *)
theory Write_Log
  imports Storage
begin

text \<open>
  The write log, \<^verbatim>\<open>shared/src/ledger/storage/write_log.rs\<close>: the changes of the transaction that is being
  executed, above the changes of the transactions of the block that were accepted, above the storage.
  An operation that fails may have changed the log, so that the operations return the log also with an
  error.
\<close>

section \<open>State\<close>

datatype 'e write_log_error =
  StorageError "'e db_error" | UpdateTemporaryValue | UpdateVpOfNewAccount | DeleteVp | WriteTempAfterDelete

datatype storage_modification = Write string | Delete | InitAccount string | Temp string

record ibc_event =
  event_type :: string
  ev_attributes :: "(string \<times> string) list"

record write_log =
  wl_address_gen :: "established_address_gen option"
  block_write_log :: "(key \<times> storage_modification) list"
  tx_write_log :: "(key \<times> storage_modification) list"
  wl_ibc_event :: "ibc_event option"

definition write_log_default :: write_log where
  "write_log_default =
     \<lparr> wl_address_gen = None, block_write_log = [], tx_write_log = [], wl_ibc_event = None \<rparr>"

section \<open>Reading\<close>

fun modification_gas :: "'e bech32_lib \<Rightarrow> key \<Rightarrow> storage_modification option \<Rightarrow> u64" where
  "modification_gas lib k (Some (Write v)) = of_nat (key_size lib k + length v)"
| "modification_gas lib k (Some Delete) = of_nat (key_size lib k)"
| "modification_gas lib k (Some (InitAccount vp)) = of_nat (key_size lib k + length vp)"
| "modification_gas lib k (Some (Temp v)) = of_nat (key_size lib k + length v)"
| "modification_gas lib k None = of_nat (key_size lib k)"

definition wl_read :: "'e bech32_lib \<Rightarrow> write_log \<Rightarrow> key \<Rightarrow> storage_modification option \<times> u64" where
  "wl_read lib l k =
     (let found = (case hm_get (tx_write_log l) k of Some v \<Rightarrow> Some v | None \<Rightarrow> hm_get (block_write_log l) k)
      in (found, modification_gas lib k found))"

definition wl_read_pre :: "'e bech32_lib \<Rightarrow> write_log \<Rightarrow> key \<Rightarrow> storage_modification option \<times> u64" where
  "wl_read_pre lib l k =
     (let found = hm_get (block_write_log l) k in (found, modification_gas lib k found))"

section \<open>Changes of the transaction\<close>

definition tx_insert :: "write_log \<Rightarrow> key \<Rightarrow> storage_modification \<Rightarrow> write_log" where
  "tx_insert l k m = l\<lparr> tx_write_log := hm_insert k m (tx_write_log l) \<rparr>"

definition wl_write ::
  "'e bech32_lib \<Rightarrow> write_log \<Rightarrow> key \<Rightarrow> string \<Rightarrow> write_log \<times> (u64 \<times> i64, 'e write_log_error) outcome" where
  "wl_write lib l k v =
     (let len = length v; gas = of_nat (key_size lib k + len)
      in (tx_insert l k (Write v),
          case hm_get (tx_write_log l) k of
            Some (Write prev) \<Rightarrow> Ok (gas, of_nat len - of_nat (length prev))
          | Some Delete \<Rightarrow> Ok (gas, of_nat len)
          | Some (InitAccount _) \<Rightarrow> Err UpdateVpOfNewAccount
          | Some (Temp _) \<Rightarrow> Err UpdateTemporaryValue
          | None \<Rightarrow> Ok (gas, of_nat len)))"

definition wl_write_temp ::
  "'e bech32_lib \<Rightarrow> write_log \<Rightarrow> key \<Rightarrow> string \<Rightarrow> write_log \<times> (u64 \<times> i64, 'e write_log_error) outcome" where
  "wl_write_temp lib l k v =
     (let len = length v; gas = of_nat (key_size lib k + len)
      in (tx_insert l k (Temp v),
          case hm_get (tx_write_log l) k of
            Some (Write prev) \<Rightarrow> Ok (gas, of_nat len - of_nat (length prev))
          | Some Delete \<Rightarrow> Err WriteTempAfterDelete
          | Some (InitAccount _) \<Rightarrow> Err UpdateVpOfNewAccount
          | Some (Temp prev) \<Rightarrow> Ok (gas, of_nat len - of_nat (length prev))
          | None \<Rightarrow> Ok (gas, of_nat len)))"

definition wl_delete ::
  "'e bech32_lib \<Rightarrow> write_log \<Rightarrow> key \<Rightarrow> write_log \<times> (u64 \<times> i64, 'e write_log_error) outcome" where
  "wl_delete lib l k =
     (if is_validity_predicate k \<noteq> None then (l, Err DeleteVp)
      else (tx_insert l k Delete,
        outcome_bind
          (case hm_get (tx_write_log l) k of
             Some (Write prev) \<Rightarrow> Ok (of_nat (length prev))
           | Some Delete \<Rightarrow> Ok 0
           | Some (InitAccount _) \<Rightarrow> Err DeleteVp
           | Some (Temp prev) \<Rightarrow> Ok (of_nat (length prev))
           | None \<Rightarrow> Ok 0)
          (\<lambda>size_diff. Ok (of_nat (key_size lib k) + size_diff, - size_diff))))"

text \<open>The hash of the address generator and its encoding are arguments, as for the generator itself.\<close>

definition wl_init_account ::
  "'e bech32_lib \<Rightarrow> (string \<Rightarrow> string) \<Rightarrow> (established_address_gen \<Rightarrow> string)
     \<Rightarrow> write_log \<Rightarrow> established_address_gen \<Rightarrow> string \<Rightarrow> write_log \<times> address \<times> u64" where
  "wl_init_account lib sha40 borsh l storage_address_gen vp =
     (let gen = (case wl_address_gen l of Some g \<Rightarrow> g | None \<Rightarrow> storage_address_gen);
          (gen', addr) = generate_address sha40 borsh gen ''TODO more randomness'';
          k = validity_predicate addr;
          gas = of_nat (key_size lib k + length vp)
      in (tx_insert (l\<lparr> wl_address_gen := Some gen' \<rparr>) k (InitAccount vp), addr, gas))"

definition set_ibc_event :: "write_log \<Rightarrow> ibc_event \<Rightarrow> write_log \<times> u64" where
  "set_ibc_event l event =
     (let len = fold (\<lambda>(k, v) acc. acc + length k + length v) (ev_attributes event) 0
      in (l\<lparr> wl_ibc_event := Some event \<rparr>, of_nat len))"

definition take_ibc_event :: "write_log \<Rightarrow> write_log \<times> ibc_event option" where
  "take_ibc_event l = (l\<lparr> wl_ibc_event := None \<rparr>, wl_ibc_event l)"

definition get_ibc_event :: "write_log \<Rightarrow> ibc_event option" where
  "get_ibc_event l = wl_ibc_event l"

section \<open>What the transaction changed\<close>

definition wl_get_keys :: "write_log \<Rightarrow> key set" where
  "wl_get_keys l = set (map fst (tx_write_log l))"

text \<open>The address of an entry that initializes an account.\<close>

fun initialized_address :: "key \<times> storage_modification \<Rightarrow> address option" where
  "initialized_address (k, InitAccount _) = is_validity_predicate k"
| "initialized_address _ = None"

definition get_partitioned_keys :: "write_log \<Rightarrow> key set \<times> address set" where
  "get_partitioned_keys l =
     (set (map fst (filter (\<lambda>e. initialized_address e = None) (tx_write_log l))),
      set (List.map_filter initialized_address (tx_write_log l)))"

definition get_initialized_accounts :: "write_log \<Rightarrow> address list" where
  "get_initialized_accounts l = List.map_filter initialized_address (tx_write_log l)"

definition verifiers_and_changed_keys :: "write_log \<Rightarrow> address set \<Rightarrow> address set \<times> key set" where
  "verifiers_and_changed_keys l verifiers_from_tx =
     (let changed_keys = wl_get_keys l;
          initialized_accounts = get_initialized_accounts l;
          added = (\<lambda>k. set (filter (\<lambda>addr. \<not> (addr \<in> verifiers_from_tx \<or> addr \<in> set initialized_accounts))
                              (find_addresses k)))
      in (verifiers_from_tx \<union> \<Union> (added ` changed_keys), changed_keys))"

section \<open>The end of a transaction and of a block\<close>

definition is_temp :: "storage_modification \<Rightarrow> bool" where
  "is_temp m = (case m of Temp _ \<Rightarrow> True | _ \<Rightarrow> False)"

definition wl_commit_tx :: "write_log \<Rightarrow> write_log" where
  "wl_commit_tx l =
     (let tx = filter (\<lambda>e. \<not> is_temp (snd e)) (tx_write_log l)
      in l\<lparr> block_write_log := fold (\<lambda>(k, m). hm_insert k m) tx (block_write_log l), tx_write_log := [] \<rparr>)"

definition wl_drop_tx :: "write_log \<Rightarrow> write_log" where
  "wl_drop_tx l = l\<lparr> tx_write_log := [] \<rparr>"

text \<open>The loop of \<^verbatim>\<open>commit_block\<close> over the entries, in the order in which the hash map visits them.\<close>

definition commit_entry ::
  "('e, 't, 'h, 's, 'time, 'w) node_env \<Rightarrow> ('d, 'b, 'e, 'h, 's, 'time, 'w) db_ops
     \<Rightarrow> key \<Rightarrow> storage_modification \<Rightarrow> ('d, 't, 'time, 'w) storage \<Rightarrow> 'b
     \<Rightarrow> (('d, 't, 'time, 'w) storage \<times> 'b, 'e write_log_error) outcome" where
  "commit_entry E ops k m s b =
     (case m of
        Write v \<Rightarrow> outcome_bind (map_err StorageError (storage_batch_write E ops s b k v)) (\<lambda>(s', b', _). Ok (s', b'))
      | Delete \<Rightarrow> outcome_bind (map_err StorageError (storage_batch_delete E ops s b k)) (\<lambda>(s', b', _). Ok (s', b'))
      | InitAccount vp \<Rightarrow>
          outcome_bind (map_err StorageError (storage_batch_write E ops s b k vp)) (\<lambda>(s', b', _). Ok (s', b'))
      | Temp _ \<Rightarrow> Ok (s, b))"

fun commit_entries ::
  "('e, 't, 'h, 's, 'time, 'w) node_env \<Rightarrow> ('d, 'b, 'e, 'h, 's, 'time, 'w) db_ops
     \<Rightarrow> (key \<times> storage_modification) list \<Rightarrow> ('d, 't, 'time, 'w) storage \<Rightarrow> 'b
     \<Rightarrow> (('d, 't, 'time, 'w) storage \<times> 'b, 'e write_log_error) outcome" where
  "commit_entries E ops [] s b = Ok (s, b)"
| "commit_entries E ops ((k, m) # es) s b =
     outcome_bind (commit_entry E ops k m s b) (\<lambda>(s', b'). commit_entries E ops es s' b')"

definition commit_block ::
  "('e, 't, 'h, 's, 'time, 'w) node_env \<Rightarrow> ('d, 'b, 'e, 'h, 's, 'time, 'w) db_ops
     \<Rightarrow> write_log \<Rightarrow> ('d, 't, 'time, 'w) storage
     \<Rightarrow> (write_log \<times> ('d, 't, 'time, 'w) storage, 'e write_log_error) outcome" where
  "commit_block E ops l s =
     outcome_bind (commit_entries E ops (block_write_log l) s (db_batch ops)) (\<lambda>(s, batch).
     outcome_bind (map_err StorageError (storage_exec_batch ops s batch)) (\<lambda>s.
       Ok (l\<lparr> wl_address_gen := None, block_write_log := [] \<rparr>,
           case wl_address_gen l of Some g \<Rightarrow> s\<lparr> st_address_gen := g \<rparr> | None \<Rightarrow> s)))"

section \<open>Committing a block\<close>

text \<open>What an entry makes of a value of the storage.\<close>

fun apply_modification :: "storage_modification option \<Rightarrow> string option \<Rightarrow> string option" where
  "apply_modification (Some (Write v)) _ = Some v"
| "apply_modification (Some Delete) _ = None"
| "apply_modification (Some (InitAccount vp)) _ = Some vp"
| "apply_modification (Some (Temp _)) v = v"
| "apply_modification None v = v"

definition overlay :: "(key \<times> storage_modification) list \<Rightarrow> (key \<Rightarrow> string option) \<Rightarrow> key \<Rightarrow> string option" where
  "overlay log base k = apply_modification (hm_get log k) (base k)"

context subspace_db
begin

lemma commit_entry_view:
  assumes apart: "leaves_apart E Ks" and good: "\<forall>k\<in>Ks. good k" and k: "k \<in> Ks"
  shows "\<exists>s' b'. commit_entry E ops k m s b = Ok (s', b') \<and>
    (\<forall>k'\<in>Ks. storage_view E (\<lambda>d. batch_view d b') s' k' =
      (if k' = k then apply_modification (Some m) (storage_view E (\<lambda>d. batch_view d b) s k)
       else storage_view E (\<lambda>d. batch_view d b) s k'))"
proof (cases m)
  case (Write v)
  from storage_batch_write_view [OF apart k good, of s b v] show ?thesis
    by (auto simp: Write commit_entry_def)
next
  case Delete
  from storage_batch_delete_view [OF apart k good, of s b] show ?thesis
    by (auto simp: Delete commit_entry_def)
next
  case (InitAccount v)
  from storage_batch_write_view [OF apart k good, of s b v] show ?thesis
    by (auto simp: InitAccount commit_entry_def)
next
  case (Temp v)
  then show ?thesis by (simp add: commit_entry_def)
qed

lemma commit_entries_view:
  assumes apart: "leaves_apart E Ks" and good: "\<forall>k\<in>Ks. good k"
  shows "hm_ok es \<Longrightarrow> fst ` set es \<subseteq> Ks \<Longrightarrow> \<exists>s' b'. commit_entries E ops es s b = Ok (s', b') \<and>
    (\<forall>k\<in>Ks. storage_view E (\<lambda>d. batch_view d b') s' k = overlay es (storage_view E (\<lambda>d. batch_view d b) s) k)"
proof (induct es arbitrary: s b)
  case Nil
  then show ?case by (simp add: overlay_def)
next
  case (Cons e es)
  obtain k m where e: "e = (k, m)" by (cases e)
  have es: "hm_ok es" "fst ` set es \<subseteq> Ks" and k: "k \<in> Ks" "hm_get es k = None"
    using Cons.prems by (auto simp: e hm_get_None_iff)
  obtain s1 b1 where s1: "commit_entry E ops k m s b = Ok (s1, b1)"
    "\<forall>k'\<in>Ks. storage_view E (\<lambda>d. batch_view d b1) s1 k' =
      (if k' = k then apply_modification (Some m) (storage_view E (\<lambda>d. batch_view d b) s k)
       else storage_view E (\<lambda>d. batch_view d b) s k')"
    using commit_entry_view [OF apart good k(1)] by blast
  obtain s2 b2 where s2: "commit_entries E ops es s1 b1 = Ok (s2, b2)"
    "\<forall>k\<in>Ks. storage_view E (\<lambda>d. batch_view d b2) s2 k = overlay es (storage_view E (\<lambda>d. batch_view d b1) s1) k"
    using Cons.hyps [OF es] by blast
  have "overlay es (storage_view E (\<lambda>d. batch_view d b1) s1) k' =
      overlay (e # es) (storage_view E (\<lambda>d. batch_view d b) s) k'" if "k' \<in> Ks" for k'
    using that s1(2) k(2) by (cases "k' = k") (simp_all add: overlay_def e)
  with s1(1) s2 show ?case by (simp add: e)
qed

lemma commit_block_view:
  assumes apart: "leaves_apart E Ks" and good: "\<forall>k\<in>Ks. good k" and k: "k0 \<in> Ks"
    and l: "hm_ok (block_write_log l)" "fst ` set (block_write_log l) \<subseteq> Ks"
  shows "\<exists>s'. commit_block E ops l s = Ok (l\<lparr> wl_address_gen := None, block_write_log := [] \<rparr>, s') \<and>
    (\<forall>k\<in>Ks. storage_view E view s' k = overlay (block_write_log l) (storage_view E view s) k) \<and>
    (\<forall>g. wl_address_gen l = Some g \<longrightarrow> st_address_gen s' = g)"
proof -
  obtain s1 b1 where s1: "commit_entries E ops (block_write_log l) s (db_batch ops) = Ok (s1, b1)"
    "\<forall>k\<in>Ks. storage_view E (\<lambda>d. batch_view d b1) s1 k =
       overlay (block_write_log l) (storage_view E (\<lambda>d. batch_view d (db_batch ops)) s) k"
    using commit_entries_view [OF apart good l] by blast
  obtain s2 where s2: "storage_exec_batch ops s1 b1 = Ok s2"
    "\<forall>k'\<in>Ks. storage_view E view s2 k' = storage_view E (\<lambda>d. batch_view d b1) s1 k'"
    using storage_exec_batch_view [OF k good] by blast
  have upd: "storage_view E view (s2\<lparr> st_address_gen := g \<rparr>) k = storage_view E view s2 k" for g k
    by (simp add: storage_view_def)
  have view2: "storage_view E view s2 k = overlay (block_write_log l) (storage_view E view s) k" if k': "k \<in> Ks" for k
    using s1(2) s2(2) k' good by (simp add: overlay_def storage_batch_start_view)
  show ?thesis
    by (cases "wl_address_gen l") (simp_all add: commit_block_def s1(1) s2(1) view2 upd)
qed

end

lemma overlay_Nil [simp]: "overlay [] m = m"
  by (simp add: overlay_def fun_eq_iff)

lemma overlay_cong: "hm_get log = hm_get log' \<Longrightarrow> base k = base' k \<Longrightarrow> overlay log base k = overlay log' base' k"
  by (simp add: overlay_def)

lemma hm_get_set_cong:
  assumes "hm_ok m" "hm_ok m'" "set m = set m'"
  shows "hm_get m = hm_get m'"
proof
  fix k
  show "hm_get m k = hm_get m' k"
    using hm_get_Some_iff [OF assms(1), of k] hm_get_Some_iff [OF assms(2), of k] assms(3)
    by (metis option.exhaust)
qed

section \<open>Transactions on the log\<close>

text \<open>
  The calls of a transaction that change the log. A call that fails ends the transaction; a call that
  succeeds has entered a key with a modification.
\<close>

datatype tx_call = CallWrite key string | CallWriteTemp key string | CallDelete key | CallInitAccount string

definition entered ::
  "key \<Rightarrow> storage_modification \<Rightarrow> write_log \<times> (u64 \<times> i64, 'e write_log_error) outcome
     \<Rightarrow> write_log \<times> (key \<times> storage_modification) option" where
  "entered k m r = (fst r, case snd r of Ok _ \<Rightarrow> Some (k, m) | _ \<Rightarrow> None)"

fun run_call ::
  "'e bech32_lib \<Rightarrow> (string \<Rightarrow> string) \<Rightarrow> (established_address_gen \<Rightarrow> string) \<Rightarrow> established_address_gen
     \<Rightarrow> tx_call \<Rightarrow> write_log \<Rightarrow> write_log \<times> (key \<times> storage_modification) option" where
  "run_call lib sha40 borsh g (CallWrite k v) l = entered k (Write v) (wl_write lib l k v)"
| "run_call lib sha40 borsh g (CallWriteTemp k v) l = entered k (Temp v) (wl_write_temp lib l k v)"
| "run_call lib sha40 borsh g (CallDelete k) l = entered k Delete (wl_delete lib l k)"
| "run_call lib sha40 borsh g (CallInitAccount vp) l =
     (let (l', addr, _) = wl_init_account lib sha40 borsh l g vp
      in (l', Some (validity_predicate addr, InitAccount vp)))"

fun run_calls ::
  "'e bech32_lib \<Rightarrow> (string \<Rightarrow> string) \<Rightarrow> (established_address_gen \<Rightarrow> string) \<Rightarrow> established_address_gen
     \<Rightarrow> tx_call list \<Rightarrow> write_log \<Rightarrow> write_log \<times> (key \<times> storage_modification) list option" where
  "run_calls lib sha40 borsh g [] l = (l, Some [])"
| "run_calls lib sha40 borsh g (c # cs) l =
     (case run_call lib sha40 borsh g c l of
        (l', None) \<Rightarrow> (l', None)
      | (l', Some e) \<Rightarrow>
          (case run_calls lib sha40 borsh g cs l' of (l'', es) \<Rightarrow> (l'', map_option ((#) e) es)))"

text \<open>
  A transaction is its calls and the verdict of the validity predicates. The log is committed when the
  calls succeeded and the verdict is positive, and dropped otherwise; then it has no effects.
\<close>

definition run_transaction ::
  "'e bech32_lib \<Rightarrow> (string \<Rightarrow> string) \<Rightarrow> (established_address_gen \<Rightarrow> string) \<Rightarrow> established_address_gen
     \<Rightarrow> tx_call list \<times> bool \<Rightarrow> write_log \<Rightarrow> write_log \<times> (key \<times> storage_modification) list" where
  "run_transaction lib sha40 borsh g tx l =
     (case run_calls lib sha40 borsh g (fst tx) l of
        (l', Some es) \<Rightarrow> if snd tx then (wl_commit_tx l', es) else (wl_drop_tx l', [])
      | (l', None) \<Rightarrow> (wl_drop_tx l', []))"

fun run_transactions ::
  "'e bech32_lib \<Rightarrow> (string \<Rightarrow> string) \<Rightarrow> (established_address_gen \<Rightarrow> string) \<Rightarrow> established_address_gen
     \<Rightarrow> (tx_call list \<times> bool) list \<Rightarrow> write_log \<Rightarrow> write_log \<times> (key \<times> storage_modification) list list" where
  "run_transactions lib sha40 borsh g [] l = (l, [])"
| "run_transactions lib sha40 borsh g (tx # txs) l =
     (case run_transaction lib sha40 borsh g tx l of
        (l', es) \<Rightarrow> (case run_transactions lib sha40 borsh g txs l' of (l'', ess) \<Rightarrow> (l'', es # ess)))"

text \<open>The effects of one transaction on a map: a temporary entry gives the value from before the transaction.\<close>

definition transaction_effect ::
  "(key \<times> storage_modification) list \<Rightarrow> (key \<Rightarrow> string option) \<Rightarrow> key \<Rightarrow> string option" where
  "transaction_effect es m = fold (\<lambda>(k, e) m'. m'(k := apply_modification (Some e) (m k))) es m"

definition insert_entries ::
  "(key \<times> storage_modification) list \<Rightarrow> (key \<times> storage_modification) list \<Rightarrow> (key \<times> storage_modification) list" where
  "insert_entries es log = fold (\<lambda>(k, m). hm_insert k m) es log"

lemma insert_entries_simps [simp]:
  "insert_entries [] log = log"
  "insert_entries ((k, m) # es) log = insert_entries es (hm_insert k m log)"
  by (simp_all add: insert_entries_def)

lemma hm_ok_insert_entries: "hm_ok log \<Longrightarrow> hm_ok (insert_entries es log)"
  by (induct es arbitrary: log) (auto simp: insert_entries_def)

lemma hm_get_insert_entries:
  "hm_ok es \<Longrightarrow> hm_get (insert_entries es log) k = (case hm_get es k of Some m \<Rightarrow> Some m | None \<Rightarrow> hm_get log k)"
  by (induct es arbitrary: log) (auto simp: hm_get_None_iff [symmetric] split: option.splits)

lemma run_call_entry:
  assumes "run_call lib sha40 borsh g c l = (l', r)"
  shows "block_write_log l' = block_write_log l \<and>
    (\<forall>k m. r = Some (k, m) \<longrightarrow> tx_write_log l' = hm_insert k m (tx_write_log l))"
  using assms
  by (cases c) (auto simp: entered_def wl_write_def wl_write_temp_def wl_delete_def wl_init_account_def tx_insert_def
      generate_address_def Let_def split: if_splits outcome.splits)

lemma run_calls_entries:
  assumes "run_calls lib sha40 borsh g cs l = (l', r)"
  shows "block_write_log l' = block_write_log l \<and>
    (\<forall>es. r = Some es \<longrightarrow> tx_write_log l' = insert_entries es (tx_write_log l))"
  using assms
proof (induct cs arbitrary: l l' r)
  case Nil
  then show ?case by auto
next
  case (Cons c cs)
  obtain l1 r1 where l1: "run_call lib sha40 borsh g c l = (l1, r1)" by fastforce
  obtain l2 r2 where l2: "run_calls lib sha40 borsh g cs l1 = (l2, r2)" by fastforce
  show ?case
  proof (cases r1)
    case None
    then show ?thesis using run_call_entry [OF l1] Cons.prems l1 by simp
  next
    case (Some e)
    then show ?thesis
      using run_call_entry [OF l1] Cons.hyps [OF l2] Cons.prems l1 l2 by (cases e) auto
  qed
qed

lemma overlay_insert_entries:
  "overlay (insert_entries es log) m k =
     fold (\<lambda>(k, e) m'. m'(k := apply_modification (Some e) (m k))) es (overlay log m) k"
proof (induct es arbitrary: log)
  case Nil
  then show ?case by simp
next
  case (Cons e es)
  obtain k' e' where e: "e = (k', e')" by (cases e)
  have "overlay (hm_insert k' e' log) m = (overlay log m)(k' := apply_modification (Some e') (m k'))"
    by (auto simp: overlay_def fun_eq_iff)
  then show ?case using Cons by (simp add: e)
qed

lemma hm_get_filter:
  "hm_ok m \<Longrightarrow> hm_get (filter (\<lambda>e. \<not> P (snd e)) m) k =
     (case hm_get m k of Some v \<Rightarrow> if P v then None else Some v | None \<Rightarrow> None)"
proof (induct m)
  case Nil
  then show ?case by simp
next
  case (Cons e m)
  then show ?case
    by (cases e; cases "fst e = k") (simp_all add: hm_get_None_iff [symmetric])
qed

lemma apply_temp: "is_temp m \<Longrightarrow> apply_modification (Some m) x = x"
  by (cases m) (simp_all add: is_temp_def)

lemma apply_not_temp: "\<not> is_temp m \<Longrightarrow> apply_modification (Some m) x = apply_modification (Some m) y"
  by (cases m) (simp_all add: is_temp_def)

lemma overlay_commit_tx:
  assumes "hm_ok (tx_write_log l)"
  shows "overlay (block_write_log (wl_commit_tx l)) base =
    overlay (tx_write_log l) (overlay (block_write_log l) base)"
proof
  fix k
  let ?tx = "filter (\<lambda>e. \<not> is_temp (snd e)) (tx_write_log l)"
  have ok: "hm_ok ?tx"
    using assms by (simp add: hm_ok_def distinct_map_filter)
  have "hm_get ?tx k = (case hm_get (tx_write_log l) k of Some m \<Rightarrow> if is_temp m then None else Some m | None \<Rightarrow> None)"
    by (rule hm_get_filter [OF assms])
  moreover have "block_write_log (wl_commit_tx l) = insert_entries ?tx (block_write_log l)"
    by (simp add: wl_commit_tx_def insert_entries_def Let_def)
  ultimately show "overlay (block_write_log (wl_commit_tx l)) base k =
      overlay (tx_write_log l) (overlay (block_write_log l) base) k"
    by (cases "hm_get (tx_write_log l) k") (auto simp: overlay_def hm_get_insert_entries [OF ok] apply_temp intro: apply_not_temp)
qed

lemma run_transaction_overlay:
  assumes run: "run_transaction lib sha40 borsh g tx l = (l', es)" and l: "tx_write_log l = []" "hm_ok (block_write_log l)"
  shows "tx_write_log l' = [] \<and> hm_ok (block_write_log l') \<and>
    overlay (block_write_log l') base = transaction_effect es (overlay (block_write_log l) base)"
proof -
  obtain l1 r where l1: "run_calls lib sha40 borsh g (fst tx) l = (l1, r)" by fastforce
  note entries = run_calls_entries [OF l1]
  show ?thesis
  proof (cases "r \<noteq> None \<and> snd tx")
    case True
    then have es: "r = Some es" and l': "l' = wl_commit_tx l1" using run l1 by (auto simp: run_transaction_def)
    have tx: "tx_write_log l1 = insert_entries es []" and block: "block_write_log l1 = block_write_log l"
      using entries es l(1) by auto
    have "hm_ok (tx_write_log l1)" by (simp add: tx hm_ok_insert_entries)
    from overlay_commit_tx [OF this, of base] have "overlay (block_write_log l') base =
        transaction_effect es (overlay (block_write_log l) base)"
      by (simp add: l' tx block fun_eq_iff overlay_insert_entries transaction_effect_def)
    moreover have "hm_ok (block_write_log l')"
      using l(2) hm_ok_insert_entries by (simp add: l' wl_commit_tx_def block insert_entries_def [symmetric])
    ultimately show ?thesis by (simp add: l' wl_commit_tx_def Let_def)
  next
    case False
    then have "l' = wl_drop_tx l1" "es = []" using run l1 by (auto simp: run_transaction_def split: option.splits)
    then show ?thesis using entries l(2) by (simp add: wl_drop_tx_def transaction_effect_def)
  qed
qed

lemma run_transactions_overlay:
  assumes "run_transactions lib sha40 borsh g txs l = (l', ess)" "tx_write_log l = []" "hm_ok (block_write_log l)"
  shows "hm_ok (block_write_log l') \<and>
    overlay (block_write_log l') base = fold transaction_effect ess (overlay (block_write_log l) base)"
  using assms
proof (induct txs arbitrary: l ess)
  case Nil
  then show ?case by auto
next
  case (Cons tx txs)
  obtain l1 es where l1: "run_transaction lib sha40 borsh g tx l = (l1, es)" by fastforce
  obtain l2 ess1 where l2: "run_transactions lib sha40 borsh g txs l1 = (l2, ess1)" by fastforce
  show ?case
    using run_transaction_overlay [OF l1 Cons.prems(2,3), of base] Cons.hyps [of l1 ess1] Cons.prems(1) l1 l2 by auto
qed

section \<open>Blocks on the storage\<close>

lemma rocks_read_storage:
  assumes "leaves_apart E Ks" "\<forall>k\<in>Ks. rocks_good (ne_bech32 E) K k" "k \<in> Ks"
  shows "storage_read E (rocks_ops E K) s k =
    Ok (value_gas (ne_bech32 E) k (storage_view E (\<lambda>d k. kv_view K d (subspace_string (ne_bech32 E) k)) s k))"
  using assms by (intro rocks.storage_read_view) simp_all

definition stored ::
  "('e, 't, 'h, 's, 'time, 'w) node_env \<Rightarrow> ('d, 'b, 'e, 'h, 's, 'time, 'w) db_ops
     \<Rightarrow> ('d, 't, 'time, 'w) storage \<Rightarrow> key \<Rightarrow> string option" where
  "stored E ops s k = (case storage_read E ops s k of Ok (v, _) \<Rightarrow> v | _ \<Rightarrow> None)"

lemma stored_rocks:
  assumes "leaves_apart E Ks" "\<forall>k\<in>Ks. rocks_good (ne_bech32 E) K k" "k \<in> Ks"
  shows "stored E (rocks_ops E K) s k =
    storage_view E (\<lambda>d k. kv_view K d (subspace_string (ne_bech32 E) k)) s k"
  by (simp add: stored_def rocks_read_storage [OF assms] value_gas_def)

lemma commit_block_stored:
  assumes apart: "leaves_apart E Ks" and good: "\<forall>k\<in>Ks. rocks_good (ne_bech32 E) K k" and k: "k0 \<in> Ks"
    and l: "hm_ok (block_write_log l)" "fst ` set (block_write_log l) \<subseteq> Ks"
  shows "\<exists>s'. commit_block E (rocks_ops E K) l s = Ok (l\<lparr> wl_address_gen := None, block_write_log := [] \<rparr>, s') \<and>
    (\<forall>k\<in>Ks. storage_read E (rocks_ops E K) s' k =
       Ok (value_gas (ne_bech32 E) k (overlay (block_write_log l) (stored E (rocks_ops E K) s) k)))"
proof -
  let ?v = "\<lambda>d k. kv_view K d (subspace_string (ne_bech32 E) k)"
  obtain s' where s': "commit_block E (rocks_ops E K) l s = Ok (l\<lparr> wl_address_gen := None, block_write_log := [] \<rparr>, s')"
    "\<forall>k\<in>Ks. storage_view E ?v s' k = overlay (block_write_log l) (storage_view E ?v s) k"
    using rocks.commit_block_view [OF apart good k l] by blast
  have "storage_read E (rocks_ops E K) s' k =
      Ok (value_gas (ne_bech32 E) k (overlay (block_write_log l) (stored E (rocks_ops E K) s) k))" if k': "k \<in> Ks" for k
    using s'(2) k' by (simp add: rocks_read_storage [OF apart good k'] overlay_def stored_rocks [OF apart good k'])
  with s'(1) show ?thesis by blast
qed

text \<open>
  Claim C10. A block takes effect transaction by transaction: when the log of a block is committed to the
  storage over the persistent database, every key has the value that the accepted transactions give it,
  each as a whole and in their order. Transactions that failed or were rejected have no effect, and no
  temporary value is stored. The keys in question are distinct leaves of the Merkle tree.
\<close>

theorem block_atomic:
  assumes "leaves_apart E Ks" "\<forall>k\<in>Ks. rocks_good (ne_bech32 E) K k" "k \<in> Ks"
    and "run_transactions (ne_bech32 E) sha40 borsh g txs l = (l', ess)"
    and "tx_write_log l = []" "block_write_log l = []" "fst ` set (block_write_log l') \<subseteq> Ks"
  shows "\<exists>l'' s'. commit_block E (rocks_ops E K) l' s = Ok (l'', s') \<and> block_write_log l'' = [] \<and>
    storage_read E (rocks_ops E K) s' k =
      Ok (value_gas (ne_bech32 E) k (fold transaction_effect ess (stored E (rocks_ops E K) s) k))"
proof -
  have ok: "hm_ok (block_write_log l')" and
    view: "overlay (block_write_log l') base = fold transaction_effect ess base" for base
    using run_transactions_overlay [OF assms(4,5), of base] assms(6) by simp_all
  show ?thesis
    using commit_block_stored [OF assms(1-3) ok assms(7), of s] assms(3) by (force simp: view)
qed

text \<open>The keys of the examples.\<close>

abbreviation key_x :: key where "key_x \<equiv> Key [StringSeg ''x'']"
abbreviation key_y :: key where "key_y \<equiv> Key [StringSeg ''y'']"

lemma example_env_bech32 [simp]: "ne_bech32 example_env = example_bech32"
  by (simp add: example_env_def)

lemma example_keys: "key_string example_bech32 key_x = ''x''" "key_string example_bech32 key_y = ''y''"
  using key_string_StringSegs [of example_bech32 "[''x'']"] key_string_StringSegs [of example_bech32 "[''y'']"]
  by simp_all

lemma example_leaf:
  "leaf example_env key_x = Some (AccountStore, Some ''x'')" "leaf example_env key_y = Some (AccountStore, Some ''y'')"
  by (simp_all add: leaf_def mt_slot_def store_type_sub_key_def example_env_def example_keys example_smt_def)

lemma example_apart: "leaves_apart example_env {key_x, key_y}"
  by (simp add: leaves_apart_def example_leaf) (simp add: example_env_def example_smt_laws)

lemma example_good: "\<forall>k\<in>{key_x, key_y}. rocks_good (ne_bech32 example_env) example_kv k"
  by (simp add: rocks_good_def good_key_def example_kv_laws example_bech32_laws key_wf_def key_constants
      example_env_def example_keys)

theorem block_atomic_witness:
  "\<exists>l' ess l'' s'.
     run_transactions example_bech32 id last_hash \<lparr> last_hash = ''seed'' \<rparr>
       [([CallWrite key_x ''1'', CallWriteTemp key_y ''2''], True), ([CallDelete key_x], False)] write_log_default = (l', ess) \<and>
     commit_block example_env (rocks_ops example_env example_kv) l'
       (storage_open (example_env :: (_, _, _, _, _, nat) node_env) [] ''chain'' 0) = Ok (l'', s') \<and>
     storage_read example_env (rocks_ops example_env example_kv) s' key_x = Ok (Some ''1'', 2)"
proof -
  let ?E = "example_env :: (_, _, _, _, _, nat) node_env"
  let ?l = "write_log_default\<lparr> block_write_log := [(key_x, Write ''1'')] \<rparr>"
  let ?run = "\<lambda>lib. run_transactions lib id last_hash \<lparr> last_hash = ''seed'' \<rparr>
    [([CallWrite key_x ''1'', CallWriteTemp key_y ''2''], True), ([CallDelete key_x], False)] write_log_default"
  let ?ess = "[[(key_x, Write ''1''), (key_y, Temp ''2'')], []]"
  have run: "?run example_bech32 = (?l, ?ess)"
    by (simp add: run_transaction_def entered_def wl_write_def wl_write_temp_def wl_delete_def tx_insert_def
        write_log_default_def wl_commit_tx_def wl_drop_tx_def is_temp_def)
  then have "?run (ne_bech32 ?E) = (?l, ?ess)" by (simp only: example_env_bech32)
  from block_atomic [OF example_apart example_good _ this, of key_x "storage_open ?E [] ''chain'' 0"]
  have "\<exists>l'' s'. commit_block ?E (rocks_ops ?E example_kv) ?l (storage_open ?E [] ''chain'' 0) = Ok (l'', s') \<and>
      storage_read ?E (rocks_ops ?E example_kv) s' key_x = Ok (Some ''1'', 2)"
    by (simp add: write_log_default_def transaction_effect_def value_gas_def key_size_def example_keys) blast
  with run show ?thesis by blast
qed

text \<open>
  Claim C12. The order in which the hash map of the log is visited does not matter: logs with the same
  entries commit to storages in which all the keys read the same, with the same gas.
\<close>

theorem commit_block_order:
  assumes "leaves_apart E Ks" "\<forall>k\<in>Ks. rocks_good (ne_bech32 E) K k" "k \<in> Ks"
    and "hm_ok (block_write_log l1)" "hm_ok (block_write_log l2)"
    and "set (block_write_log l1) = set (block_write_log l2)" "fst ` set (block_write_log l1) \<subseteq> Ks"
  shows "\<exists>l1' s1 l2' s2. commit_block E (rocks_ops E K) l1 s = Ok (l1', s1) \<and>
    commit_block E (rocks_ops E K) l2 s = Ok (l2', s2) \<and>
    storage_read E (rocks_ops E K) s1 k = storage_read E (rocks_ops E K) s2 k"
  using commit_block_stored [OF assms(1-3) assms(4,7), of s] assms(3)
    commit_block_stored [OF assms(1-3) assms(5), of s] hm_get_set_cong [OF assms(4-6)] assms(6,7)
  by (force simp: overlay_def)

theorem commit_block_order_witness:
  "\<exists>l1' s1 l2' s2.
     commit_block example_env (rocks_ops example_env example_kv)
       (write_log_default\<lparr> block_write_log := [(key_x, Write ''1''), (key_y, Write ''2'')] \<rparr>)
       (storage_open (example_env :: (_, _, _, _, _, nat) node_env) [] ''chain'' 0) = Ok (l1', s1) \<and>
     commit_block example_env (rocks_ops example_env example_kv)
       (write_log_default\<lparr> block_write_log := [(key_y, Write ''2''), (key_x, Write ''1'')] \<rparr>)
       (storage_open (example_env :: (_, _, _, _, _, nat) node_env) [] ''chain'' 0) = Ok (l2', s2) \<and>
     storage_read example_env (rocks_ops example_env example_kv) s1 key_x =
     storage_read example_env (rocks_ops example_env example_kv) s2 key_x"
  by (rule commit_block_order [OF example_apart example_good]) auto

section \<open>Who verifies a transaction\<close>

lemma keys_insert_entries: "fst ` set (insert_entries es log) = fst ` set es \<union> fst ` set log"
  by (induct es arbitrary: log) (simp, clarsimp simp: insert_commute)

lemma set_hm_insert: "set (hm_insert k v m) \<subseteq> insert (k, v) (set m)"
  by (induct m rule: hm_insert.induct) auto

lemma set_insert_entries: "set (insert_entries es log) \<subseteq> set es \<union> set log"
proof (induct es arbitrary: log)
  case Nil
  then show ?case by simp
next
  case (Cons e es)
  then show ?case using set_hm_insert [of "fst e" "snd e" log] by (cases e) fastforce
qed

lemma is_validity_predicate_eq: "is_validity_predicate k = Some a \<Longrightarrow> k = validity_predicate a"
  by (induct k rule: is_validity_predicate.induct) (auto simp: validity_predicate_def key_from_seg_def split: if_splits)

lemma initialized_address_entry:
  "a \<in> set (get_initialized_accounts l) \<Longrightarrow> \<exists>vp. (validity_predicate a, InitAccount vp) \<in> set (tx_write_log l)"
proof -
  assume "a \<in> set (get_initialized_accounts l)"
  then obtain e where e: "e \<in> set (tx_write_log l)" "initialized_address e = Some a"
    by (auto simp: get_initialized_accounts_def List.map_filter_def)
  obtain k vp where "e = (k, InitAccount vp)" "is_validity_predicate k = Some a"
    using e(2) by (cases e rule: initialized_address.cases) auto
  with e(1) show ?thesis using is_validity_predicate_eq by blast
qed

text \<open>
  Claim C11. No change of a transaction escapes verification: the changed keys are the keys that the calls of
  the transaction entered, and every address in such a key is a verifier, unless the transaction itself
  initialized the account of the address. The verifiers that the transaction asked for are kept.
\<close>

theorem verifiers_cover_changes:
  assumes "run_calls lib sha40 borsh g cs l = (l', Some es)" "tx_write_log l = []"
    and "verifiers_and_changed_keys l' requested = (verifiers, changed_keys)"
  shows "requested \<subseteq> verifiers \<and> changed_keys = fst ` set es \<and>
    (\<forall>k\<in>changed_keys. \<forall>a\<in>set (find_addresses k).
       a \<in> verifiers \<or> (\<exists>vp. (validity_predicate a, InitAccount vp) \<in> set es))"
proof -
  have tx: "tx_write_log l' = insert_entries es []"
    using run_calls_entries [OF assms(1)] assms(2) by simp
  have inits: "\<exists>vp. (validity_predicate a, InitAccount vp) \<in> set es" if "a \<in> set (get_initialized_accounts l')" for a
    using initialized_address_entry [OF that] set_insert_entries [of es "[]"] by (auto simp: tx)
  show ?thesis
    using assms(3) inits
    by (auto simp: verifiers_and_changed_keys_def Let_def wl_get_keys_def tx keys_insert_entries [of es "[]", simplified])
qed

theorem verifiers_cover_changes_witness:
  "\<exists>l' verifiers changed_keys.
     run_calls example_bech32 id last_hash \<lparr> last_hash = ''seed'' \<rparr>
       [CallWrite (Key [AddressSeg (Internal Governance), StringSeg ''x'']) ''1''] write_log_default =
       (l', Some [(Key [AddressSeg (Internal Governance), StringSeg ''x''], Write ''1'')]) \<and>
     verifiers_and_changed_keys l' {} = (verifiers, changed_keys) \<and> Internal Governance \<in> verifiers"
proof -
  let ?k = "Key [AddressSeg (Internal Governance), StringSeg ''x'']"
  let ?l = "tx_insert write_log_default ?k (Write ''1'')"
  have run: "run_calls example_bech32 id last_hash \<lparr> last_hash = ''seed'' \<rparr> [CallWrite ?k ''1''] write_log_default =
      (?l, Some [(?k, Write ''1'')])"
    by (simp add: entered_def wl_write_def write_log_default_def)
  obtain verifiers changed_keys where v: "verifiers_and_changed_keys ?l {} = (verifiers, changed_keys)" by fastforce
  have "Internal Governance \<in> verifiers"
    using verifiers_cover_changes [OF run _ v] by (simp add: write_log_default_def find_addresses_def)
  with run v show ?thesis by blast
qed

text \<open>
  Claim C36. The validity predicate of an account that is not yet in the storage is protected only within the
  transaction that initializes the account: there a write to it fails, and yet the log holds the new value
  after the failure. In the next transaction of the same block the write succeeds.
\<close>

theorem new_account_vp_update:
  "case wl_init_account lib sha40 borsh l g vp of
     (l', addr, _) \<Rightarrow>
       snd (wl_write lib l' (validity_predicate addr) v) = Err UpdateVpOfNewAccount \<and>
       fst (wl_read lib (fst (wl_write lib l' (validity_predicate addr) v)) (validity_predicate addr)) = Some (Write v) \<and>
       snd (wl_write lib (wl_commit_tx l') (validity_predicate addr) v) =
         Ok (of_nat (key_size lib (validity_predicate addr) + length v), of_nat (length v))"
  by (simp add: wl_init_account_def generate_address_def wl_write_def tx_insert_def wl_read_def wl_commit_tx_def Let_def)

end
