(* ===== verification/Protocol_Params.thy ===== *)
theory Protocol_Params
  imports Write_Log
begin

text \<open>
  The protocol parameters, \<^verbatim>\<open>shared/src/ledger/parameters\<close>, and the epochs of the storage, the part of
  \<^verbatim>\<open>shared/src/ledger/storage/mod.rs\<close> that reads them.
\<close>

section \<open>Data\<close>

record epoch_duration =
  min_num_of_blocks :: u64
  min_duration :: u64

record protocol_parameters =
  pp_epoch_duration :: epoch_duration
  pp_max_expected_time_per_block :: u64
  pp_vp_whitelist :: "string list"
  pp_tx_whitelist :: "string list"

datatype 'e params_read_error = ReadStorageError "'e db_error" | StorageTypeError | ParametersMissing

text \<open>The Borsh encodings of the parameters, and the clock: adding a duration may panic.\<close>

record 'time params_lib =
  enc_epoch_duration :: "epoch_duration \<Rightarrow> string"
  dec_epoch_duration :: "string \<Rightarrow> epoch_duration option"
  enc_strings :: "string list \<Rightarrow> string"
  dec_strings :: "string \<Rightarrow> string list option"
  enc_duration :: "u64 \<Rightarrow> string"
  dec_duration :: "string \<Rightarrow> u64 option"
  dec_u64 :: "string \<Rightarrow> u64 option"
  time_add :: "'time \<Rightarrow> u64 \<Rightarrow> 'time option"
  time_le :: "'time \<Rightarrow> 'time \<Rightarrow> bool"

definition params_laws :: "'time params_lib \<Rightarrow> bool" where
  "params_laws P \<longleftrightarrow>
     (\<forall>x. dec_epoch_duration P (enc_epoch_duration P x) = Some x) \<and>
     (\<forall>x. dec_strings P (enc_strings P x) = Some x) \<and>
     (\<forall>x. dec_duration P (enc_duration P x) = Some x)"

section \<open>Keys\<close>

definition PARAMETERS_ADDRESS :: address where "PARAMETERS_ADDRESS = Internal Parameters"
definition EPOCH_DURATION_KEY :: string where "EPOCH_DURATION_KEY = ''epoch_duration''"
definition VP_WHITELIST_KEY :: string where "VP_WHITELIST_KEY = ''vp_whitelist''"
definition TX_WHITELIST_KEY :: string where "TX_WHITELIST_KEY = ''tx_whitelist''"
definition MAX_EXPECTED_TIME_PER_BLOCK_KEY :: string where
  "MAX_EXPECTED_TIME_PER_BLOCK_KEY = ''max_expected_time_per_block''"

lemmas params_keys = PARAMETERS_ADDRESS_def EPOCH_DURATION_KEY_def VP_WHITELIST_KEY_def TX_WHITELIST_KEY_def
  MAX_EXPECTED_TIME_PER_BLOCK_KEY_def

definition get_epoch_storage_key :: key where
  "get_epoch_storage_key = Key [AddressSeg PARAMETERS_ADDRESS, StringSeg EPOCH_DURATION_KEY]"

definition get_vp_whitelist_storage_key :: key where
  "get_vp_whitelist_storage_key = Key [AddressSeg PARAMETERS_ADDRESS, StringSeg VP_WHITELIST_KEY]"

definition get_tx_whitelist_storage_key :: key where
  "get_tx_whitelist_storage_key = Key [AddressSeg PARAMETERS_ADDRESS, StringSeg TX_WHITELIST_KEY]"

definition get_max_expected_time_per_block_key :: key where
  "get_max_expected_time_per_block_key = Key [AddressSeg PARAMETERS_ADDRESS, StringSeg MAX_EXPECTED_TIME_PER_BLOCK_KEY]"

lemmas params_key_defs = get_epoch_storage_key_def get_vp_whitelist_storage_key_def get_tx_whitelist_storage_key_def
  get_max_expected_time_per_block_key_def

definition is_epoch_storage_key :: "key \<Rightarrow> bool" where
  "is_epoch_storage_key k = (segments k = [AddressSeg PARAMETERS_ADDRESS, StringSeg EPOCH_DURATION_KEY])"

definition is_max_expected_time_per_block_key :: "key \<Rightarrow> bool" where
  "is_max_expected_time_per_block_key k =
     (segments k = [AddressSeg PARAMETERS_ADDRESS, StringSeg MAX_EXPECTED_TIME_PER_BLOCK_KEY])"

definition is_tx_whitelist_key :: "key \<Rightarrow> bool" where
  "is_tx_whitelist_key k = (segments k = [AddressSeg PARAMETERS_ADDRESS, StringSeg TX_WHITELIST_KEY])"

definition is_vp_whitelist_key :: "key \<Rightarrow> bool" where
  "is_vp_whitelist_key k = (segments k = [AddressSeg PARAMETERS_ADDRESS, StringSeg VP_WHITELIST_KEY])"

definition is_protocol_parameter_key :: "key \<Rightarrow> bool" where
  "is_protocol_parameter_key k =
     (is_epoch_storage_key k \<or> is_max_expected_time_per_block_key k \<or> is_tx_whitelist_key k \<or> is_vp_whitelist_key k)"

text \<open>The first segment is taken by its index; a key without segments panics.\<close>

definition is_parameter_key :: "key \<Rightarrow> bool option" where
  "is_parameter_key k = map_option (\<lambda>seg. seg = AddressSeg PARAMETERS_ADDRESS) (vec_get (segments k) 0)"

section \<open>The native validity predicate\<close>

datatype parameter_key_type = PARAMETER | UNKNOWN_PARAMETER | UNKNOWN

definition params_key_type :: "key \<Rightarrow> parameter_key_type option" where
  "params_key_type k =
     (if is_protocol_parameter_key k then Some PARAMETER
      else map_option (\<lambda>b. if b then UNKNOWN_PARAMETER else UNKNOWN) (is_parameter_key k))"

text \<open>\<^verbatim>\<open>ParametersVp::validate_tx\<close> over the changed keys in their order; whether a proposal is being executed is an argument.\<close>

fun params_validate_tx :: "'time params_lib \<Rightarrow> (u64 \<Rightarrow> bool) \<Rightarrow> string \<Rightarrow> key list \<Rightarrow> bool option" where
  "params_validate_tx P is_proposal_accepted tx_data [] = Some True"
| "params_validate_tx P is_proposal_accepted tx_data (k # ks) =
     Option.bind (params_key_type k) (\<lambda>ty.
       if (case ty of
             PARAMETER \<Rightarrow> (case dec_u64 P tx_data of Some proposal_id \<Rightarrow> is_proposal_accepted proposal_id | None \<Rightarrow> False)
           | UNKNOWN_PARAMETER \<Rightarrow> False
           | UNKNOWN \<Rightarrow> True)
       then params_validate_tx P is_proposal_accepted tx_data ks
       else Some False)"

section \<open>Writing and reading\<close>

text \<open>\<^verbatim>\<open>Parameters::init_storage\<close>: the expectations are panics.\<close>

fun write_all ::
  "('e, 't, 'h, 's, 'time, 'w) node_env \<Rightarrow> ('d, 'b, 'e, 'h, 's, 'time, 'w) db_ops
     \<Rightarrow> (key \<times> string) list \<Rightarrow> ('d, 't, 'time, 'w) storage \<Rightarrow> ('d, 't, 'time, 'w) storage option" where
  "write_all E ops [] s = Some s"
| "write_all E ops ((k, v) # kvs) s =
     (case storage_write E ops s k v of Ok (s', _) \<Rightarrow> write_all E ops kvs s' | _ \<Rightarrow> None)"

definition params_init_storage ::
  "('e, 't, 'h, 's, 'time, 'w) node_env \<Rightarrow> ('d, 'b, 'e, 'h, 's, 'time, 'w) db_ops \<Rightarrow> 'time params_lib
     \<Rightarrow> protocol_parameters \<Rightarrow> ('d, 't, 'time, 'w) storage \<Rightarrow> ('d, 't, 'time, 'w) storage option" where
  "params_init_storage E ops P pp s =
     write_all E ops
       [(get_epoch_storage_key, enc_epoch_duration P (pp_epoch_duration pp)),
        (get_vp_whitelist_storage_key, enc_strings P (pp_vp_whitelist pp)),
        (get_tx_whitelist_storage_key, enc_strings P (pp_tx_whitelist pp)),
        (get_max_expected_time_per_block_key, enc_duration P (pp_max_expected_time_per_block pp))] s"

text \<open>\<^verbatim>\<open>update\<close> and its uses; the serialization of a value does not fail.\<close>

definition params_update ::
  "('e, 't, 'h, 's, 'time, 'w) node_env \<Rightarrow> ('d, 'b, 'e, 'h, 's, 'time, 'w) db_ops
     \<Rightarrow> ('d, 't, 'time, 'w) storage \<Rightarrow> string \<Rightarrow> key \<Rightarrow> (('d, 't, 'time, 'w) storage \<times> u64, 'e db_error) outcome" where
  "params_update E ops s serialized_value k =
     outcome_bind (storage_write E ops s k serialized_value) (\<lambda>(s', gas, _). Ok (s', gas))"

definition update_max_expected_time_per_block_parameter where
  "update_max_expected_time_per_block_parameter E ops P s v =
     params_update E ops s (enc_duration P v) get_max_expected_time_per_block_key"

definition update_vp_whitelist_parameter where
  "update_vp_whitelist_parameter E ops P s v = params_update E ops s (enc_strings P v) get_vp_whitelist_storage_key"

definition update_tx_whitelist_parameter where
  "update_tx_whitelist_parameter E ops P s v = params_update E ops s (enc_strings P v) get_tx_whitelist_storage_key"

definition update_epoch_parameter where
  "update_epoch_parameter E ops P s v = params_update E ops s (enc_epoch_duration P v) get_epoch_storage_key"

text \<open>A parameter that must be there.\<close>

definition read_parameter ::
  "('e, 't, 'h, 's, 'time, 'w) node_env \<Rightarrow> ('d, 'b, 'e, 'h, 's, 'time, 'w) db_ops
     \<Rightarrow> ('d, 't, 'time, 'w) storage \<Rightarrow> (string \<Rightarrow> 'a option) \<Rightarrow> key \<Rightarrow> ('a \<times> u64, 'e params_read_error) outcome" where
  "read_parameter E ops s dec k =
     outcome_bind (map_err ReadStorageError (storage_read E ops s k)) (\<lambda>(v, gas).
     outcome_bind (ok_or v ParametersMissing) (\<lambda>bytes.
     outcome_bind (ok_or (dec bytes) StorageTypeError) (\<lambda>x. Ok (x, gas))))"

definition read_epoch_parameter ::
  "('e, 't, 'h, 's, 'time, 'w) node_env \<Rightarrow> ('d, 'b, 'e, 'h, 's, 'time, 'w) db_ops \<Rightarrow> 'time params_lib
     \<Rightarrow> ('d, 't, 'time, 'w) storage \<Rightarrow> (epoch_duration \<times> u64, 'e params_read_error) outcome" where
  "read_epoch_parameter E ops P s = read_parameter E ops s (dec_epoch_duration P) get_epoch_storage_key"

definition params_read ::
  "('e, 't, 'h, 's, 'time, 'w) node_env \<Rightarrow> ('d, 'b, 'e, 'h, 's, 'time, 'w) db_ops \<Rightarrow> 'time params_lib
     \<Rightarrow> ('d, 't, 'time, 'w) storage \<Rightarrow> (protocol_parameters \<times> u64, 'e params_read_error) outcome" where
  "params_read E ops P s =
     (case read_epoch_parameter E ops P s of
        Ok (epoch_duration, gas_epoch) \<Rightarrow>
          outcome_bind (read_parameter E ops s (dec_strings P) get_vp_whitelist_storage_key) (\<lambda>(vp_whitelist, gas_vp).
          outcome_bind (read_parameter E ops s (dec_strings P) get_tx_whitelist_storage_key) (\<lambda>(tx_whitelist, gas_tx).
          outcome_bind (read_parameter E ops s (dec_duration P) get_max_expected_time_per_block_key) (\<lambda>(max_time, gas_time).
            Ok (\<lparr> pp_epoch_duration = epoch_duration, pp_max_expected_time_per_block = max_time,
                  pp_vp_whitelist = vp_whitelist, pp_tx_whitelist = tx_whitelist \<rparr>,
                gas_epoch + gas_tx + gas_vp + gas_time))))
      | _ \<Rightarrow> Panic)"

section \<open>Epochs of the storage\<close>

definition tree_update_field ::
  "('e, 't, 'h, 's, 'time, 'w) node_env \<Rightarrow> 't merkle_tree \<Rightarrow> string \<times> string \<Rightarrow> ('t merkle_tree, 'e db_error) outcome" where
  "tree_update_field E t field =
     outcome_bind (map_err DbKeyError (key_push (ne_bech32 E) (key_from_seg (AddressSeg (Internal PoS))) (fst field))) (\<lambda>k.
       map_err MerkleTreeError (mt_update (ne_bech32 E) (ne_smt E) t k (snd field)))"

definition update_epoch_in_merkle_tree ::
  "('e, 't, 'h, 's, 'time, 'w) node_env \<Rightarrow> ('d, 't, 'time, 'w) storage \<Rightarrow> (('d, 't, 'time, 'w) storage, 'e db_error) outcome" where
  "update_epoch_in_merkle_tree E s =
     outcome_bind (tree_update_field E (bl_tree (st_block s))
       (''epoch_start_height'', enc_height (ne_borsh E) (st_next_epoch_min_start_height s))) (\<lambda>t.
     outcome_bind (tree_update_field E t
       (''epoch_start_time'', enc_time (ne_borsh E) (st_next_epoch_min_start_time s))) (\<lambda>t.
     outcome_bind (tree_update_field E t
       (''current_epoch'', enc_epoch (ne_borsh E) (bl_epoch (st_block s)))) (\<lambda>t.
       Ok (set_tree s t))))"

definition init_genesis_epoch ::
  "('e, 't, 'h, 's, 'time, 'w) node_env \<Rightarrow> 'time params_lib \<Rightarrow> ('d, 't, 'time, 'w) storage \<Rightarrow> block_height \<Rightarrow> 'time
     \<Rightarrow> protocol_parameters \<Rightarrow> (('d, 't, 'time, 'w) storage, 'e db_error) outcome" where
  "init_genesis_epoch E P s initial_height genesis_time pp =
     outcome_bind (unwrap (time_add P genesis_time (min_duration (pp_epoch_duration pp)))) (\<lambda>start_time.
       update_epoch_in_merkle_tree E
         (s\<lparr> st_next_epoch_min_start_height := initial_height + min_num_of_blocks (pp_epoch_duration pp),
             st_next_epoch_min_start_time := start_time \<rparr>))"

definition EVIDENCE_MAX_AGE_NUM_BLOCKS :: u64 where "EVIDENCE_MAX_AGE_NUM_BLOCKS = 100000"

text \<open>The storage at the beginning of a new epoch.\<close>

definition begin_epoch ::
  "('d, 't, 'time, 'w) storage \<Rightarrow> block_height \<Rightarrow> 'time \<Rightarrow> u64 \<Rightarrow> ('d, 't, 'time, 'w) storage" where
  "begin_epoch s height start_time blocks =
     s\<lparr> st_block := (st_block s)\<lparr> bl_epoch := bl_epoch (st_block s) + 1,
          bl_pred_epochs := new_epoch (bl_pred_epochs (st_block s)) height EVIDENCE_MAX_AGE_NUM_BLOCKS \<rparr>,
        st_last_epoch := st_last_epoch s + 1,
        st_next_epoch_min_start_height := height + blocks,
        st_next_epoch_min_start_time := start_time \<rparr>"

definition update_epoch ::
  "('e, 't, 'h, 's, 'time, 'w) node_env \<Rightarrow> ('d, 'b, 'e, 'h, 's, 'time, 'w) db_ops \<Rightarrow> 'time params_lib
     \<Rightarrow> ('d, 't, 'time, 'w) storage \<Rightarrow> block_height \<Rightarrow> 'time \<Rightarrow> (('d, 't, 'time, 'w) storage \<times> bool, 'e db_error) outcome" where
  "update_epoch E ops P s height time =
     (case params_read E ops P s of
        Ok (parameters, _) \<Rightarrow>
          (let is_new = (st_next_epoch_min_start_height s \<le> height \<and> time_le P (st_next_epoch_min_start_time s) time);
               duration = pp_epoch_duration parameters
           in outcome_bind
                (if is_new
                 then outcome_bind (unwrap (time_add P time (min_duration duration))) (\<lambda>start_time.
                        Ok (begin_epoch s height start_time (min_num_of_blocks duration)))
                 else Ok s) (\<lambda>s'.
              outcome_bind (update_epoch_in_merkle_tree E s') (\<lambda>s''. Ok (s'', is_new))))
      | _ \<Rightarrow> Panic)"

section \<open>The parameters are read as they were written\<close>

definition params_keys_set :: "key set" where
  "params_keys_set =
     {get_epoch_storage_key, get_vp_whitelist_storage_key, get_tx_whitelist_storage_key, get_max_expected_time_per_block_key}"

text \<open>The part of the storage that concerns epochs.\<close>

definition epoch_part where
  "epoch_part s =
     (bl_epoch (st_block s), bl_pred_epochs (st_block s), st_last_epoch s, st_next_epoch_min_start_height s,
      st_next_epoch_min_start_time s)"

lemma storage_write_epoch_part: "storage_write E ops s k v = Ok (s', r) \<Longrightarrow> epoch_part s' = epoch_part s"
  by (auto simp: storage_write_def outcome_simps epoch_part_def set_tree_def)

lemma write_all_epoch_part: "write_all E ops kvs s = Some s' \<Longrightarrow> epoch_part s' = epoch_part s"
proof (induct kvs arbitrary: s)
  case Nil
  then show ?case by simp
next
  case (Cons kv kvs)
  then show ?case
    by (cases kv) (auto split: outcome.splits dest!: storage_write_epoch_part)
qed

context subspace_db
begin

lemma write_all_view:
  assumes apart: "leaves_apart E Ks" and good: "\<forall>k\<in>Ks. good k"
  shows "distinct (map fst kvs) \<Longrightarrow> fst ` set kvs \<subseteq> Ks \<Longrightarrow> \<exists>s'. write_all E ops kvs s = Some s' \<and>
    (\<forall>k\<in>Ks. storage_view E view s' k = (case map_of kvs k of Some v \<Rightarrow> Some v | None \<Rightarrow> storage_view E view s k))"
proof (induct kvs arbitrary: s)
  case Nil
  then show ?case by simp
next
  case (Cons kv kvs)
  obtain k v where kv: "kv = (k, v)" by (cases kv)
  have k: "k \<in> Ks" "map_of kvs k = None" using Cons.prems by (auto simp: kv map_of_eq_None_iff)
  obtain s1 gas n where s1: "storage_write E ops s k v = Ok (s1, gas, n)"
    "\<forall>k'\<in>Ks. storage_view E view s1 k' = (if k' = k then Some v else storage_view E view s k')"
    using storage_write_view [OF apart k(1) good] by blast
  obtain s2 where s2: "write_all E ops kvs s1 = Some s2"
    "\<forall>k\<in>Ks. storage_view E view s2 k = (case map_of kvs k of Some v \<Rightarrow> Some v | None \<Rightarrow> storage_view E view s1 k)"
    using Cons.hyps [of s1] Cons.prems by (auto simp: kv)
  show ?case
    using s1 s2 k by (auto simp: kv split: option.splits)
qed

lemma read_parameter_view:
  assumes "leaves_apart E Ks" "k \<in> Ks" "good k" "storage_view E view s k = Some bytes" "dec bytes = Some x"
  shows "\<exists>gas. read_parameter E ops s dec k = Ok (x, gas)"
  using assms(4,5) by (simp add: read_parameter_def storage_read_view [OF assms(1-3)] value_gas_def ok_or_def)

lemma params_init_read:
  assumes apart: "leaves_apart E Ks" and good: "\<forall>k\<in>Ks. good k" and Ks: "params_keys_set \<subseteq> Ks" and laws: "params_laws P"
  shows "\<exists>s' gas. params_init_storage E ops P pp s = Some s' \<and> params_read E ops P s' = Ok (pp, gas)"
proof -
  let ?kvs = "[(get_epoch_storage_key, enc_epoch_duration P (pp_epoch_duration pp)),
    (get_vp_whitelist_storage_key, enc_strings P (pp_vp_whitelist pp)),
    (get_tx_whitelist_storage_key, enc_strings P (pp_tx_whitelist pp)),
    (get_max_expected_time_per_block_key, enc_duration P (pp_max_expected_time_per_block pp))]"
  have keys: "distinct (map fst ?kvs)" by (simp add: params_key_defs params_keys)
  have sub: "fst ` set ?kvs \<subseteq> Ks" using Ks by (simp add: params_keys_set_def)
  obtain s' where s': "write_all E ops ?kvs s = Some s'"
    "\<forall>k\<in>Ks. storage_view E view s' k = (case map_of ?kvs k of Some v \<Rightarrow> Some v | None \<Rightarrow> storage_view E view s k)"
    using write_all_view [OF apart good keys sub] by blast
  have "storage_view E view s' k = Some v" if "(k, v) \<in> set ?kvs" for k v
    using s'(2) sub that map_of_is_SomeI [OF keys that] by force
  then have view: "storage_view E view s' get_epoch_storage_key = Some (enc_epoch_duration P (pp_epoch_duration pp))"
    "storage_view E view s' get_vp_whitelist_storage_key = Some (enc_strings P (pp_vp_whitelist pp))"
    "storage_view E view s' get_tx_whitelist_storage_key = Some (enc_strings P (pp_tx_whitelist pp))"
    "storage_view E view s' get_max_expected_time_per_block_key = Some (enc_duration P (pp_max_expected_time_per_block pp))"
    by simp_all
  note read = read_parameter_view [OF apart _ _ _ ]
  have ks: "get_epoch_storage_key \<in> Ks" "get_vp_whitelist_storage_key \<in> Ks" "get_tx_whitelist_storage_key \<in> Ks"
    "get_max_expected_time_per_block_key \<in> Ks" using Ks by (simp_all add: params_keys_set_def)
  obtain g1 g2 g3 g4 where "read_epoch_parameter E ops P s' = Ok (pp_epoch_duration pp, g1)"
    "read_parameter E ops s' (dec_strings P) get_vp_whitelist_storage_key = Ok (pp_vp_whitelist pp, g2)"
    "read_parameter E ops s' (dec_strings P) get_tx_whitelist_storage_key = Ok (pp_tx_whitelist pp, g3)"
    "read_parameter E ops s' (dec_duration P) get_max_expected_time_per_block_key = Ok (pp_max_expected_time_per_block pp, g4)"
    using read [OF ks(1) _ view(1)] read [OF ks(2) _ view(2)] read [OF ks(3) _ view(3)] read [OF ks(4) _ view(4)]
      good ks laws by (metis params_laws_def read_epoch_parameter_def)
  then show ?thesis
    using s'(1) by (simp add: params_init_storage_def params_read_def)
qed

end

section \<open>What the validity predicate accepts\<close>

text \<open>
  Claim C34. Over keys with at least one segment the validity predicate of the parameters does not panic. It accepts
  exactly when no key below the address of the parameters is changed, or when only the four keys of the protocol
  parameters are, by a transaction whose data is the id of an accepted proposal; other keys do not matter.
\<close>

theorem params_validate_tx_iff:
  assumes "\<forall>k\<in>set ks. segments k \<noteq> []"
  shows "params_validate_tx P accepted tx_data ks =
    Some (\<forall>k\<in>set ks. hd (segments k) = AddressSeg (Internal Parameters) \<longrightarrow>
      k \<in> params_keys_set \<and> (\<exists>id. dec_u64 P tx_data = Some id \<and> accepted id))"
  using assms
proof (induct ks)
  case (Cons k ks)
  have "is_parameter_key k = Some (hd (segments k) = AddressSeg (Internal Parameters))"
    using Cons.prems by (cases "segments k") (auto simp: is_parameter_key_def PARAMETERS_ADDRESS_def vec_get_def)
  moreover have mem: "is_protocol_parameter_key k \<longleftrightarrow> k \<in> params_keys_set"
    by (cases k) (auto simp: is_protocol_parameter_key_def is_epoch_storage_key_def is_max_expected_time_per_block_key_def
        is_tx_whitelist_key_def is_vp_whitelist_key_def params_keys_set_def params_key_defs)
  moreover have "k \<in> params_keys_set \<Longrightarrow> hd (segments k) = AddressSeg (Internal Parameters)"
    by (auto simp: params_keys_set_def params_key_defs params_keys)
  ultimately show ?case
    using Cons by (auto simp: params_key_type_def split: option.splits)
qed simp

section \<open>Epoch changes\<close>

lemma key_string_field:
  assumes "bech32_laws lib"
  shows "key_string lib (Key [AddressSeg a, StringSeg s]) \<noteq> []"
proof -
  obtain e where "bech32_encode lib ADDRESS_HRP (to_base32 lib (to_fixed_len_string a)) Bech32m = Ok e"
    using assms unfolding bech32_laws_def by blast
  then show ?thesis
    by (simp add: address_encode_def key_string_def key_to_string_def db_key_seg_raw_def)
qed

lemma tree_update_field_Ok:
  assumes "bech32_laws (ne_bech32 E)" "smt_laws (ne_smt E)" "f \<in> {''epoch_start_height'', ''epoch_start_time'', ''current_epoch''}"
  shows "\<exists>t'. tree_update_field E t (f, v) = Ok t'"
proof -
  let ?k = "Key [AddressSeg (Internal PoS), StringSeg f]"
  have push: "key_push (ne_bech32 E) (key_from_seg (AddressSeg (Internal PoS))) f = Ok ?k"
    using assms(3) by (auto simp: key_push_def db_key_seg_parse_def key_constants key_from_seg_def)
  have "mt_slot (ne_bech32 E) (ne_smt E) ?k \<noteq> None"
    using key_string_field [OF assms(1)] by (simp add: mt_slot_def store_type_sub_key_def sub_key_def)
  from mt_update_has_key [OF assms(2) this this, of t v] show ?thesis
    by (auto simp: tree_update_field_def push)
qed

lemma update_epoch_in_merkle_tree_Ok:
  assumes "bech32_laws (ne_bech32 E)" "smt_laws (ne_smt E)"
  shows "\<exists>s'. update_epoch_in_merkle_tree E s = Ok s' \<and> epoch_part s' = epoch_part s"
proof -
  note field = tree_update_field_Ok [OF assms]
  obtain t1 where t1: "tree_update_field E (bl_tree (st_block s))
      (''epoch_start_height'', enc_height (ne_borsh E) (st_next_epoch_min_start_height s)) = Ok t1"
    using field by blast
  obtain t2 where t2: "tree_update_field E t1
      (''epoch_start_time'', enc_time (ne_borsh E) (st_next_epoch_min_start_time s)) = Ok t2"
    using field by blast
  obtain t3 where "tree_update_field E t2 (''current_epoch'', enc_epoch (ne_borsh E) (bl_epoch (st_block s))) = Ok t3"
    using field by blast
  with t1 t2 show ?thesis
    by (simp add: update_epoch_in_merkle_tree_def epoch_part_def set_tree_def)
qed

lemma update_epoch_spec:
  assumes "bech32_laws (ne_bech32 E)" "smt_laws (ne_smt E)" "params_read E ops P s = Ok (pp, gas)"
    and "time_add P time (min_duration (pp_epoch_duration pp)) = Some start_time"
  shows "\<exists>s'. update_epoch E ops P s height time =
      Ok (s', st_next_epoch_min_start_height s \<le> height \<and> time_le P (st_next_epoch_min_start_time s) time) \<and>
    epoch_part s' =
      (if st_next_epoch_min_start_height s \<le> height \<and> time_le P (st_next_epoch_min_start_time s) time
       then (bl_epoch (st_block s) + 1, new_epoch (bl_pred_epochs (st_block s)) height EVIDENCE_MAX_AGE_NUM_BLOCKS,
             st_last_epoch s + 1, height + min_num_of_blocks (pp_epoch_duration pp), start_time)
       else epoch_part s)"
proof (cases "st_next_epoch_min_start_height s \<le> height \<and> time_le P (st_next_epoch_min_start_time s) time")
  case True
  let ?s = "begin_epoch s height start_time (min_num_of_blocks (pp_epoch_duration pp))"
  obtain s' where "update_epoch_in_merkle_tree E ?s = Ok s'" "epoch_part s' = epoch_part ?s"
    using update_epoch_in_merkle_tree_Ok [OF assms(1,2), of ?s] by blast
  then show ?thesis
    using True assms(3,4) by (simp add: update_epoch_def unwrap_def epoch_part_def begin_epoch_def)
next
  case False
  obtain s' where "update_epoch_in_merkle_tree E s = Ok s'" "epoch_part s' = epoch_part s"
    using update_epoch_in_merkle_tree_Ok [OF assms(1,2), of s] by blast
  then show ?thesis
    using False assms(3) by (auto simp: update_epoch_def)
qed

text \<open>
  Claim C31. Once the parameters are written to the storage, an epoch lasts for the parameters: the update at a
  block begins a new epoch exactly when both the height and the time have reached the minimum. Then the
  epoch of the block and the last epoch advance by one, the next epoch may begin after the minimum number of
  blocks and the minimum duration in the parameters, and the height belongs to the next epoch in the
  record of epochs, while earlier heights of the last 100000 blocks keep theirs. Otherwise nothing of this changes.
\<close>

theorem update_epoch_correct:
  assumes "leaves_apart E params_keys_set" "\<forall>k\<in>params_keys_set. rocks_good (ne_bech32 E) K k" "params_laws P"
    and "time_add P time (min_duration (pp_epoch_duration pp)) = Some start_time"
    and "epochs_ok (bl_pred_epochs (st_block s))" "last (first_block_heights (bl_pred_epochs (st_block s))) < height"
    and "unat height + 1 < 2 ^ 64"
  shows "\<exists>s1 s2. params_init_storage E (rocks_ops E K) P pp s = Some s1 \<and>
    update_epoch E (rocks_ops E K) P s1 height time =
      Ok (s2, st_next_epoch_min_start_height s \<le> height \<and> time_le P (st_next_epoch_min_start_time s) time) \<and>
    (if st_next_epoch_min_start_height s \<le> height \<and> time_le P (st_next_epoch_min_start_time s) time
     then bl_epoch (st_block s2) = bl_epoch (st_block s) + 1 \<and> st_last_epoch s2 = st_last_epoch s + 1 \<and>
       st_next_epoch_min_start_height s2 = height + min_num_of_blocks (pp_epoch_duration pp) \<and>
       st_next_epoch_min_start_time s2 = start_time \<and>
       get_epoch (bl_pred_epochs (st_block s2)) height = map_option (\<lambda>e. e + 1) (get_epoch (bl_pred_epochs (st_block s)) height) \<and>
       (\<forall>b<height. unat height < unat b + unat EVIDENCE_MAX_AGE_NUM_BLOCKS \<longrightarrow>
          get_epoch (bl_pred_epochs (st_block s2)) b = get_epoch (bl_pred_epochs (st_block s)) b)
     else epoch_part s2 = epoch_part s)"
proof -
  have laws: "bech32_laws (ne_bech32 E)" "smt_laws (ne_smt E)"
    using assms(1,2) by (auto simp: rocks_good_def good_key_def params_keys_set_def leaves_apart_def)
  obtain s1 gas where s1: "params_init_storage E (rocks_ops E K) P pp s = Some s1"
    "params_read E (rocks_ops E K) P s1 = Ok (pp, gas)"
    using rocks.params_init_read [OF assms(1,2) order_refl assms(3)] by blast
  have part: "epoch_part s1 = epoch_part s"
    using s1(1) unfolding params_init_storage_def by (rule write_all_epoch_part)
  note new = new_epoch_spec [OF assms(5-7), of EVIDENCE_MAX_AGE_NUM_BLOCKS]
  let ?new = "st_next_epoch_min_start_height s \<le> height \<and> time_le P (st_next_epoch_min_start_time s) time"
  have same: "st_next_epoch_min_start_height s1 = st_next_epoch_min_start_height s"
    "st_next_epoch_min_start_time s1 = st_next_epoch_min_start_time s" "bl_epoch (st_block s1) = bl_epoch (st_block s)"
    "bl_pred_epochs (st_block s1) = bl_pred_epochs (st_block s)" "st_last_epoch s1 = st_last_epoch s"
    using part by (simp_all add: epoch_part_def)
  obtain s2 where s2: "update_epoch E (rocks_ops E K) P s1 height time = Ok (s2, ?new)"
    "epoch_part s2 =
      (if ?new then (bl_epoch (st_block s) + 1, new_epoch (bl_pred_epochs (st_block s)) height EVIDENCE_MAX_AGE_NUM_BLOCKS,
             st_last_epoch s + 1, height + min_num_of_blocks (pp_epoch_duration pp), start_time)
       else epoch_part s)"
    using update_epoch_spec [OF laws s1(2) assms(4), of height] unfolding same part by blast
  show ?thesis
  proof (cases ?new)
    case True
    have parts: "bl_epoch (st_block s2) = bl_epoch (st_block s) + 1" "st_last_epoch s2 = st_last_epoch s + 1"
      "bl_pred_epochs (st_block s2) = new_epoch (bl_pred_epochs (st_block s)) height EVIDENCE_MAX_AGE_NUM_BLOCKS"
      "st_next_epoch_min_start_height s2 = height + min_num_of_blocks (pp_epoch_duration pp)"
      "st_next_epoch_min_start_time s2 = start_time"
      using s2(2) True unfolding epoch_part_def by simp_all
    have "get_epoch (bl_pred_epochs (st_block s2)) b = get_epoch (bl_pred_epochs (st_block s)) b"
      if "b < height" "unat height < unat b + unat EVIDENCE_MAX_AGE_NUM_BLOCKS" for b
      using new that unfolding parts by (meson leD)
    with True s1(1) s2(1) new show ?thesis
      unfolding parts(3) by - (rule exI [of _ s1], rule exI [of _ s2], simp add: parts)
  next
    case False
    with s1(1) s2 show ?thesis by - (rule exI [of _ s1], rule exI [of _ s2], auto)
  qed
qed


text \<open>An instance of the encodings and the clock, and the keys of the parameters in the example node.\<close>

instance epoch_duration_ext :: (countable) countable
proof (rule countable_classI)
  fix x y :: "'a epoch_duration_ext"
  show "to_nat (unat (min_num_of_blocks x), unat (min_duration x), epoch_duration.more x) =
    to_nat (unat (min_num_of_blocks y), unat (min_duration y), epoch_duration.more y) \<Longrightarrow> x = y"
    by (cases x, cases y) (simp add: word_unat_eq_iff)
qed

definition example_params :: "nat params_lib" where
  "example_params =
     \<lparr> enc_epoch_duration = enc_any, dec_epoch_duration = dec_any, enc_strings = enc_any, dec_strings = dec_any,
       enc_duration = (\<lambda>d. enc_any (unat d)), dec_duration = (\<lambda>s. map_option of_nat (dec_any s)),
       dec_u64 = (\<lambda>s. map_option of_nat (dec_any s)), time_add = (\<lambda>t d. Some (t + unat d)), time_le = (\<le>) \<rparr>"

lemma example_params_laws: "params_laws example_params"
  by (simp add: params_laws_def example_params_def)

theorem params_validate_tx_iff_witness:
  "params_validate_tx example_params (\<lambda>id. id = 3) (enc_any (3 :: nat)) [get_epoch_storage_key, key_x] = Some True \<and>
   params_validate_tx example_params (\<lambda>id. id = 3) (enc_any (3 :: nat))
     [Key [AddressSeg (Internal Parameters), StringSeg ''x'']] = Some False"
  using params_validate_tx_iff [of "[get_epoch_storage_key, key_x]" example_params "\<lambda>id. id = 3" "enc_any (3 :: nat)"]
    params_validate_tx_iff [of "[Key [AddressSeg (Internal Parameters), StringSeg ''x'']]" example_params
      "\<lambda>id. id = 3" "enc_any (3 :: nat)"]
  by (simp add: example_params_def params_keys_set_def params_key_defs params_keys)

lemma example_digit_ascii: "(64 + unat (w :: 5 word)) mod 256 < 128"
  using unat_5_bound [of w] by simp

lemma example_address_ascii:
  assumes "address_encode example_bech32 a = Some e" "c \<in> set e"
  shows "byte c < 128"
  using assms by (auto simp: address_encode_def example_bech32_def example_digit_ascii)

lemma example_param_key:
  "\<exists>e. key_string example_bech32 (Key [AddressSeg (Internal Parameters), StringSeg s]) = CHR ''#'' # e @ CHR ''/'' # s \<and>
     (\<forall>c\<in>set e. byte c < 128)"
  using example_address_ascii [of "Internal Parameters"]
  by (auto simp: key_string_def key_to_string_def db_key_seg_raw_def address_encode_def example_bech32_def str_join_Cons
      key_constants)

lemma example_params_wf: "k \<in> params_keys_set \<Longrightarrow> key_wf k"
  by (auto simp: params_keys_set_def params_key_defs params_keys key_wf_def key_constants)

lemma example_params_utf8: "k \<in> params_keys_set \<Longrightarrow> is_utf8 (key_string example_bech32 k)"
proof -
  assume "k \<in> params_keys_set"
  then obtain s where k: "k = Key [AddressSeg (Internal Parameters), StringSeg s]" "is_utf8 s"
    by (auto simp: params_keys_set_def params_key_defs params_keys)
  obtain e where "key_string example_bech32 k = CHR ''#'' # e @ CHR ''/'' # s" "\<forall>c\<in>set e. byte c < 128"
    using example_param_key k(1) by blast
  with k(2) show ?thesis by (simp add: is_utf8_append_ascii)
qed

lemma example_params_good: "\<forall>k\<in>params_keys_set. rocks_good (ne_bech32 example_env) example_kv k"
  by (simp add: rocks_good_def good_key_def example_kv_laws example_bech32_laws example_params_wf example_params_utf8)

lemma example_params_leaf:
  "k \<in> params_keys_set \<Longrightarrow> leaf example_env k = Some (AccountStore, Some (key_string example_bech32 k))"
  by (auto simp: key_string_field [OF example_bech32_laws] leaf_def mt_slot_def store_type_sub_key_def sub_key_def example_env_def example_smt_def
      params_keys_set_def params_key_defs params_keys)

lemma example_params_apart: "leaves_apart example_env params_keys_set"
proof -
  have "inj_on (leaf example_env) params_keys_set"
    by (rule inj_onI) (simp add: example_params_leaf key_string_inject [OF example_bech32_laws example_params_wf example_params_wf])
  moreover have "None \<notin> leaf example_env ` params_keys_set"
    by (auto simp: example_params_leaf)
  ultimately show ?thesis
    by (simp add: leaves_apart_def example_env_def example_smt_laws)
qed

theorem update_epoch_correct_witness:
  "\<exists>s1 s2. params_init_storage example_env (rocks_ops example_env example_kv) example_params
       \<lparr> pp_epoch_duration = \<lparr> min_num_of_blocks = 10, min_duration = 30 \<rparr>, pp_max_expected_time_per_block = 5,
         pp_vp_whitelist = [''vp''], pp_tx_whitelist = [] \<rparr>
       (storage_open (example_env :: (_, _, _, _, _, nat) node_env) [] ''chain'' 0) = Some s1 \<and>
     update_epoch example_env (rocks_ops example_env example_kv) example_params s1 7 100 = Ok (s2, True) \<and>
     bl_epoch (st_block s2) = 1 \<and> st_next_epoch_min_start_height s2 = 17 \<and> st_next_epoch_min_start_time s2 = 130"
proof -
  let ?E = "example_env :: (_, _, _, _, nat, nat) node_env"
  let ?pp = "\<lparr> pp_epoch_duration = \<lparr> min_num_of_blocks = 10, min_duration = 30 \<rparr>, pp_max_expected_time_per_block = 5,
     pp_vp_whitelist = [''vp''], pp_tx_whitelist = [] \<rparr>"
  let ?s = "storage_open ?E [] ''chain'' 0"
  have time: "time_add example_params 100 (min_duration (pp_epoch_duration ?pp)) = Some 130"
    by (simp add: example_params_def)
  have epochs: "epochs_ok (bl_pred_epochs (st_block ?s))"
    "last (first_block_heights (bl_pred_epochs (st_block ?s))) < 7" "unat (7 :: u64) + 1 < 2 ^ 64"
    by (simp_all add: storage_open_def epochs_default_def epochs_ok_def)
  from update_epoch_correct [OF example_params_apart example_params_good example_params_laws time epochs]
  show ?thesis
    by (simp add: storage_open_def example_params_def) blast
qed

end
