(* ===== verification/Token.thy ===== *)
theory Token
  imports Storage
begin

text \<open>
  Token amounts and the keys of balances, \<^verbatim>\<open>shared/src/types/token.rs\<close>. An amount is its number of micro
  units; the decimal and floating-point conversions belong to external crates and are left out.
\<close>

type_synonym amount = u64
type_synonym token_change = "128 word"

definition SCALE :: u64 where "SCALE = 1000000"
definition BALANCE_STORAGE_KEY :: string where "BALANCE_STORAGE_KEY = ''balance''"

definition amount_change :: "amount \<Rightarrow> token_change" where
  "amount_change a = ucast a"

definition amount_spend :: "amount \<Rightarrow> amount \<Rightarrow> amount option" where
  "amount_spend self a = checked_sub self a"

definition amount_receive :: "amount \<Rightarrow> amount \<Rightarrow> amount option" where
  "amount_receive self a = checked_add self a"

definition amount_whole :: "u64 \<Rightarrow> amount" where
  "amount_whole a = a * SCALE"

definition amount_from_change :: "token_change \<Rightarrow> amount" where
  "amount_from_change c = ucast c"

text \<open>\<^verbatim>\<open>balance_key\<close> and \<^verbatim>\<open>balance_prefix\<close>; \<^const>\<open>None\<close> is the panic of an expectation.\<close>

fun expect_ok :: "('a, 'e) outcome \<Rightarrow> 'a option" where
  "expect_ok (Ok x) = Some x"
| "expect_ok _ = None"

definition balance_prefix :: "'e bech32_lib \<Rightarrow> address \<Rightarrow> key option" where
  "balance_prefix lib token_addr =
     expect_ok (key_push lib (key_from_seg (AddressSeg token_addr)) BALANCE_STORAGE_KEY)"

definition balance_key :: "'e bech32_lib \<Rightarrow> address \<Rightarrow> address \<Rightarrow> key option" where
  "balance_key lib token_addr owner =
     Option.bind (expect_ok (key_push lib (key_from_seg (AddressSeg token_addr)) BALANCE_STORAGE_KEY)) (\<lambda>k.
     Option.bind (db_key_seg_raw lib (AddressSeg owner)) (\<lambda>raw. expect_ok (key_push lib k raw)))"

fun is_balance_key :: "address \<Rightarrow> key \<Rightarrow> address option" where
  "is_balance_key token_addr (Key [AddressSeg addr, StringSeg k, AddressSeg owner]) =
     (if k = BALANCE_STORAGE_KEY \<and> addr = token_addr then Some owner else None)"
| "is_balance_key token_addr _ = None"

fun is_any_token_balance_key :: "key \<Rightarrow> address option" where
  "is_any_token_balance_key (Key [AddressSeg _, StringSeg k, AddressSeg owner]) =
     (if k = BALANCE_STORAGE_KEY then Some owner else None)"
| "is_any_token_balance_key _ = None"

fun is_ibc_token_address :: "address \<Rightarrow> bool" where
  "is_ibc_token_address (Internal (IbcEscrow _)) = True"
| "is_ibc_token_address (Internal IbcBurn) = True"
| "is_ibc_token_address (Internal IbcMint) = True"
| "is_ibc_token_address _ = False"

fun is_non_owner_balance_key :: "key \<Rightarrow> address option" where
  "is_non_owner_balance_key (Key [AddressSeg _, StringSeg k, AddressSeg owner]) =
     (if k = BALANCE_STORAGE_KEY \<and> is_ibc_token_address owner then Some owner else None)"
| "is_non_owner_balance_key _ = None"

record transfer =
  tr_source :: address
  tr_target :: address
  tr_token :: address
  tr_amount :: amount

text \<open>The conversion from a change truncates: a negative change becomes a large amount.\<close>

lemma amount_from_change_negative: "amount_from_change (- 1) = 18446744073709551615"
  by code_simp

end
