(* ===== verification/Tx_Types.thy ===== *)
theory Tx_Types
  imports Token
begin

text \<open>
  The types of transactions: \<^verbatim>\<open>shared/src/proto/types.rs\<close> and \<^verbatim>\<open>shared/src/types/transaction\<close>. A user signs a
  wrapper with an encrypted transaction and a hash that commits to it; once the wrapper is in a block, the
  validators put the decrypted transaction into the next one. Public keys, signatures, ciphertexts and
  the messages of the key generation are their encodings.
\<close>

section \<open>Data\<close>

record 'time tx =
  tx_code :: string
  tx_data :: "string option"
  tx_timestamp :: 'time

record signed_tx_data =
  sd_data :: "string option"
  sd_sig :: string

record fee =
  fee_amount :: amount
  fee_token :: address

record gas_limit =
  gl_multiplier :: u64

record wrapper_tx =
  wr_fee :: fee
  wr_pk :: string
  wr_epoch :: u64
  wr_gas_limit :: gas_limit
  wr_inner_tx :: string
  wr_tx_hash :: string

datatype 'time decrypted_tx = Decrypted "'time tx" | Undecryptable wrapper_tx

datatype 'time protocol_tx_type = DKG string | NewDkgKeypair "'time tx" | EthereumStateUpdate "'time tx"

record 'time protocol_tx =
  ptx_pk :: string
  ptx_tx :: "'time protocol_tx_type"

datatype 'time tx_type =
  Raw "'time tx" | Wrapper wrapper_tx | DecryptedTx "'time decrypted_tx" | Protocol "'time protocol_tx"

datatype tx_error = Unsigned string | SigError | Deserialization

datatype wrapper_tx_err = DecryptedHash | InvalidTx | InvalidWrapperTx | InvalidKeyPair

datatype proto_error = TxDecodingError | NoTimestampError | InvalidTimestamp

text \<open>
  The message that the protobuf compiler generates for a transaction, with a timestamp of seconds and
  nanoseconds, and the functions of external crates: protobuf, Borsh, SHA-256, signatures and threshold
  decryption, and the conversions of timestamps.
\<close>

record proto_tx =
  pb_code :: string
  pb_data :: "string option"
  pb_timestamp :: "(int \<times> int) option"

record 'time tx_lib =
  proto_decode :: "string \<Rightarrow> proto_tx option"
  proto_encode :: "proto_tx \<Rightarrow> string"
  timestamp_into :: "int \<times> int \<Rightarrow> 'time option"
  timestamp_from :: "'time \<Rightarrow> int \<times> int"
  sha256 :: "string \<Rightarrow> string"
  dec_signed :: "string \<Rightarrow> signed_tx_data option"
  enc_signed :: "signed_tx_data \<Rightarrow> string"
  dec_tx_type :: "string \<Rightarrow> 'time tx_type option"
  enc_tx_type :: "'time tx_type \<Rightarrow> string"
  sig_sign :: "string \<Rightarrow> string \<Rightarrow> string"
  sig_verify :: "string \<Rightarrow> string \<Rightarrow> string \<Rightarrow> bool"
  sk_ref_to :: "string \<Rightarrow> string"
  pk_hash :: "string \<Rightarrow> string"
  tpke_decrypt :: "string \<Rightarrow> string"
  tpke_check :: "string \<Rightarrow> bool"
  tpke_encrypt :: "string \<Rightarrow> string \<Rightarrow> string"

text \<open>
  What the shell relies on. By the Borsh encoding a value of \<^verbatim>\<open>TxType::Decrypted\<close> starts with the byte 2 of
  its variant, which no option starts with, and so is never an encoded \<^verbatim>\<open>SignedTxData\<close>. The hash of a public
  key has 40 hexadecimal digits.
\<close>

definition tx_laws :: "'time tx_lib \<Rightarrow> bool" where
  "tx_laws L \<longleftrightarrow>
     (\<forall>t. proto_decode L (proto_encode L t) = Some t) \<and>
     (\<forall>t. timestamp_into L (timestamp_from L t) = Some t) \<and>
     (\<forall>t. dec_tx_type L (enc_tx_type L t) = Some t) \<and>
     (\<forall>d. dec_signed L (enc_tx_type L (DecryptedTx d)) = None) \<and>
     (\<forall>pk. length (pk_hash L pk) = HASH_LEN \<and> is_utf8 (pk_hash L pk))"

section \<open>Transactions\<close>

definition hash_tx :: "'time tx_lib \<Rightarrow> string \<Rightarrow> string" where
  "hash_tx L bytes = sha256 L bytes"

definition tx_try_from :: "'time tx_lib \<Rightarrow> string \<Rightarrow> ('time tx, proto_error) outcome" where
  "tx_try_from L bytes =
     outcome_bind (ok_or (proto_decode L bytes) TxDecodingError) (\<lambda>t.
     outcome_bind
       (case pb_timestamp t of
          Some ts \<Rightarrow> ok_or (timestamp_into L ts) InvalidTimestamp
        | None \<Rightarrow> Err NoTimestampError) (\<lambda>timestamp.
       Ok \<lparr> tx_code = pb_code t, tx_data = pb_data t, tx_timestamp = timestamp \<rparr>))"

definition tx_into_proto :: "'time tx_lib \<Rightarrow> 'time tx \<Rightarrow> proto_tx" where
  "tx_into_proto L t =
     \<lparr> pb_code = tx_code t, pb_data = tx_data t, pb_timestamp = Some (timestamp_from L (tx_timestamp t)) \<rparr>"

definition tx_new :: "'time \<Rightarrow> string \<Rightarrow> string option \<Rightarrow> 'time tx" where
  "tx_new now code data = \<lparr> tx_code = code, tx_data = data, tx_timestamp = now \<rparr>"

definition tx_to_bytes :: "'time tx_lib \<Rightarrow> 'time tx \<Rightarrow> string" where
  "tx_to_bytes L t = proto_encode L (tx_into_proto L t)"

definition tx_hash :: "'time tx_lib \<Rightarrow> 'time tx \<Rightarrow> string" where
  "tx_hash L t = hash_tx L (tx_to_bytes L t)"

definition tx_code_hash :: "'time tx_lib \<Rightarrow> 'time tx \<Rightarrow> string" where
  "tx_code_hash L t = hash_tx L (tx_code t)"

definition tx_sign :: "'time tx_lib \<Rightarrow> 'time tx \<Rightarrow> string \<Rightarrow> 'time tx" where
  "tx_sign L t keypair =
     (let signed = enc_signed L \<lparr> sd_data = tx_data t, sd_sig = sig_sign L keypair (tx_hash L t) \<rparr>
      in t\<lparr> tx_data := Some signed \<rparr>)"

definition tx_verify_sig :: "'time tx_lib \<Rightarrow> 'time tx \<Rightarrow> string \<Rightarrow> string \<Rightarrow> (bool, unit) outcome" where
  "tx_verify_sig L t pk sig =
     (case tx_data t of
        None \<Rightarrow> Err ()
      | Some data \<Rightarrow>
          outcome_bind (unwrap (dec_signed L data)) (\<lambda>signed.
            Ok (sig_verify L pk (tx_hash L (t\<lparr> tx_data := sd_data signed \<rparr>)) sig)))"

section \<open>Gas limits\<close>

definition GAS_LIMIT_RESOLUTION :: u64 where "GAS_LIMIT_RESOLUTION = 1000000"

definition gas_limit_from :: "u64 \<Rightarrow> gas_limit" where
  "gas_limit_from a =
     (if GAS_LIMIT_RESOLUTION * (a div GAS_LIMIT_RESOLUTION) < a
      then \<lparr> gl_multiplier = a div GAS_LIMIT_RESOLUTION + 1 \<rparr>
      else \<lparr> gl_multiplier = a div GAS_LIMIT_RESOLUTION \<rparr>)"

definition gas_limit_into :: "gas_limit \<Rightarrow> u64" where
  "gas_limit_into l = gl_multiplier l * GAS_LIMIT_RESOLUTION"

definition refund_amount :: "gas_limit \<Rightarrow> u64 \<Rightarrow> amount" where
  "refund_amount l used_gas =
     (if used_gas < gas_limit_into l - GAS_LIMIT_RESOLUTION then GAS_LIMIT_RESOLUTION
      else if gas_limit_into l \<le> used_gas then 0
      else gas_limit_into l - used_gas)"

text \<open>A gas limit of zero wraps around: the whole resolution is refunded.\<close>

lemma refund_zero_limit: "refund_amount \<lparr> gl_multiplier = 0 \<rparr> 0 = GAS_LIMIT_RESOLUTION"
  by code_simp

section \<open>Wrappers and decrypted transactions\<close>

definition wrapper_new ::
  "'time tx_lib \<Rightarrow> fee \<Rightarrow> string \<Rightarrow> u64 \<Rightarrow> gas_limit \<Rightarrow> 'time tx \<Rightarrow> string \<Rightarrow> wrapper_tx" where
  "wrapper_new L fee keypair epoch limit t encryption_key =
     \<lparr> wr_fee = fee, wr_pk = sk_ref_to L keypair, wr_epoch = epoch, wr_gas_limit = limit,
       wr_inner_tx = tpke_encrypt L encryption_key (tx_to_bytes L t), wr_tx_hash = hash_tx L (tx_to_bytes L t) \<rparr>"

definition fee_payer :: "'time tx_lib \<Rightarrow> wrapper_tx \<Rightarrow> address" where
  "fee_payer L w = Implicit (pk_hash L (wr_pk w))"

definition validate_ciphertext :: "'time tx_lib \<Rightarrow> wrapper_tx \<Rightarrow> bool" where
  "validate_ciphertext L w = tpke_check L (wr_inner_tx w)"

definition wrapper_decrypt :: "'time tx_lib \<Rightarrow> wrapper_tx \<Rightarrow> ('time tx, wrapper_tx_err) outcome" where
  "wrapper_decrypt L w =
     (let decrypted = tpke_decrypt L (wr_inner_tx w)
      in if hash_tx L decrypted \<noteq> wr_tx_hash w then Err DecryptedHash
         else map_err (\<lambda>_. InvalidTx) (tx_try_from L decrypted))"

definition wrapper_sign ::
  "'time tx_lib \<Rightarrow> 'time \<Rightarrow> wrapper_tx \<Rightarrow> string \<Rightarrow> ('time tx, wrapper_tx_err) outcome" where
  "wrapper_sign L now w keypair =
     (if wr_pk w \<noteq> sk_ref_to L keypair then Err InvalidKeyPair
      else Ok (tx_sign L (tx_new now [] (Some (enc_tx_type L (Wrapper w)))) keypair))"

definition wrapper_validate_sig :: "'time tx_lib \<Rightarrow> wrapper_tx \<Rightarrow> string \<Rightarrow> string \<Rightarrow> (unit, tx_error) outcome" where
  "wrapper_validate_sig L w signed_hash sig = (if sig_verify L (wr_pk w) signed_hash sig then Ok () else Err SigError)"

definition protocol_validate_sig ::
  "'time tx_lib \<Rightarrow> 'time protocol_tx \<Rightarrow> string \<Rightarrow> string \<Rightarrow> (unit, tx_error) outcome" where
  "protocol_validate_sig L p signed_hash sig = (if sig_verify L (ptx_pk p) signed_hash sig then Ok () else Err SigError)"

definition hash_commitment :: "'time tx_lib \<Rightarrow> 'time decrypted_tx \<Rightarrow> string" where
  "hash_commitment L d =
     (case d of Decrypted t \<Rightarrow> hash_tx L (tx_to_bytes L t) | Undecryptable w \<Rightarrow> wr_tx_hash w)"

definition verify_decrypted_correctly :: "'time tx_lib \<Rightarrow> 'time decrypted_tx \<Rightarrow> bool" where
  "verify_decrypted_correctly L d =
     (case d of Decrypted _ \<Rightarrow> True
      | Undecryptable w \<Rightarrow> (case wrapper_decrypt L w of Err _ \<Rightarrow> True | _ \<Rightarrow> False))"

definition decrypted_into_tx :: "'time tx_lib \<Rightarrow> 'time \<Rightarrow> 'time decrypted_tx \<Rightarrow> 'time tx" where
  "decrypted_into_tx L now d = tx_new now [] (Some (enc_tx_type L (DecryptedTx d)))"

definition tx_type_try_from :: "'time tx_lib \<Rightarrow> 'time tx \<Rightarrow> ('time tx_type, tx_error) outcome" where
  "tx_type_try_from L t =
     (case tx_data t of
        Some data \<Rightarrow> ok_or (dec_tx_type L data) Deserialization
      | None \<Rightarrow> Ok (Raw t))"

text \<open>The signed data of a transaction, when it has some that is not empty.\<close>

definition signed_data :: "'time tx_lib \<Rightarrow> 'time tx \<Rightarrow> (string \<times> string) option" where
  "signed_data L t =
     Option.bind (tx_data t) (\<lambda>data.
     Option.bind (dec_signed L data) (\<lambda>s. map_option (\<lambda>d. (d, sd_sig s)) (sd_data s)))"

definition process_tx :: "'time tx_lib \<Rightarrow> 'time tx \<Rightarrow> ('time tx_type, tx_error) outcome" where
  "process_tx L t =
     (case signed_data L t of
        Some (data, sig) \<Rightarrow>
          (let signed_hash = tx_hash L (t\<lparr> tx_data := Some data \<rparr>)
           in outcome_bind (tx_type_try_from L (t\<lparr> tx_code := [], tx_data := Some data \<rparr>)) (\<lambda>ty.
                case ty of
                  Wrapper w \<Rightarrow> outcome_bind (wrapper_validate_sig L w signed_hash sig) (\<lambda>_. Ok (Wrapper w))
                | Protocol p \<Rightarrow> outcome_bind (protocol_validate_sig L p signed_hash sig) (\<lambda>_. Ok (Protocol p))
                | DecryptedTx d \<Rightarrow> Ok (DecryptedTx d)
                | Raw r \<Rightarrow> Ok (Raw r)))
      | None \<Rightarrow>
          outcome_bind (tx_type_try_from L t) (\<lambda>ty.
            case ty of
              Wrapper _ \<Rightarrow> Err (Unsigned ''Wrapper transactions must be signed'')
            | Protocol _ \<Rightarrow> Err (Unsigned ''Protocol transactions must be signed'')
            | val \<Rightarrow> Ok val))"

section \<open>Round trips\<close>

lemma tx_try_from_to_bytes: "tx_laws L \<Longrightarrow> tx_try_from L (tx_to_bytes L t) = Ok t"
  by (simp add: tx_laws_def tx_try_from_def tx_to_bytes_def tx_into_proto_def)

lemma process_decrypted:
  "tx_laws L \<Longrightarrow> process_tx L (decrypted_into_tx L now d) = Ok (DecryptedTx d)"
  by (simp add: tx_laws_def process_tx_def signed_data_def decrypted_into_tx_def tx_new_def tx_type_try_from_def)

text \<open>
  A payload is canonical when encoding the transaction that it decodes to gives the payload back. A
  wrapper from \<^const>\<open>wrapper_new\<close> has a canonical payload, but nothing in the ledger checks it.
\<close>

definition canonical_payload :: "'time tx_lib \<Rightarrow> wrapper_tx \<Rightarrow> bool" where
  "canonical_payload L w =
     (case wrapper_decrypt L w of
        Ok t \<Rightarrow> hash_tx L (tx_to_bytes L t) = hash_tx L (tpke_decrypt L (wr_inner_tx w))
      | _ \<Rightarrow> True)"

text \<open>What a validator puts into the block for a wrapper of the queue.\<close>

definition decrypt_wrapper :: "'time tx_lib \<Rightarrow> wrapper_tx \<Rightarrow> 'time decrypted_tx" where
  "decrypt_wrapper L w = (case wrapper_decrypt L w of Ok t \<Rightarrow> Decrypted t | _ \<Rightarrow> Undecryptable w)"

lemma tx_try_from_not_Panic [simp]: "tx_try_from L bytes \<noteq> Panic"
  by (auto simp: tx_try_from_def ok_or_def split: option.splits elim!: outcome_bind.elims)

lemma map_err_eq_Panic [simp]: "map_err f m = Panic \<longleftrightarrow> m = Panic"
  by (cases m) simp_all

lemma decrypt_wrapper_correct:
  shows "canonical_payload L w \<longleftrightarrow> hash_commitment L (decrypt_wrapper L w) = wr_tx_hash w"
    and "verify_decrypted_correctly L (decrypt_wrapper L w)"
  by (auto simp: canonical_payload_def hash_commitment_def decrypt_wrapper_def wrapper_decrypt_def Let_def
      verify_decrypted_correctly_def split: outcome.splits if_splits)

section \<open>An example of the libraries\<close>

text \<open>All the types are countable, so that the encoding of the examples of the storage serves here too.\<close>

instance tx_ext :: (countable, countable) countable
proof (rule countable_classI)
  fix x y :: "('a, 'b) tx_ext"
  show "to_nat (tx_code x, tx_data x, tx_timestamp x, tx.more x) = to_nat (tx_code y, tx_data y, tx_timestamp y, tx.more y) \<Longrightarrow> x = y"
    by simp
qed

instance internal_address :: countable
  by countable_datatype

instance address :: countable
  by countable_datatype

instance fee_ext :: (countable) countable
proof (rule countable_classI)
  fix x y :: "'a fee_ext"
  show "to_nat (fee_amount x, fee_token x, fee.more x) = to_nat (fee_amount y, fee_token y, fee.more y) \<Longrightarrow> x = y"
    by simp
qed

instance gas_limit_ext :: (countable) countable
proof (rule countable_classI)
  fix x y :: "'a gas_limit_ext"
  show "to_nat (gl_multiplier x, gas_limit.more x) = to_nat (gl_multiplier y, gas_limit.more y) \<Longrightarrow> x = y"
    by simp
qed

instance wrapper_tx_ext :: (countable) countable
proof (rule countable_classI)
  fix x y :: "'a wrapper_tx_ext"
  show "to_nat (wr_fee x, wr_pk x, wr_epoch x, wr_gas_limit x, wr_inner_tx x, wr_tx_hash x, wrapper_tx.more x) =
      to_nat (wr_fee y, wr_pk y, wr_epoch y, wr_gas_limit y, wr_inner_tx y, wr_tx_hash y, wrapper_tx.more y) \<Longrightarrow> x = y"
    by simp
qed

instance decrypted_tx :: (countable) countable
  by countable_datatype

instance protocol_tx_type :: (countable) countable
  by countable_datatype

instance protocol_tx_ext :: (countable, countable) countable
proof (rule countable_classI)
  fix x y :: "('a, 'b) protocol_tx_ext"
  show "to_nat (ptx_pk x, ptx_tx x, protocol_tx.more x) = to_nat (ptx_pk y, ptx_tx y, protocol_tx.more y) \<Longrightarrow> x = y"
    by simp
qed

instance tx_type :: (countable) countable
  by countable_datatype

instance signed_tx_data_ext :: (countable) countable
proof (rule countable_classI)
  fix x y :: "'a signed_tx_data_ext"
  show "to_nat (sd_data x, sd_sig x, signed_tx_data.more x) = to_nat (sd_data y, sd_sig y, signed_tx_data.more y) \<Longrightarrow> x = y"
    by simp
qed

instance proto_tx_ext :: (countable) countable
proof (rule countable_classI)
  fix x y :: "'a proto_tx_ext"
  show "to_nat (pb_code x, pb_data x, pb_timestamp x, proto_tx.more x) =
      to_nat (pb_code y, pb_data y, pb_timestamp y, proto_tx.more y) \<Longrightarrow> x = y"
    by simp
qed

text \<open>Encodings start with a letter for their type; encryption and hashes are the identity, signatures are empty.\<close>

definition example_tx_lib :: "nat tx_lib" where
  "example_tx_lib =
     \<lparr> proto_decode = dec_any, proto_encode = enc_any,
       timestamp_into = (\<lambda>(s, _). Some (nat s)), timestamp_from = (\<lambda>t. (int t, 0)), sha256 = id,
       dec_signed = (\<lambda>s. case s of CHR ''S'' # r \<Rightarrow> dec_any r | _ \<Rightarrow> None), enc_signed = (\<lambda>d. CHR ''S'' # enc_any d),
       dec_tx_type = (\<lambda>s. case s of CHR ''T'' # r \<Rightarrow> dec_any r | _ \<Rightarrow> None), enc_tx_type = (\<lambda>t. CHR ''T'' # enc_any t),
       sig_sign = (\<lambda>_ _. []), sig_verify = (\<lambda>_ _ _. True), sk_ref_to = id, pk_hash = (\<lambda>_. replicate 40 CHR ''A''),
       tpke_decrypt = id, tpke_check = (\<lambda>_. True), tpke_encrypt = (\<lambda>_. id) \<rparr>"

lemma example_tx_laws: "tx_laws example_tx_lib"
  by (simp add: tx_laws_def example_tx_lib_def HASH_LEN_def) (simp add: numeral_eq_Suc)

definition example_fee :: fee where
  "example_fee = \<lparr> fee_amount = 0, fee_token = Internal Governance \<rparr>"

definition example_wrapper :: wrapper_tx where
  "example_wrapper = wrapper_new example_tx_lib example_fee ''pk'' 0 (gas_limit_from 1) (tx_new 0 ''code'' None) []"

lemma example_wrapper_decrypt: "wrapper_decrypt example_tx_lib example_wrapper = Ok (tx_new 0 ''code'' None)"
proof -
  have "tpke_decrypt example_tx_lib (wr_inner_tx example_wrapper) = tx_to_bytes example_tx_lib (tx_new 0 ''code'' None)"
    by (simp add: example_wrapper_def wrapper_new_def example_tx_lib_def)
  then show ?thesis
    by (simp add: wrapper_decrypt_def tx_try_from_to_bytes [OF example_tx_laws] example_wrapper_def wrapper_new_def)
qed

lemma example_canonical: "canonical_payload example_tx_lib example_wrapper"
  by (simp add: canonical_payload_def example_wrapper_decrypt)
    (simp add: example_wrapper_def wrapper_new_def example_tx_lib_def)

end
