(* ===== verification/Protocol.thy ===== *)
theory Protocol
  imports Write_Log Tx_Types
begin

text \<open>
  The execution of a transaction and of the validity predicates that it triggers,
  \<^verbatim>\<open>apps/src/lib/node/ledger/protocol/mod.rs\<close>. The WASM runtime with the guest code that it runs, and the
  native validity predicates, are the functions of a record; the results hold for all of them. The
  predicates run in parallel: how the verifiers are split among threads is a tree that the \<^verbatim>\<open>rayon\<close> crate
  chooses.
\<close>

section \<open>Results and errors\<close>

datatype 'e protocol_error =
  ProtocolStorageError "'e db_error" | TxRunnerError string | TxTypeError | ProtocolGasError gas_error
  | VpRunnerError string | MissingAddress address | IbcNativeVpError string | PosNativeVpError string
  | PosNativeVpRuntime | ParametersNativeVpError string | IbcTokenNativeVpError string
  | GovernanceNativeVpError string | TreasuryNativeVpError string | EthBridgeNativeVpError string
  | AccessForbidden internal_address

record 'e vps_result =
  vr_accepted_vps :: "address set"
  vr_rejected_vps :: "address set"
  vr_gas_used :: vps_gas
  vr_errors :: "(address \<times> 'e protocol_error) list"

definition vps_result_default :: "'e vps_result" where
  "vps_result_default =
     \<lparr> vr_accepted_vps = {}, vr_rejected_vps = {}, vr_gas_used = vps_gas_default, vr_errors = [] \<rparr>"

record 'e tx_result =
  txr_gas_used :: u64
  txr_changed_keys :: "key set"
  txr_vps_result :: "'e vps_result"
  txr_initialized_accounts :: "address list"
  txr_ibc_event :: "ibc_event option"

definition tx_result_default :: "'e tx_result" where
  "tx_result_default =
     \<lparr> txr_gas_used = 0, txr_changed_keys = {}, txr_vps_result = vps_result_default,
       txr_initialized_accounts = [], txr_ibc_event = None \<rparr>"

definition is_accepted :: "'e tx_result \<Rightarrow> bool" where
  "is_accepted r = (vr_rejected_vps (txr_vps_result r) = {})"

section \<open>Running code\<close>

text \<open>
  A transaction changes the log and the gas meter of the block, also when it fails; a validity predicate
  changes its own gas meter.
\<close>

record ('d, 't, 'time, 'w) runner =
  run_tx :: "('d, 't, 'time, 'w) storage \<Rightarrow> write_log \<Rightarrow> block_gas_meter \<Rightarrow> string \<Rightarrow> string
    \<Rightarrow> write_log \<times> block_gas_meter \<times> (address list, string) outcome"
  run_vp :: "string \<Rightarrow> 'time tx \<Rightarrow> address \<Rightarrow> ('d, 't, 'time, 'w) storage \<Rightarrow> write_log \<Rightarrow> vp_gas_meter \<Rightarrow> key set
    \<Rightarrow> address set \<Rightarrow> vp_gas_meter \<times> (bool, string) outcome"
  run_native :: "internal_address \<Rightarrow> ('d, 't, 'time, 'w) storage \<Rightarrow> write_log \<Rightarrow> 'time tx \<Rightarrow> vp_gas_meter \<Rightarrow> string
    \<Rightarrow> key set \<Rightarrow> address set \<Rightarrow> vp_gas_meter \<times> (bool, string) outcome"

text \<open>What all the predicates of a transaction are given.\<close>

record ('d, 't, 'time, 'w) vp_context =
  cx_verifiers :: "address set"
  cx_keys_changed :: "key set"
  cx_tx :: "'time tx"
  cx_storage :: "('d, 't, 'time, 'w) storage"
  cx_write_log :: write_log
  cx_initial_gas :: u64

text \<open>A charge on the meter of a predicate: an error returns from the closure at once.\<close>

fun vp_charge ::
  "vp_gas_meter \<times> (unit, gas_error) outcome \<Rightarrow> (vp_gas_meter \<Rightarrow> ('a, 'e protocol_error) outcome)
     \<Rightarrow> ('a, 'e protocol_error) outcome" where
  "vp_charge (m, Ok _) f = f m"
| "vp_charge (m, Err e) f = Err (ProtocolGasError e)"
| "vp_charge (m, Panic) f = Panic"

fun native_vp_error :: "internal_address \<Rightarrow> string \<Rightarrow> 'e protocol_error" where
  "native_vp_error PoS e = PosNativeVpError e"
| "native_vp_error Ibc e = IbcNativeVpError e"
| "native_vp_error Parameters e = ParametersNativeVpError e"
| "native_vp_error PosSlashPool e = AccessForbidden PosSlashPool"
| "native_vp_error Governance e = GovernanceNativeVpError e"
| "native_vp_error Treasury e = TreasuryNativeVpError e"
| "native_vp_error (IbcEscrow h) e = IbcTokenNativeVpError e"
| "native_vp_error IbcBurn e = IbcTokenNativeVpError e"
| "native_vp_error IbcMint e = IbcTokenNativeVpError e"
| "native_vp_error EthBridge e = EthBridgeNativeVpError e"

text \<open>The panics of the native predicate of the proof-of-stake system are caught.\<close>

definition run_internal ::
  "('d, 't, 'time, 'w) runner \<Rightarrow> ('d, 't, 'time, 'w) vp_context \<Rightarrow> internal_address \<Rightarrow> vp_gas_meter
     \<Rightarrow> vp_gas_meter \<times> (bool, 'e protocol_error) outcome" where
  "run_internal R C i gas_meter =
     (if i = PosSlashPool then (gas_meter, Err (AccessForbidden i))
      else
        (let data = (case tx_data (cx_tx C) of Some d \<Rightarrow> d | None \<Rightarrow> []);
             (gas_meter', res) =
               run_native R i (cx_storage C) (cx_write_log C) (cx_tx C) gas_meter data (cx_keys_changed C) (cx_verifiers C)
         in (gas_meter', if i = PoS \<and> res = Panic then Err PosNativeVpRuntime else map_err (native_vp_error i) res)))"

text \<open>
  The predicate of a verifier. The outer result is an early return of the closure, the inner one the
  verdict.
\<close>

definition run_verifier ::
  "('e, 't, 'h, 's, 'time, 'w) node_env \<Rightarrow> ('d, 'b, 'e, 'h, 's, 'time, 'w) db_ops \<Rightarrow> ('d, 't, 'time, 'w) runner
     \<Rightarrow> ('d, 't, 'time, 'w) vp_context \<Rightarrow> address
     \<Rightarrow> (vp_gas_meter \<times> (bool, 'e protocol_error) outcome, 'e protocol_error) outcome" where
  "run_verifier E ops R C addr =
     (let gas_meter = vp_gas_meter_new (cx_initial_gas C)
      in case addr of
           Established _ \<Rightarrow>
             outcome_bind (map_err ProtocolStorageError (storage_validity_predicate E ops (cx_storage C) addr)) (\<lambda>(vp, gas).
             vp_charge (vp_gas_add gas_meter gas) (\<lambda>gas_meter.
             outcome_bind (ok_or vp (MissingAddress addr)) (\<lambda>vp.
             vp_charge (vp_add_compiling_fee gas_meter (length vp)) (\<lambda>gas_meter.
               case run_vp R vp (cx_tx C) addr (cx_storage C) (cx_write_log C) gas_meter (cx_keys_changed C) (cx_verifiers C) of
                 (gas_meter', res) \<Rightarrow> Ok (gas_meter', map_err VpRunnerError res)))))
         | Internal i \<Rightarrow> Ok (run_internal R C i gas_meter)
         | Implicit _ \<Rightarrow> Panic)"

section \<open>Merging verdicts\<close>

definition record_verdict ::
  "'e vps_result \<Rightarrow> address \<Rightarrow> (bool, 'e protocol_error) outcome \<Rightarrow> ('e vps_result, 'e protocol_error) outcome" where
  "record_verdict result addr accept =
     (case accept of
        Ok accepted \<Rightarrow>
          Ok (if \<not> accepted then result\<lparr> vr_rejected_vps := insert addr (vr_rejected_vps result) \<rparr>
              else result\<lparr> vr_accepted_vps := insert addr (vr_accepted_vps result) \<rparr>)
      | Err (ProtocolGasError e) \<Rightarrow> Err (ProtocolGasError e)
      | Err e \<Rightarrow>
          Ok (result\<lparr> vr_rejected_vps := insert addr (vr_rejected_vps result), vr_errors := vr_errors result @ [(addr, e)] \<rparr>)
      | Panic \<Rightarrow> Panic)"

definition vps_step ::
  "('e, 't, 'h, 's, 'time, 'w) node_env \<Rightarrow> ('d, 'b, 'e, 'h, 's, 'time, 'w) db_ops \<Rightarrow> ('d, 't, 'time, 'w) runner
     \<Rightarrow> ('d, 't, 'time, 'w) vp_context \<Rightarrow> 'e vps_result \<Rightarrow> address \<Rightarrow> ('e vps_result, 'e protocol_error) outcome" where
  "vps_step E ops R C result addr =
     outcome_bind (run_verifier E ops R C addr) (\<lambda>(gas_meter, accept).
       case vps_set (vr_gas_used result) gas_meter of
         (gas_used, res) \<Rightarrow>
           outcome_bind (map_err ProtocolGasError res) (\<lambda>_.
             record_verdict (result\<lparr> vr_gas_used := gas_used \<rparr>) addr accept))"

fun is_implicit :: "address \<Rightarrow> bool" where
  "is_implicit (Implicit _) = True"
| "is_implicit _ = False"

text \<open>\<^verbatim>\<open>try_fold\<close> on a part of the verifiers, without the implicit addresses.\<close>

fun vps_fold ::
  "('e, 't, 'h, 's, 'time, 'w) node_env \<Rightarrow> ('d, 'b, 'e, 'h, 's, 'time, 'w) db_ops \<Rightarrow> ('d, 't, 'time, 'w) runner
     \<Rightarrow> ('d, 't, 'time, 'w) vp_context \<Rightarrow> 'e vps_result \<Rightarrow> address list \<Rightarrow> ('e vps_result, 'e protocol_error) outcome" where
  "vps_fold E ops R C result [] = Ok result"
| "vps_fold E ops R C result (addr # addrs) =
     (if is_implicit addr then vps_fold E ops R C result addrs
      else outcome_bind (vps_step E ops R C result addr) (\<lambda>result'. vps_fold E ops R C result' addrs))"

definition merge_vp_results ::
  "'e vps_result \<Rightarrow> 'e vps_result \<Rightarrow> u64 \<Rightarrow> ('e vps_result, 'e protocol_error) outcome" where
  "merge_vp_results a b initial =
     (case vps_merge (vr_gas_used a) (vr_gas_used b) initial of
        (gas_used, res) \<Rightarrow>
          outcome_bind (map_err ProtocolGasError res) (\<lambda>_.
            Ok \<lparr> vr_accepted_vps = vr_accepted_vps a \<union> vr_accepted_vps b,
                 vr_rejected_vps = vr_rejected_vps a \<union> vr_rejected_vps b,
                 vr_gas_used = gas_used, vr_errors = vr_errors a @ vr_errors b \<rparr>))"

text \<open>
  A way to split a sequence: the parts are folded, and the results reduced pairwise, each part starting
  from the identity. When parts fail the model returns the first error; the crate may return another.
\<close>

datatype split = Part "address list" | Join split split

fun split_items :: "split \<Rightarrow> address list" where
  "split_items (Part addrs) = addrs"
| "split_items (Join a b) = split_items a @ split_items b"

fun vps_reduce ::
  "('e, 't, 'h, 's, 'time, 'w) node_env \<Rightarrow> ('d, 'b, 'e, 'h, 's, 'time, 'w) db_ops \<Rightarrow> ('d, 't, 'time, 'w) runner
     \<Rightarrow> ('d, 't, 'time, 'w) vp_context \<Rightarrow> split \<Rightarrow> ('e vps_result, 'e protocol_error) outcome" where
  "vps_reduce E ops R C (Part addrs) =
     outcome_bind (vps_fold E ops R C vps_result_default addrs) (\<lambda>r.
       merge_vp_results vps_result_default r (cx_initial_gas C))"
| "vps_reduce E ops R C (Join a b) =
     outcome_bind (vps_reduce E ops R C a) (\<lambda>ra.
     outcome_bind (vps_reduce E ops R C b) (\<lambda>rb. merge_vp_results ra rb (cx_initial_gas C)))"

text \<open>\<^verbatim>\<open>execute_vps\<close>, with the way in which the ordered set of the verifiers is split as an argument.\<close>

definition execute_vps ::
  "('e, 't, 'h, 's, 'time, 'w) node_env \<Rightarrow> ('d, 'b, 'e, 'h, 's, 'time, 'w) db_ops \<Rightarrow> ('d, 't, 'time, 'w) runner
     \<Rightarrow> (address list \<Rightarrow> split) \<Rightarrow> ('d, 't, 'time, 'w) vp_context \<Rightarrow> ('e vps_result, 'e protocol_error) outcome" where
  "execute_vps E ops R rayon C = vps_reduce E ops R C (rayon (sorted_list_of_set (cx_verifiers C)))"

section \<open>Transactions\<close>

definition check_vps ::
  "('e, 't, 'h, 's, 'time, 'w) node_env \<Rightarrow> ('d, 'b, 'e, 'h, 's, 'time, 'w) db_ops \<Rightarrow> ('d, 't, 'time, 'w) runner
     \<Rightarrow> (address list \<Rightarrow> split) \<Rightarrow> 'time tx \<Rightarrow> ('d, 't, 'time, 'w) storage \<Rightarrow> block_gas_meter \<Rightarrow> write_log \<Rightarrow> address set
     \<Rightarrow> block_gas_meter \<times> ('e vps_result, 'e protocol_error) outcome" where
  "check_vps E ops R rayon t s gas_meter l verifiers_from_tx =
     (let (verifiers, keys_changed) = verifiers_and_changed_keys l verifiers_from_tx;
          C = \<lparr> cx_verifiers = verifiers, cx_keys_changed = keys_changed, cx_tx = t, cx_storage = s, cx_write_log = l,
                cx_initial_gas = get_current_transaction_gas gas_meter \<rparr>
      in case execute_vps E ops R rayon C of
           Ok r \<Rightarrow>
             (case add_vps_gas gas_meter (vr_gas_used r) of
                (gas_meter', res) \<Rightarrow> (gas_meter', outcome_bind (map_err ProtocolGasError res) (\<lambda>_. Ok r)))
         | Err e \<Rightarrow> (gas_meter, Err e)
         | Panic \<Rightarrow> (gas_meter, Panic))"

definition execute_tx ::
  "('d, 't, 'time, 'w) runner \<Rightarrow> 'time tx \<Rightarrow> ('d, 't, 'time, 'w) storage \<Rightarrow> block_gas_meter \<Rightarrow> write_log
     \<Rightarrow> write_log \<times> block_gas_meter \<times> (address list, 'e protocol_error) outcome" where
  "execute_tx R t s gas_meter l =
     (case add_compiling_fee gas_meter (length (tx_code t)) of
        (gas_meter', Ok _) \<Rightarrow>
          (case run_tx R s l gas_meter' (tx_code t) (case tx_data t of Some d \<Rightarrow> d | None \<Rightarrow> []) of
             (l', gas_meter'', res) \<Rightarrow> (l', gas_meter'', map_err TxRunnerError res))
      | (gas_meter', Err e) \<Rightarrow> (l, gas_meter', Err (ProtocolGasError e))
      | (gas_meter', Panic) \<Rightarrow> (l, gas_meter', Panic))"

definition apply_decrypted ::
  "('e, 't, 'h, 's, 'time, 'w) node_env \<Rightarrow> ('d, 'b, 'e, 'h, 's, 'time, 'w) db_ops \<Rightarrow> ('d, 't, 'time, 'w) runner
     \<Rightarrow> (address list \<Rightarrow> split) \<Rightarrow> 'time tx \<Rightarrow> block_gas_meter \<Rightarrow> write_log \<Rightarrow> ('d, 't, 'time, 'w) storage
     \<Rightarrow> write_log \<times> block_gas_meter \<times> ('e tx_result, 'e protocol_error) outcome" where
  "apply_decrypted E ops R rayon t gas_meter l s =
     (case execute_tx R t s gas_meter l of
        (l1, gas_meter1, Ok verifiers) \<Rightarrow>
          (case check_vps E ops R rayon t s gas_meter1 l1 (set verifiers) of
             (gas_meter2, Ok vps_result) \<Rightarrow>
               (case finalize_transaction gas_meter2 of
                  (gas_meter3, Ok gas_used) \<Rightarrow>
                    (let (l2, event) = take_ibc_event l1
                     in (l2, gas_meter3,
                         Ok \<lparr> txr_gas_used = gas_used, txr_changed_keys = wl_get_keys l1, txr_vps_result = vps_result,
                              txr_initialized_accounts = get_initialized_accounts l1, txr_ibc_event = event \<rparr>))
                | (gas_meter3, Err e) \<Rightarrow> (l1, gas_meter3, Err (ProtocolGasError e))
                | (gas_meter3, Panic) \<Rightarrow> (l1, gas_meter3, Panic))
           | (gas_meter2, Err e) \<Rightarrow> (l1, gas_meter2, Err e)
           | (gas_meter2, Panic) \<Rightarrow> (l1, gas_meter2, Panic))
      | (l1, gas_meter1, Err e) \<Rightarrow> (l1, gas_meter1, Err e)
      | (l1, gas_meter1, Panic) \<Rightarrow> (l1, gas_meter1, Panic))"

definition apply_tx ::
  "('e, 't, 'h, 's, 'time, 'w) node_env \<Rightarrow> ('d, 'b, 'e, 'h, 's, 'time, 'w) db_ops \<Rightarrow> ('d, 't, 'time, 'w) runner
     \<Rightarrow> (address list \<Rightarrow> split) \<Rightarrow> 'time tx_type \<Rightarrow> nat \<Rightarrow> block_gas_meter \<Rightarrow> write_log \<Rightarrow> ('d, 't, 'time, 'w) storage
     \<Rightarrow> write_log \<times> block_gas_meter \<times> ('e tx_result, 'e protocol_error) outcome" where
  "apply_tx E ops R rayon ty tx_length gas_meter l s =
     (case add_base_transaction_fee gas_meter tx_length of
        (gas_meter', Ok _) \<Rightarrow>
          (case ty of
             Raw _ \<Rightarrow> (l, gas_meter', Err TxTypeError)
           | DecryptedTx (Decrypted t) \<Rightarrow> apply_decrypted E ops R rayon t gas_meter' l s
           | _ \<Rightarrow>
               (case finalize_transaction gas_meter' of
                  (gas_meter'', Ok gas_used) \<Rightarrow> (l, gas_meter'', Ok (tx_result_default\<lparr> txr_gas_used := gas_used \<rparr>))
                | (gas_meter'', Err e) \<Rightarrow> (l, gas_meter'', Err (ProtocolGasError e))
                | (gas_meter'', Panic) \<Rightarrow> (l, gas_meter'', Panic)))
      | (gas_meter', Err e) \<Rightarrow> (l, gas_meter', Err (ProtocolGasError e))
      | (gas_meter', Panic) \<Rightarrow> (l, gas_meter', Panic))"

section \<open>The verdict does not depend on the split\<close>

text \<open>What a verifier says, if its predicate does not stop the execution, and the error it reports.\<close>

definition verdict ::
  "('e, 't, 'h, 's, 'time, 'w) node_env \<Rightarrow> ('d, 'b, 'e, 'h, 's, 'time, 'w) db_ops \<Rightarrow> ('d, 't, 'time, 'w) runner
     \<Rightarrow> ('d, 't, 'time, 'w) vp_context \<Rightarrow> address \<Rightarrow> bool option" where
  "verdict E ops R C addr =
     (case run_verifier E ops R C addr of
        Ok (_, Ok b) \<Rightarrow> Some b
      | Ok (_, Err (ProtocolGasError _)) \<Rightarrow> None
      | Ok (_, Err _) \<Rightarrow> Some False
      | _ \<Rightarrow> None)"

definition reported ::
  "('e, 't, 'h, 's, 'time, 'w) node_env \<Rightarrow> ('d, 'b, 'e, 'h, 's, 'time, 'w) db_ops \<Rightarrow> ('d, 't, 'time, 'w) runner
     \<Rightarrow> ('d, 't, 'time, 'w) vp_context \<Rightarrow> address \<Rightarrow> (address \<times> 'e protocol_error) list" where
  "reported E ops R C addr = (case run_verifier E ops R C addr of Ok (_, Err e) \<Rightarrow> [(addr, e)] | _ \<Rightarrow> [])"

text \<open>A result that holds the verdicts of a list of verifiers in addition to another result.\<close>

definition adds_verdicts ::
  "('e, 't, 'h, 's, 'time, 'w) node_env \<Rightarrow> ('d, 'b, 'e, 'h, 's, 'time, 'w) db_ops \<Rightarrow> ('d, 't, 'time, 'w) runner
     \<Rightarrow> ('d, 't, 'time, 'w) vp_context \<Rightarrow> 'e vps_result \<Rightarrow> address list \<Rightarrow> 'e vps_result \<Rightarrow> bool" where
  "adds_verdicts E ops R C r addrs r' \<longleftrightarrow>
     (\<forall>a\<in>set addrs. \<not> is_implicit a \<longrightarrow> verdict E ops R C a \<noteq> None) \<and>
     vr_accepted_vps r' = vr_accepted_vps r \<union> {a \<in> set addrs. \<not> is_implicit a \<and> verdict E ops R C a = Some True} \<and>
     vr_rejected_vps r' = vr_rejected_vps r \<union> {a \<in> set addrs. \<not> is_implicit a \<and> verdict E ops R C a = Some False} \<and>
     vr_errors r' = vr_errors r @ concat (map (reported E ops R C) (filter (\<lambda>a. \<not> is_implicit a) addrs))"

lemma vps_step_verdict:
  assumes step: "vps_step E ops R C r a = Ok r'" and a: "\<not> is_implicit a"
  shows "adds_verdicts E ops R C r [a] r'"
proof -
  obtain m accept where run: "run_verifier E ops R C a = Ok (m, accept)"
    and rec: "record_verdict (r\<lparr> vr_gas_used := fst (vps_set (vr_gas_used r) m) \<rparr>) a accept = Ok r'"
    using step by (auto simp: vps_step_def outcome_simps case_prod_beta)
  show ?thesis
  proof (cases accept)
    case (Ok b)
    then show ?thesis
      using rec run a by (cases b) (auto simp: record_verdict_def adds_verdicts_def verdict_def reported_def)
  next
    case (Err e)
    then show ?thesis
      using rec run a by (cases e) (auto simp: record_verdict_def adds_verdicts_def verdict_def reported_def)
  next
    case Panic
    then show ?thesis using rec by (simp add: record_verdict_def)
  qed
qed

lemma adds_verdicts_trans:
  assumes "adds_verdicts E ops R C r as1 r1" "adds_verdicts E ops R C r1 as2 r2"
  shows "adds_verdicts E ops R C r (as1 @ as2) r2"
  using assms unfolding adds_verdicts_def by auto

lemma vps_fold_verdicts: "vps_fold E ops R C r addrs = Ok r' \<Longrightarrow> adds_verdicts E ops R C r addrs r'"
proof (induct addrs arbitrary: r)
  case Nil
  then show ?case by (simp add: adds_verdicts_def)
next
  case (Cons a addrs)
  show ?case
  proof (cases "is_implicit a")
    case True
    then show ?thesis using Cons by (simp add: adds_verdicts_def) blast
  next
    case False
    then obtain r1 where r1: "vps_step E ops R C r a = Ok r1" "vps_fold E ops R C r1 addrs = Ok r'"
      using Cons.prems by (auto simp: outcome_simps)
    from adds_verdicts_trans [OF vps_step_verdict [OF r1(1) False] Cons.hyps [OF r1(2)]] show ?thesis by simp
  qed
qed

lemma merge_vp_results_Ok:
  "merge_vp_results a b initial = Ok r \<Longrightarrow>
     vr_accepted_vps r = vr_accepted_vps a \<union> vr_accepted_vps b \<and> vr_rejected_vps r = vr_rejected_vps a \<union> vr_rejected_vps b \<and>
     vr_errors r = vr_errors a @ vr_errors b \<and> vr_gas_used r = vps_join (vr_gas_used a) (vr_gas_used b)"
  by (auto simp: merge_vp_results_def vps_merge_def outcome_simps)

lemma vps_reduce_verdicts:
  "vps_reduce E ops R C t = Ok r \<Longrightarrow> adds_verdicts E ops R C vps_result_default (split_items t) r"
proof (induct t arbitrary: r)
  case (Part addrs)
  then obtain r1 where r1: "vps_fold E ops R C vps_result_default addrs = Ok r1"
    "merge_vp_results vps_result_default r1 (cx_initial_gas C) = Ok r"
    by (auto simp: outcome_simps)
  from vps_fold_verdicts [OF r1(1)] merge_vp_results_Ok [OF r1(2)] show ?case
    by (auto simp: adds_verdicts_def vps_result_default_def)
next
  case (Join t1 t2)
  then obtain r1 r2 where r1: "vps_reduce E ops R C t1 = Ok r1" and r2: "vps_reduce E ops R C t2 = Ok r2"
    and m: "merge_vp_results r1 r2 (cx_initial_gas C) = Ok r"
    by (auto simp: outcome_simps)
  from Join.hyps(1) [OF r1] Join.hyps(2) [OF r2] merge_vp_results_Ok [OF m] show ?case
    by (auto simp: adds_verdicts_def vps_result_default_def)
qed

text \<open>
  Claim C37. However the verifiers are split among threads, an execution of the validity predicates that
  completes gives the same verdict: the same predicates accepted, the same rejected, and the same errors in
  the same order, namely those of running each predicate by itself.
\<close>

theorem execute_vps_split_independent:
  assumes "\<forall>addrs. split_items (rayon addrs) = addrs" "\<forall>addrs. split_items (rayon' addrs) = addrs"
    and "execute_vps E ops R rayon C = Ok r" "execute_vps E ops R rayon' C = Ok r'"
  shows "vr_accepted_vps r = vr_accepted_vps r' \<and> vr_rejected_vps r = vr_rejected_vps r' \<and> vr_errors r = vr_errors r'"
  using vps_reduce_verdicts [OF assms(3) [unfolded execute_vps_def]]
    vps_reduce_verdicts [OF assms(4) [unfolded execute_vps_def]] assms(1,2)
  by (simp add: adds_verdicts_def)

section \<open>An accepted transaction was verified\<close>

lemma apply_tx_decrypted_Ok:
  fixes E :: "('e, 't, 'h, 's, 'time, 'w) node_env"
  assumes "apply_tx E ops R rayon (DecryptedTx (Decrypted t)) tx_length gas_meter l s = (l', gas_meter', Ok r)"
  obtains gas_meter1 l1 verifiers gas_meter2 where
    "execute_tx R t s (fst (add_base_transaction_fee gas_meter tx_length)) l =
      (l1, gas_meter1, (Ok verifiers :: (address list, 'e protocol_error) outcome))"
    "check_vps E ops R rayon t s gas_meter1 l1 (set verifiers) = (gas_meter2, Ok (txr_vps_result r))"
    "txr_changed_keys r = wl_get_keys l1" "txr_initialized_accounts r = get_initialized_accounts l1"
    "l' = fst (take_ibc_event l1)"
proof -
  obtain gm0 o0 where base: "add_base_transaction_fee gas_meter tx_length = (gm0, o0)" by fastforce
  obtain l1 gm1 and o1 :: "(address list, 'e protocol_error) outcome"
    where exec: "execute_tx R t s gm0 l = (l1, gm1, o1)" by (metis prod_cases3)
  have dec: "apply_decrypted E ops R rayon t gm0 l s = (l', gas_meter', Ok r)"
    using assms base by (cases o0) (simp_all add: apply_tx_def)
  then obtain verifiers where o1: "o1 = Ok verifiers"
    using exec by (cases o1) (simp_all add: apply_decrypted_def)
  obtain gm2 o2 where check: "check_vps E ops R rayon t s gm1 l1 (set verifiers) = (gm2, o2)" by fastforce
  obtain vr where o2: "o2 = Ok vr"
    using dec exec o1 check by (cases o2) (simp_all add: apply_decrypted_def)
  obtain gm3 o3 where fin: "finalize_transaction gm2 = (gm3, o3)" by fastforce
  have "txr_vps_result r = vr \<and> txr_changed_keys r = wl_get_keys l1 \<and>
      txr_initialized_accounts r = get_initialized_accounts l1 \<and> l' = fst (take_ibc_event l1)"
    using dec exec o1 check o2 fin by (cases o3) (auto simp: apply_decrypted_def take_ibc_event_def)
  with that [of l1 gm1 verifiers gm2] exec check base o1 o2 show thesis by simp
qed

lemma check_vps_Ok:
  assumes "check_vps E ops R rayon t s gas_meter l requested = (gas_meter', Ok r)"
  obtains C where "execute_vps E ops R rayon C = Ok r" "cx_tx C = t" "cx_storage C = s" "cx_write_log C = l"
    "cx_initial_gas C = transaction_gas gas_meter"
    "verifiers_and_changed_keys l requested = (cx_verifiers C, cx_keys_changed C)"
  using assms
  by (force simp: check_vps_def Let_def outcome_simps get_current_transaction_gas_def split: prod.splits outcome.splits)

lemma verifiers_of_changes:
  assumes "verifiers_and_changed_keys l requested = (verifiers, changed_keys)" "finite requested"
  shows "changed_keys = wl_get_keys l" "finite verifiers"
    and "k \<in> changed_keys \<Longrightarrow> a \<in> set (find_addresses k) \<Longrightarrow> a \<in> verifiers \<or> a \<in> set (get_initialized_accounts l)"
  using assms by (force simp: verifiers_and_changed_keys_def Let_def wl_get_keys_def)+

text \<open>
  What it means that the predicate of an address accepts a transaction with a write log: for an established
  address the code in the storage, run on the transaction, the storage, the log and its changed keys,
  returns true, and so does the native predicate of an internal address. The meter of the predicate
  starts from the gas of the transaction. Implicit addresses have no predicate.
\<close>

definition predicate_accepts ::
  "('e, 't, 'h, 's, 'time, 'w) node_env \<Rightarrow> ('d, 'b, 'e, 'h, 's, 'time, 'w) db_ops \<Rightarrow> ('d, 't, 'time, 'w) runner
     \<Rightarrow> 'time tx \<Rightarrow> ('d, 't, 'time, 'w) storage \<Rightarrow> write_log \<Rightarrow> u64 \<Rightarrow> address set \<Rightarrow> address \<Rightarrow> bool" where
  "predicate_accepts E ops R t s l gas verifiers a \<longleftrightarrow>
     (case a of
        Established _ \<Rightarrow>
          (\<exists>vp vp_gas m m'. storage_validity_predicate E ops s a = Ok (Some vp, vp_gas) \<and> initial_gas m = gas \<and>
             run_vp R vp t a s l m (wl_get_keys l) verifiers = (m', Ok True))
      | Internal i \<Rightarrow>
          i \<noteq> PosSlashPool \<and>
          (\<exists>m m'. initial_gas m = gas \<and>
             run_native R i s l t m (case tx_data t of Some d \<Rightarrow> d | None \<Rightarrow> []) (wl_get_keys l) verifiers = (m', Ok True))
      | Implicit _ \<Rightarrow> True)"

lemma map_err_OkD: "map_err f x = Ok y \<Longrightarrow> x = Ok y"
  by (cases x) simp_all

lemma run_internal_accepts:
  assumes "run_internal R C i m = (m', Ok True)"
  shows "i \<noteq> PosSlashPool \<and> run_native R i (cx_storage C) (cx_write_log C) (cx_tx C) m
      (case tx_data (cx_tx C) of Some d \<Rightarrow> d | None \<Rightarrow> []) (cx_keys_changed C) (cx_verifiers C) = (m', Ok True)"
  using assms by (auto simp: run_internal_def Let_def split: if_splits prod.splits dest!: map_err_OkD)

lemma vp_charge_OkD:
  assumes "vp_charge (vp_gas_add m gas) f = Ok x"
  shows "\<exists>m'. initial_gas m' = initial_gas m \<and> f m' = Ok x"
proof -
  obtain m' r where add: "vp_gas_add m gas = (m', r)" by fastforce
  then have "initial_gas m' = initial_gas m"
    by (auto simp: vp_gas_add_def split: option.splits if_splits)
  with add assms show ?thesis
    by (cases r) auto
qed

lemma run_verifier_accepts:
  fixes E :: "('e, 't, 'h, 's, 'time, 'w) node_env"
  assumes "run_verifier E ops R C a = Ok (m, Ok True)" "cx_keys_changed C = wl_get_keys (cx_write_log C)"
  shows "predicate_accepts E ops R (cx_tx C) (cx_storage C) (cx_write_log C) (cx_initial_gas C) (cx_verifiers C) a"
proof (cases a)
  case (Established h)
  obtain vp gas where vp: "storage_validity_predicate E ops (cx_storage C) a = Ok (vp, gas)"
    and run: "vp_charge (vp_gas_add (vp_gas_meter_new (cx_initial_gas C)) gas) (\<lambda>gas_meter.
      outcome_bind (ok_or vp (MissingAddress a)) (\<lambda>vp. vp_charge (vp_add_compiling_fee gas_meter (length vp)) (\<lambda>gas_meter.
        case run_vp R vp (cx_tx C) a (cx_storage C) (cx_write_log C) gas_meter (cx_keys_changed C) (cx_verifiers C) of
          (gas_meter', res) \<Rightarrow> Ok (gas_meter', map_err VpRunnerError res)))) =
      (Ok (m, Ok True) :: (vp_gas_meter \<times> (bool, 'e protocol_error) outcome, 'e protocol_error) outcome)"
    using assms(1) Established by (auto simp: run_verifier_def Let_def outcome_simps dest!: map_err_OkD)
  obtain m1 code where m1: "initial_gas m1 = cx_initial_gas C" "vp = Some code"
    and run1: "vp_charge (vp_gas_add m1 (of_nat (length code) * COMPILE_GAS_PER_BYTE)) (\<lambda>gas_meter.
        case run_vp R code (cx_tx C) a (cx_storage C) (cx_write_log C) gas_meter (cx_keys_changed C) (cx_verifiers C) of
          (gas_meter', res) \<Rightarrow> Ok (gas_meter', map_err VpRunnerError res)) =
      (Ok (m, Ok True) :: (vp_gas_meter \<times> (bool, 'e protocol_error) outcome, 'e protocol_error) outcome)"
    using vp_charge_OkD [OF run]
    by (cases vp) (auto simp: vp_gas_meter_new_def ok_or_def vp_add_compiling_fee_def)
  obtain m2 where m2: "initial_gas m2 = cx_initial_gas C"
    and res: "(case run_vp R code (cx_tx C) a (cx_storage C) (cx_write_log C) m2 (cx_keys_changed C) (cx_verifiers C) of
          (gas_meter', res) \<Rightarrow> Ok (gas_meter', map_err VpRunnerError res)) =
      (Ok (m, Ok True) :: (vp_gas_meter \<times> (bool, 'e protocol_error) outcome, 'e protocol_error) outcome)"
    using vp_charge_OkD [OF run1] m1(1) by metis
  have "run_vp R code (cx_tx C) a (cx_storage C) (cx_write_log C) m2 (cx_keys_changed C) (cx_verifiers C) = (m, Ok True)"
    using res by (cases "run_vp R code (cx_tx C) a (cx_storage C) (cx_write_log C) m2 (cx_keys_changed C) (cx_verifiers C)")
      (auto dest: map_err_OkD)
  with m2 vp m1(2) show ?thesis
    using assms(2) by (auto simp: predicate_accepts_def Established)
next
  case (Internal i)
  with assms(1) have "run_internal R C i (vp_gas_meter_new (cx_initial_gas C)) = (m, (Ok True :: (bool, 'e protocol_error) outcome))"
    by (simp add: run_verifier_def)
  from run_internal_accepts [OF this] assms(2) Internal show ?thesis
    by (simp add: predicate_accepts_def vp_gas_meter_new_def) (metis vp_gas_meter.select_convs(1))
qed (simp add: predicate_accepts_def)


section \<open>The gas depends on the split\<close>

text \<open>The split in which every verifier is a part of its own.\<close>

definition single_parts :: "address list \<Rightarrow> split" where
  "single_parts addrs = foldr (\<lambda>a t. Join (Part [a]) t) addrs (Part [])"

lemma split_items_single_parts: "split_items (single_parts addrs) = addrs"
  by (induct addrs) (simp_all add: single_parts_def)

lemma vps_check_limit_Ok:
  assumes "vps_get_current_gas g = Ok gas" "unat initial + unat gas \<le> unat TRANSACTION_GAS_LIMIT"
  shows "vps_check_limit g initial = Ok ()"
  using assms by (simp add: vps_check_limit_def checked_add_def ok_or_def word_less_nat_alt unat_add_no_wrap not_less)

lemma vps_step_accept:
  assumes "run_verifier E ops R C a = Ok (m, Ok True)" "vps_rest (vr_gas_used r) = []"
    and "unat (initial_gas m) + unat (current_gas m) \<le> unat TRANSACTION_GAS_LIMIT"
  shows "vps_step E ops R C r a =
    Ok (r\<lparr> vr_gas_used := \<lparr> vps_max = Some (current_gas m), vps_rest = [] \<rparr>, vr_accepted_vps := insert a (vr_accepted_vps r) \<rparr>)"
proof -
  let ?g = "(vr_gas_used r)\<lparr> vps_max := Some (current_gas m) \<rparr>"
  have "vps_get_current_gas ?g = Ok (current_gas m)"
    using assms(2) by (simp add: vps_get_current_gas_def checked_add_def ok_or_def)
  from vps_check_limit_Ok [OF this assms(3)] show ?thesis
    using assms(1,2) by (simp add: vps_step_def vps_set_def record_verdict_def)
qed

lemma merge_vp_results_gas:
  assumes "vps_get_current_gas (vps_join (vr_gas_used a) (vr_gas_used b)) = Ok gas"
    and "unat initial + unat gas \<le> unat TRANSACTION_GAS_LIMIT"
  shows "\<exists>r. merge_vp_results a b initial = Ok r \<and> vr_gas_used r = vps_join (vr_gas_used a) (vr_gas_used b)"
  using vps_check_limit_Ok [OF assms] by (simp add: merge_vp_results_def vps_merge_def)

lemma current_gas_max [simp]: "vps_get_current_gas \<lparr> vps_max = Some g, vps_rest = [] \<rparr> = Ok g"
  by (simp add: vps_get_current_gas_def checked_add_def ok_or_def)

lemma vps_join_default [simp]:
  "vps_join vps_gas_default g = g" "vps_join \<lparr> vps_max = Some m, vps_rest = rs \<rparr> vps_gas_default = \<lparr> vps_max = Some m, vps_rest = rs \<rparr>"
  by (cases g; cases "vps_max g"; simp add: vps_join_def vps_gas_default_def Let_def)+

definition accepts_with ::
  "('e, 't, 'h, 's, 'time, 'w) node_env \<Rightarrow> ('d, 'b, 'e, 'h, 's, 'time, 'w) db_ops \<Rightarrow> ('d, 't, 'time, 'w) runner
     \<Rightarrow> ('d, 't, 'time, 'w) vp_context \<Rightarrow> address \<Rightarrow> u64 \<Rightarrow> bool" where
  "accepts_with E ops R C a gas \<longleftrightarrow>
     \<not> is_implicit a \<and> run_verifier E ops R C a = Ok (\<lparr> initial_gas = cx_initial_gas C, current_gas = gas \<rparr>, Ok True)"

lemma vps_step_accepts_with:
  assumes "accepts_with E ops R C a gas" "vps_rest (vr_gas_used r) = []"
    and "unat (cx_initial_gas C) + unat gas \<le> unat TRANSACTION_GAS_LIMIT"
  shows "\<exists>r'. vps_step E ops R C r a = Ok r' \<and> vr_gas_used r' = \<lparr> vps_max = Some gas, vps_rest = [] \<rparr>"
  using vps_step_accept [of E ops R C a _ r] assms by (fastforce simp: accepts_with_def)

lemma vps_reduce_part:
  assumes "vps_fold E ops R C vps_result_default addrs = Ok r" "vr_gas_used r = \<lparr> vps_max = Some gas, vps_rest = [] \<rparr>"
    and "unat (cx_initial_gas C) + unat gas \<le> unat TRANSACTION_GAS_LIMIT"
  shows "\<exists>r'. vps_reduce E ops R C (Part addrs) = Ok r' \<and> vr_gas_used r' = \<lparr> vps_max = Some gas, vps_rest = [] \<rparr>"
  using merge_vp_results_gas [of vps_result_default r gas "cx_initial_gas C"] assms
  by (simp add: vps_result_default_def)

lemma vps_reduce_single:
  assumes a: "accepts_with E ops R C a gas" and limit: "unat (cx_initial_gas C) + unat gas \<le> unat TRANSACTION_GAS_LIMIT"
  shows "\<exists>r. vps_reduce E ops R C (Part [a]) = Ok r \<and> vr_gas_used r = \<lparr> vps_max = Some gas, vps_rest = [] \<rparr>"
proof -
  have "vps_rest (vr_gas_used vps_result_default) = []" by (simp add: vps_result_default_def vps_gas_default_def)
  from vps_step_accepts_with [OF a this limit] obtain r where
    r: "vps_step E ops R C vps_result_default a = Ok r" "vr_gas_used r = \<lparr> vps_max = Some gas, vps_rest = [] \<rparr>" by blast
  then have "vps_fold E ops R C vps_result_default [a] = Ok r"
    using a by (simp add: accepts_with_def)
  from vps_reduce_part [OF this r(2) limit] show ?thesis .
qed

lemma vps_reduce_empty:
  assumes "unat (cx_initial_gas C) \<le> unat TRANSACTION_GAS_LIMIT"
  shows "\<exists>r. vps_reduce E ops R C (Part []) = Ok r \<and> vr_gas_used r = vps_gas_default"
  using merge_vp_results_gas [of vps_result_default vps_result_default 0 "cx_initial_gas C"] assms
  by (auto simp: vps_result_default_def vps_get_current_gas_def vps_gas_default_def vps_join_def checked_add_def ok_or_def)

lemma vps_reduce_two_parts:
  assumes a: "accepts_with E ops R C a gas_a" and b: "accepts_with E ops R C b gas_b" and le: "gas_b \<le> gas_a"
    and limit: "unat (cx_initial_gas C) + unat gas_a + unat gas_b \<le> unat TRANSACTION_GAS_LIMIT"
  shows "\<exists>r. vps_reduce E ops R C (single_parts [a, b]) = Ok r \<and>
    vps_get_current_gas (vr_gas_used r) = Ok (gas_a + gas_b div PARALLEL_GAS_DIVIDER)"
proof -
  let ?i = "cx_initial_gas C" and ?j = "\<lparr> vps_max = Some gas_a, vps_rest = [gas_b] \<rparr>"
  have share: "unat (gas_b div PARALLEL_GAS_DIVIDER) \<le> unat gas_b" by (simp add: unat_div)
  obtain ra where ra: "vps_reduce E ops R C (Part [a]) = Ok ra" "vr_gas_used ra = \<lparr> vps_max = Some gas_a, vps_rest = [] \<rparr>"
    using vps_reduce_single [OF a] limit by auto
  obtain rb where rb: "vps_reduce E ops R C (Part [b]) = Ok rb" "vr_gas_used rb = \<lparr> vps_max = Some gas_b, vps_rest = [] \<rparr>"
    using vps_reduce_single [OF b] limit by auto
  obtain r0 where r0: "vps_reduce E ops R C (Part []) = Ok r0" "vr_gas_used r0 = vps_gas_default"
    using vps_reduce_empty [of C] limit by force
  obtain rb0 where rb0: "merge_vp_results rb r0 ?i = Ok rb0" "vr_gas_used rb0 = \<lparr> vps_max = Some gas_b, vps_rest = [] \<rparr>"
    using merge_vp_results_gas [of rb r0 gas_b ?i] limit rb(2) r0(2) by auto
  have join: "vps_join (vr_gas_used ra) (vr_gas_used rb0) = ?j"
    using le by (auto simp: ra(2) rb0(2) vps_join_def)
  have gas: "vps_get_current_gas ?j = Ok (gas_a + gas_b div PARALLEL_GAS_DIVIDER)"
    using limit share by (simp add: vps_get_current_gas_def checked_add_def ok_or_def)
  have "unat ?i + unat (gas_a + gas_b div PARALLEL_GAS_DIVIDER) \<le> unat TRANSACTION_GAS_LIMIT"
    using limit share by (simp add: unat_add_no_wrap)
  then obtain r where "merge_vp_results ra rb0 ?i = Ok r" "vr_gas_used r = ?j"
    using merge_vp_results_gas [of ra rb0 _ ?i] join gas by fastforce
  then show ?thesis
    using ra(1) rb(1) r0(1) rb0(1) gas by (simp add: single_parts_def)
qed

lemma vps_reduce_one_part:
  assumes a: "accepts_with E ops R C a gas_a" and b: "accepts_with E ops R C b gas_b"
    and limit: "unat (cx_initial_gas C) + unat gas_a + unat gas_b \<le> unat TRANSACTION_GAS_LIMIT"
  shows "\<exists>r. vps_reduce E ops R C (Part [a, b]) = Ok r \<and> vps_get_current_gas (vr_gas_used r) = Ok gas_b"
proof -
  obtain s1 where s1: "vps_step E ops R C vps_result_default a = Ok s1" "vr_gas_used s1 = \<lparr> vps_max = Some gas_a, vps_rest = [] \<rparr>"
    using vps_step_accepts_with [OF a, of vps_result_default] limit
    by (auto simp: vps_result_default_def vps_gas_default_def)
  obtain s2 where s2: "vps_step E ops R C s1 b = Ok s2" "vr_gas_used s2 = \<lparr> vps_max = Some gas_b, vps_rest = [] \<rparr>"
    using vps_step_accepts_with [OF b, of s1] s1(2) limit by auto
  have "vps_fold E ops R C vps_result_default [a, b] = Ok s2"
    using s1(1) s2(1) a b by (simp add: accepts_with_def)
  from vps_reduce_part [OF this s2(2)] limit show ?thesis by auto
qed

text \<open>
  Claim C38. The gas of the validity predicates is not determined by the transaction. Take two verifiers that
  accept, of which the first uses more gas. When they run in different parts, the transaction pays for the
  first and a share of the second, as intended; when one thread runs both, the gas of the second replaces
  that of the first.
\<close>

theorem vps_gas_depends_on_split:
  assumes "cx_verifiers C = {a, b}" "a < b" "accepts_with E ops R C a gas_a" "accepts_with E ops R C b gas_b"
    and "gas_b \<le> gas_a" "unat (cx_initial_gas C) + unat gas_a + unat gas_b \<le> unat TRANSACTION_GAS_LIMIT"
  shows "(\<exists>r. execute_vps E ops R single_parts C = Ok r \<and>
      vps_get_current_gas (vr_gas_used r) = Ok (gas_a + gas_b div PARALLEL_GAS_DIVIDER)) \<and>
    (\<exists>r. execute_vps E ops R Part C = Ok r \<and> vps_get_current_gas (vr_gas_used r) = Ok gas_b)"
proof -
  have "sorted_list_of_set (cx_verifiers C) = [a, b]"
    using assms(1,2) by (auto simp: insort_key_def)
  then show ?thesis
    using vps_reduce_two_parts [OF assms(3-6)] vps_reduce_one_part [OF assms(3,4,6)] by (simp add: execute_vps_def)
qed

section \<open>A failed transaction leaves its gas and its event\<close>

text \<open>
  Claim C39. A transaction that fails is not finalized: its gas stays on the meter, and is charged to the next
  transaction of the block, and the event that it has set stays in the log after the log is dropped, for
  the next transaction to report.
\<close>

theorem failed_tx_leaks:
  assumes "add_base_transaction_fee gas_meter tx_length = (gas_meter0, Ok ())"
    and "add_compiling_fee gas_meter0 (length (tx_code t)) = (gas_meter1, Ok ())"
    and "run_tx R s l gas_meter1 (tx_code t) (case tx_data t of Some d \<Rightarrow> d | None \<Rightarrow> []) = (l', gas_meter', Err e)"
    and "unat (transaction_gas gas_meter') + unat BASE_TRANSACTION_FEE \<le> unat TRANSACTION_GAS_LIMIT"
    and "unat (block_gas gas_meter') + unat (transaction_gas gas_meter') + unat BASE_TRANSACTION_FEE \<le> unat BLOCK_GAS_LIMIT"
  shows "apply_tx E ops R rayon (DecryptedTx (Decrypted t)) tx_length gas_meter l s = (l', gas_meter', Err (TxRunnerError e)) \<and>
    wl_ibc_event (wl_drop_tx l') = wl_ibc_event l' \<and>
    (\<exists>gas_meter'' r. apply_tx E ops R rayon (Wrapper w) len gas_meter' (wl_drop_tx l') s = (wl_drop_tx l', gas_meter'', Ok r) \<and>
       txr_gas_used r = transaction_gas gas_meter' + BASE_TRANSACTION_FEE)"
proof -
  have "unat (transaction_gas gas_meter' + BASE_TRANSACTION_FEE) = unat (transaction_gas gas_meter') + unat BASE_TRANSACTION_FEE"
    using assms(4) by (simp add: unat_add_no_wrap)
  moreover have "unat (block_gas gas_meter' + (transaction_gas gas_meter' + BASE_TRANSACTION_FEE)) \<le> unat BLOCK_GAS_LIMIT"
    using calculation assms(5) by (simp add: unat_add_no_wrap)
  ultimately have fin: "finalize_transaction (gas_meter'\<lparr> transaction_gas := transaction_gas gas_meter' + BASE_TRANSACTION_FEE \<rparr>) =
      (gas_meter'\<lparr> block_gas := block_gas gas_meter' + (transaction_gas gas_meter' + BASE_TRANSACTION_FEE), transaction_gas := 0 \<rparr>,
       Ok (transaction_gas gas_meter' + BASE_TRANSACTION_FEE))"
    using assms(5) by (simp add: finalize_transaction_def checked_add_def word_less_nat_alt)
  show ?thesis
    using assms(1-4) fin
    by (simp add: apply_tx_def apply_decrypted_def execute_tx_def add_base_transaction_fee_def block_gas_add_cases
        wl_drop_tx_def)
qed

section \<open>An example\<close>

text \<open>A transaction that writes a key of the governance account, with predicates that accept for different gas.\<close>

abbreviation gov_key :: key where "gov_key \<equiv> Key [AddressSeg (Internal Governance), StringSeg ''x'']"

definition example_runner :: "('d, 't, 'time, 'w) runner" where
  "example_runner =
     \<lparr> run_tx = (\<lambda>_ l m code _.
         if code = ''bad'' then (l\<lparr> wl_ibc_event := Some \<lparr> event_type = ''e'', ev_attributes = [] \<rparr> \<rparr>, m, Err ''trap'')
         else (tx_insert l gov_key (Write ''1''), m, Ok [])),
       run_vp = (\<lambda>_ _ _ _ _ m _ _. (m, Ok True)),
       run_native = (\<lambda>i _ _ _ m _ _ _. (m\<lparr> current_gas := (if i = Governance then 100 else 10) \<rparr>, Ok True)) \<rparr>"

abbreviation example_storage :: "(batch_op list, (string option \<times> string option) list, nat, nat) storage" where
  "example_storage \<equiv> storage_open example_env [] ''chain'' 0"

abbreviation example_ops ::
  "(batch_op list, batch_op list, unit, string option, (string option \<times> string option) list, nat, nat) db_ops" where
  "example_ops \<equiv> rocks_ops example_env example_kv"

definition example_context ::
  "address set \<Rightarrow> (batch_op list, (string option \<times> string option) list, nat, nat) vp_context" where
  "example_context verifiers =
     \<lparr> cx_verifiers = verifiers, cx_keys_changed = {gov_key}, cx_tx = tx_new 0 ''good'' None, cx_storage = example_storage,
       cx_write_log = write_log_default, cx_initial_gas = 0 \<rparr>"

lemma example_accepts:
  "accepts_with example_env example_ops example_runner C (Internal Governance) 100"
  "accepts_with example_env example_ops example_runner C (Internal Treasury) 10"
  by (simp_all add: accepts_with_def run_verifier_def run_internal_def example_runner_def vp_gas_meter_new_def Let_def)

lemma example_order: "Internal Governance < Internal Treasury"
  by (simp add: less_address_def address_rank_def internal_rank_def less_prod_def)

theorem vps_gas_depends_on_split_witness:
  "(\<exists>r. execute_vps example_env example_ops example_runner single_parts
       (example_context {Internal Governance, Internal Treasury}) = Ok r \<and>
     vps_get_current_gas (vr_gas_used r) = Ok 101) \<and>
   (\<exists>r. execute_vps example_env example_ops example_runner Part
       (example_context {Internal Governance, Internal Treasury}) = Ok r \<and>
     vps_get_current_gas (vr_gas_used r) = Ok 10)"
  using vps_gas_depends_on_split [OF _ example_order example_accepts,
      of "example_context {Internal Governance, Internal Treasury}"]
  by (simp add: example_context_def PARALLEL_GAS_DIVIDER_def)

theorem execute_vps_split_independent_witness:
  "\<exists>r r'. execute_vps example_env example_ops example_runner single_parts
       (example_context {Internal Governance, Internal Treasury}) = Ok r \<and>
     execute_vps example_env example_ops example_runner Part
       (example_context {Internal Governance, Internal Treasury}) = Ok r' \<and>
     vr_accepted_vps r = vr_accepted_vps r'"
proof -
  let ?C = "example_context {Internal Governance, Internal Treasury}"
  have items: "sorted_list_of_set (cx_verifiers ?C) = [Internal Governance, Internal Treasury]"
    using example_order by (auto simp: example_context_def insort_key_def)
  have gas: "cx_initial_gas ?C = 0" by (simp add: example_context_def)
  obtain r where r: "execute_vps example_env example_ops example_runner single_parts ?C = Ok r"
    using vps_reduce_two_parts [OF example_accepts [of ?C]] gas by (auto simp: execute_vps_def items)
  obtain r' where r': "execute_vps example_env example_ops example_runner Part ?C = Ok r'"
    using vps_reduce_one_part [OF example_accepts [of ?C]] gas by (auto simp: execute_vps_def items)
  from execute_vps_split_independent [OF _ _ r r'] r r' show ?thesis
    by (simp add: split_items_single_parts)
qed

theorem failed_tx_leaks_witness:
  "\<exists>l' m r. apply_tx example_env example_ops example_runner Part (DecryptedTx (Decrypted (tx_new 0 ''bad'' None))) 0
       block_gas_meter_default write_log_default example_storage = (l', m, Err (TxRunnerError ''trap'')) \<and>
     wl_ibc_event (wl_drop_tx l') \<noteq> None \<and>
     snd (snd (apply_tx example_env example_ops example_runner Part (Wrapper example_wrapper) 0 m (wl_drop_tx l') example_storage)) = Ok r \<and>
     txr_gas_used r = 2 * BASE_TRANSACTION_FEE + 3 * COMPILE_GAS_PER_BYTE"
proof -
  let ?t = "tx_new 0 ''bad'' None" and ?R = "example_runner :: (_, _, _, nat) runner"
  let ?m0 = "\<lparr> block_gas = 0, transaction_gas = BASE_TRANSACTION_FEE \<rparr>"
  let ?m1 = "\<lparr> block_gas = 0, transaction_gas = BASE_TRANSACTION_FEE + 3 * COMPILE_GAS_PER_BYTE \<rparr>"
  let ?l = "write_log_default\<lparr> wl_ibc_event := Some \<lparr> event_type = ''e'', ev_attributes = [] \<rparr> \<rparr>"
  have m0: "add_base_transaction_fee block_gas_meter_default 0 = (?m0, Ok ())"
    by (simp add: add_base_transaction_fee_def block_gas_add_cases block_gas_meter_default_def gas_constants)
  have m1: "add_compiling_fee ?m0 (length (tx_code ?t)) = (?m1, Ok ())"
    by (simp add: add_compiling_fee_def block_gas_add_cases gas_constants tx_new_def)
  have run: "run_tx ?R example_storage write_log_default ?m1 (tx_code ?t) (case tx_data ?t of Some d \<Rightarrow> d | None \<Rightarrow> []) =
      (?l, ?m1, Err ''trap'')"
    by (simp add: example_runner_def tx_new_def)
  from failed_tx_leaks [OF m0 m1 run, of example_env example_ops Part example_wrapper 0] show ?thesis
    by (auto simp: gas_constants wl_drop_tx_def)
qed


lemma example_check_vps:
  assumes "transaction_gas m \<le> 1000000"
  shows "\<exists>vr. check_vps example_env example_ops example_runner Part t example_storage m
      (tx_insert write_log_default gov_key (Write ''1'')) {} =
    (m\<lparr> transaction_gas := transaction_gas m + 100 \<rparr>, Ok vr) \<and> vr_rejected_vps vr = {}"
proof -
  let ?l = "tx_insert write_log_default gov_key (Write ''1'')"
  define C where "C = (example_context {Internal Governance})\<lparr> cx_tx := t, cx_write_log := ?l, cx_initial_gas := transaction_gas m \<rparr>"
  have limit: "unat (cx_initial_gas C) + unat (100 :: u64) \<le> unat TRANSACTION_GAS_LIMIT"
    using assms by (simp add: C_def word_le_nat_alt)
  obtain vr where vr: "vps_reduce example_env example_ops example_runner C (Part [Internal Governance]) = Ok vr"
    "vr_gas_used vr = \<lparr> vps_max = Some 100, vps_rest = [] \<rparr>"
    using vps_reduce_single [OF example_accepts(1) limit] by blast
  have "vr_rejected_vps vr = {}"
    using vps_reduce_verdicts [OF vr(1)] example_accepts(1) [of C]
    by (auto simp: adds_verdicts_def vps_result_default_def verdict_def accepts_with_def)
  moreover have "verifiers_and_changed_keys ?l {} = ({Internal Governance}, {gov_key})"
    by (auto simp: verifiers_and_changed_keys_def wl_get_keys_def get_initialized_accounts_def tx_insert_def
        write_log_default_def find_addresses_def List.map_filter_def)
  moreover have "add_vps_gas m (vr_gas_used vr) = (m\<lparr> transaction_gas := transaction_gas m + 100 \<rparr>, Ok ())"
    using assms by (simp add: vr(2) add_vps_gas_def block_gas_add_cases word_le_nat_alt)
  ultimately show ?thesis
    using vr(1) by (simp add: check_vps_def execute_vps_def C_def example_context_def get_current_transaction_gas_def)
qed


end
