(* ===== verification/Shell.thy ===== *)
theory Shell
  imports Protocol
begin

text \<open>
  The requests of Tendermint to the ledger that prepare, check, execute and commit a block,
  \<^verbatim>\<open>apps/src/lib/node/ledger/shell\<close>, in the build for ABCI++. Wrapper transactions of one block are queued,
  and their decrypted payloads are transactions of the next block. The texts of results and the
  attributes of events other than the code and the gas are left out. A result \<^const>\<open>None\<close> is a panic.
\<close>

section \<open>State\<close>

datatype error_code =
  CodeOk | CodeInvalidTx | CodeInvalidSig | CodeWasmRuntimeError | CodeInvalidOrder | CodeExtraTxs | CodeUndecryptable

fun error_code_u32 :: "error_code \<Rightarrow> nat" where
  "error_code_u32 CodeOk = 0"
| "error_code_u32 CodeInvalidTx = 1"
| "error_code_u32 CodeInvalidSig = 2"
| "error_code_u32 CodeWasmRuntimeError = 3"
| "error_code_u32 CodeInvalidOrder = 4"
| "error_code_u32 CodeExtraTxs = 5"
| "error_code_u32 CodeUndecryptable = 6"

datatype shell_mode = Validator | Full | Seed

record ('d, 't, 'time) shell =
  sh_storage :: "('d, 't, 'time, wrapper_tx) storage"
  sh_gas_meter :: block_gas_meter
  sh_write_log :: write_log
  sh_mode :: shell_mode

text \<open>What the shell runs with: the backend, the code runner with the splitting of its threads, and encodings.\<close>

record ('e, 't, 'h, 's, 'time, 'd, 'b) shell_env =
  se_env :: "('e, 't, 'h, 's, 'time, wrapper_tx) node_env"
  se_ops :: "('d, 'b, 'e, 'h, 's, 'time, wrapper_tx) db_ops"
  se_runner :: "('d, 't, 'time, wrapper_tx) runner"
  se_rayon :: "address list \<Rightarrow> split"
  se_tx :: "'time tx_lib"
  se_dec_amount :: "string \<Rightarrow> amount option"

definition set_queue :: "('d, 't, 'time) shell \<Rightarrow> wrapper_tx tx_queue \<Rightarrow> ('d, 't, 'time) shell" where
  "set_queue sh q = sh\<lparr> sh_storage := (sh_storage sh)\<lparr> st_tx_queue := q \<rparr> \<rparr>"

definition sh_next_wrapper :: "('d, 't, 'time) shell \<Rightarrow> ('d, 't, 'time) shell \<times> wrapper_tx option" where
  "sh_next_wrapper sh = (case lazy_next (st_tx_queue (sh_storage sh)) of (q, w) \<Rightarrow> (set_queue sh q, w))"

definition reset_tx_queue_iter :: "('d, 't, 'time) shell \<Rightarrow> ('d, 't, 'time) shell" where
  "reset_tx_queue_iter sh = set_queue sh (tx_queue_rewind (st_tx_queue (sh_storage sh)))"

definition last_state ::
  "('e, 't, 'h, 's, 'time, 'd, 'b) shell_env \<Rightarrow> ('d, 't, 'time) shell \<Rightarrow> ('h \<times> u64) option" where
  "last_state V sh = get_state (se_env V) (sh_storage sh)"

section \<open>Queries\<close>

definition read_storage_key_bytes ::
  "('e, 't, 'h, 's, 'time, 'd, 'b) shell_env \<Rightarrow> ('d, 't, 'time) shell \<Rightarrow> key \<Rightarrow> string option option" where
  "read_storage_key_bytes V sh k =
     (case storage_read (se_env V) (se_ops V) (sh_storage sh) k of
        Ok (bytes, _) \<Rightarrow> Some bytes
      | Err _ \<Rightarrow> Some None
      | Panic \<Rightarrow> None)"

text \<open>\<^verbatim>\<open>read_storage_value\<close> without a proof: the code of the response and the value.\<close>

definition read_storage_value ::
  "('e, 't, 'h, 's, 'time, 'd, 'b) shell_env \<Rightarrow> ('d, 't, 'time) shell \<Rightarrow> key \<Rightarrow> block_height \<Rightarrow> (nat \<times> string) option" where
  "read_storage_value V sh k height =
     (case storage_read_with_height (se_env V) (se_ops V) (sh_storage sh) k height of
        Ok (Some bytes, _) \<Rightarrow> Some (0, bytes)
      | Ok (None, _) \<Rightarrow> Some (1, [])
      | Err _ \<Rightarrow> Some (2, [])
      | Panic \<Rightarrow> None)"

text \<open>The balance, if there is one and it can be read.\<close>

definition get_balance ::
  "('e, 't, 'h, 's, 'time, 'd, 'b) shell_env \<Rightarrow> ('d, 't, 'time) shell \<Rightarrow> address \<Rightarrow> address \<Rightarrow> amount option option" where
  "get_balance V sh token owner =
     Option.bind (balance_key (ne_bech32 (se_env V)) token owner) (\<lambda>k.
     Option.bind (read_storage_value V sh k (fst (get_block_height (sh_storage sh)))) (\<lambda>(code, bytes).
       Some (if code \<noteq> 0 then None else se_dec_amount V bytes)))"

section \<open>Checking a proposal\<close>

definition process_wrapper ::
  "('e, 't, 'h, 's, 'time, 'd, 'b) shell_env \<Rightarrow> ('d, 't, 'time) shell \<Rightarrow> wrapper_tx \<Rightarrow> error_code option" where
  "process_wrapper V sh w =
     (if \<not> validate_ciphertext (se_tx V) w then Some CodeInvalidTx
      else map_option (\<lambda>found.
        (let balance = (case found of Some b \<Rightarrow> b | None \<Rightarrow> 0)
         in if fee_amount (wr_fee w) \<le> balance then CodeOk else CodeInvalidTx))
        (get_balance V sh (fee_token (wr_fee w)) (fee_payer (se_tx V) w)))"

definition process_single_tx ::
  "('e, 't, 'h, 's, 'time, 'd, 'b) shell_env \<Rightarrow> ('d, 't, 'time) shell \<Rightarrow> string
     \<Rightarrow> (('d, 't, 'time) shell \<times> error_code) option" where
  "process_single_tx V sh tx_bytes =
     (case tx_try_from (se_tx V) tx_bytes of
        Ok t \<Rightarrow>
          (case process_tx (se_tx V) t of
             Ok (Raw _) \<Rightarrow> Some (sh, CodeInvalidTx)
           | Ok (Protocol _) \<Rightarrow> Some (sh, CodeInvalidTx)
           | Ok (DecryptedTx d) \<Rightarrow>
               (case sh_next_wrapper sh of
                  (sh', Some w) \<Rightarrow>
                    Some (sh', if wr_tx_hash w \<noteq> hash_commitment (se_tx V) d then CodeInvalidOrder
                               else if verify_decrypted_correctly (se_tx V) d then CodeOk
                               else CodeInvalidTx)
                | (sh', None) \<Rightarrow> Some (sh', CodeExtraTxs))
           | Ok (Wrapper w) \<Rightarrow> map_option (Pair sh) (process_wrapper V sh w)
           | _ \<Rightarrow> Some (sh, CodeInvalidSig))
      | _ \<Rightarrow> Some (sh, CodeInvalidTx))"

fun process_txs ::
  "('e, 't, 'h, 's, 'time, 'd, 'b) shell_env \<Rightarrow> ('d, 't, 'time) shell \<Rightarrow> string list
     \<Rightarrow> (('d, 't, 'time) shell \<times> error_code list) option" where
  "process_txs V sh [] = Some (sh, [])"
| "process_txs V sh (tx_bytes # txs) =
     Option.bind (process_single_tx V sh tx_bytes) (\<lambda>(sh', code).
       map_option (\<lambda>(sh'', codes). (sh'', code # codes)) (process_txs V sh' txs))"

text \<open>\<^verbatim>\<open>process_proposal\<close>: whether the proposal is accepted, and the codes of its transactions.\<close>

definition process_proposal ::
  "('e, 't, 'h, 's, 'time, 'd, 'b) shell_env \<Rightarrow> ('d, 't, 'time) shell \<Rightarrow> string list
     \<Rightarrow> (('d, 't, 'time) shell \<times> bool \<times> error_code list) option" where
  "process_proposal V sh txs =
     map_option (\<lambda>(sh', codes). (sh', \<not> list_ex (\<lambda>code. error_code_u32 code > 3) codes, codes)) (process_txs V sh txs)"

section \<open>Preparing a proposal\<close>

datatype tx_action = Unmodified | Added | Removed

definition keep_wrapper :: "'time tx_lib \<Rightarrow> string \<Rightarrow> tx_action \<times> string" where
  "keep_wrapper L tx_bytes =
     (case tx_try_from L tx_bytes of
        Ok t \<Rightarrow> (case process_tx L t of Ok (Wrapper _) \<Rightarrow> (Unmodified, tx_bytes) | _ \<Rightarrow> (Removed, tx_bytes))
      | _ \<Rightarrow> (Removed, tx_bytes))"

text \<open>The clock gives every decrypted transaction a time.\<close>

fun decrypt_queue :: "'time tx_lib \<Rightarrow> (nat \<Rightarrow> 'time) \<Rightarrow> nat \<Rightarrow> wrapper_tx list \<Rightarrow> string list" where
  "decrypt_queue L clock n [] = []"
| "decrypt_queue L clock n (w # ws) =
     tx_to_bytes L (decrypted_into_tx L (clock n)
       (case wrapper_decrypt L w of Ok t \<Rightarrow> Decrypted t | _ \<Rightarrow> Undecryptable w)) # decrypt_queue L clock (n + 1) ws"

definition prepare_proposal ::
  "('e, 't, 'h, 's, 'time, 'd, 'b) shell_env \<Rightarrow> (nat \<Rightarrow> 'time) \<Rightarrow> ('d, 't, 'time) shell \<Rightarrow> string list
     \<Rightarrow> ('d, 't, 'time) shell \<times> (tx_action \<times> string) list" where
  "prepare_proposal V clock sh txs =
     (sh\<lparr> sh_gas_meter := block_gas_reset (sh_gas_meter sh) \<rparr>,
      if sh_mode sh = Validator then
        (let number_of_new_txs = 1 + length txs div 2
         in map (keep_wrapper (se_tx V)) (take number_of_new_txs txs) @
            map (Pair Added) (decrypt_queue (se_tx V) clock 0 (wrapper_queue (st_tx_queue (sh_storage sh)))))
      else [])"

section \<open>Executing a block\<close>

datatype block_event = TxEvent error_code u64 | IbcTxEvent ibc_event

text \<open>The result of a transaction: the log is committed or dropped.\<close>

definition finalize_result ::
  "('d, 't, 'time) shell \<Rightarrow> error_code option \<Rightarrow> write_log \<times> block_gas_meter \<times> ('e tx_result, 'e protocol_error) outcome
     \<Rightarrow> (('d, 't, 'time) shell \<times> block_event list) option" where
  "finalize_result sh code res =
     (case res of
        (l, m, Ok r) \<Rightarrow>
          (if is_accepted r then
             Some (sh\<lparr> sh_write_log := wl_commit_tx l, sh_gas_meter := m \<rparr>,
               (case txr_ibc_event r of Some ev \<Rightarrow> [IbcTxEvent ev] | None \<Rightarrow> []) @
               [TxEvent (case code of None \<Rightarrow> CodeOk | Some c \<Rightarrow> c) (txr_gas_used r)])
           else Some (sh\<lparr> sh_write_log := wl_drop_tx l, sh_gas_meter := m \<rparr>, [TxEvent CodeInvalidTx (txr_gas_used r)]))
      | (l, m, Err _) \<Rightarrow>
          Some (sh\<lparr> sh_write_log := wl_drop_tx l, sh_gas_meter := m \<rparr>,
            [TxEvent CodeWasmRuntimeError (get_current_transaction_gas m)])
      | (l, m, Panic) \<Rightarrow> None)"

definition queue_pop :: "('d, 't, 'time) shell \<Rightarrow> ('d, 't, 'time) shell" where
  "queue_pop sh = set_queue sh (fst (tx_queue_pop (st_tx_queue (sh_storage sh))))"

definition queue_push :: "('d, 't, 'time) shell \<Rightarrow> wrapper_tx \<Rightarrow> ('d, 't, 'time) shell" where
  "queue_push sh w = set_queue sh (tx_queue_push (st_tx_queue (sh_storage sh)) w)"

definition finalize_apply ::
  "('e, 't, 'h, 's, 'time, 'd, 'b) shell_env \<Rightarrow> ('d, 't, 'time) shell \<Rightarrow> 'time tx_type \<Rightarrow> nat \<Rightarrow> error_code option
     \<Rightarrow> (('d, 't, 'time) shell \<times> block_event list) option" where
  "finalize_apply V sh ty tx_length code =
     finalize_result sh code
       (apply_tx (se_env V) (se_ops V) (se_runner V) (se_rayon V) ty tx_length (sh_gas_meter sh) (sh_write_log sh) (sh_storage sh))"

definition is_signed_type :: "('time tx_type, tx_error) outcome \<Rightarrow> bool" where
  "is_signed_type ty = (case ty of Ok (Wrapper _) \<Rightarrow> True | Ok (Protocol _) \<Rightarrow> True | _ \<Rightarrow> False)"

text \<open>One transaction of \<^verbatim>\<open>finalize_block\<close>, with its code from \<^verbatim>\<open>process_proposal\<close>.\<close>

definition finalize_tx ::
  "('e, 't, 'h, 's, 'time, 'd, 'b) shell_env \<Rightarrow> ('d, 't, 'time) shell \<Rightarrow> string \<times> error_code
     \<Rightarrow> (('d, 't, 'time) shell \<times> block_event list) option" where
  "finalize_tx V sh processed =
     (let (tx_bytes, code) = processed
      in case tx_try_from (se_tx V) tx_bytes of
           Ok t \<Rightarrow>
             (if code = CodeInvalidSig then
                Some (sh, if is_signed_type (process_tx (se_tx V) t) \<or> is_signed_type (tx_type_try_from (se_tx V) t)
                          then [TxEvent code 0] else [])
              else case process_tx (se_tx V) t of
                Ok ty \<Rightarrow>
                  (if code \<noteq> CodeOk then
                     Some (case ty of DecryptedTx _ \<Rightarrow> queue_pop sh | _ \<Rightarrow> sh, [TxEvent code 0])
                   else case ty of
                     Wrapper w \<Rightarrow> finalize_apply V (queue_push sh w) ty (length tx_bytes) None
                   | DecryptedTx d \<Rightarrow>
                       finalize_apply V (queue_pop sh) ty (length tx_bytes)
                         (case d of Undecryptable _ \<Rightarrow> Some CodeUndecryptable | Decrypted _ \<Rightarrow> None)
                   | Raw _ \<Rightarrow> Some (sh, [])
                   | Protocol _ \<Rightarrow> Some (sh, []))
              | _ \<Rightarrow> Some (sh, []))
         | _ \<Rightarrow> Some (sh, []))"

fun finalize_txs_loop ::
  "('e, 't, 'h, 's, 'time, 'd, 'b) shell_env \<Rightarrow> ('d, 't, 'time) shell \<Rightarrow> (string \<times> error_code) list
     \<Rightarrow> (('d, 't, 'time) shell \<times> block_event list) option" where
  "finalize_txs_loop V sh [] = Some (sh, [])"
| "finalize_txs_loop V sh (tx # txs) =
     Option.bind (finalize_tx V sh tx) (\<lambda>(sh', events).
       map_option (\<lambda>(sh'', events'). (sh'', events @ events')) (finalize_txs_loop V sh' txs))"

text \<open>The transactions of \<^verbatim>\<open>finalize_block\<close>, up to the reset of the queue.\<close>

definition finalize_txs ::
  "('e, 't, 'h, 's, 'time, 'd, 'b) shell_env \<Rightarrow> ('d, 't, 'time) shell \<Rightarrow> (string \<times> error_code) list
     \<Rightarrow> (('d, 't, 'time) shell \<times> block_event list) option" where
  "finalize_txs V sh txs = map_option (\<lambda>(sh', events). (reset_tx_queue_iter sh', events)) (finalize_txs_loop V sh txs)"

section \<open>Committing, the mempool and dry runs\<close>

definition shell_commit ::
  "('e, 't, 'h, 's, 'time, 'd, 'b) shell_env \<Rightarrow> ('d, 't, 'time) shell \<Rightarrow> (('d, 't, 'time) shell \<times> 'h) option" where
  "shell_commit V sh =
     (case commit_block (se_env V) (se_ops V) (sh_write_log sh) (sh_storage sh) of
        Ok (l, s) \<Rightarrow>
          (let finish = (\<lambda>s. Some (sh\<lparr> sh_write_log := l, sh_storage := s \<rparr>, merkle_root (se_env V) s))
           in case storage_commit (se_env V) (se_ops V) s of
                Ok s' \<Rightarrow> finish s'
              | Err _ \<Rightarrow> finish s
              | Panic \<Rightarrow> None)
      | _ \<Rightarrow> None)"

definition mempool_validate :: "('e, 't, 'h, 's, 'time, 'd, 'b) shell_env \<Rightarrow> string \<Rightarrow> nat" where
  "mempool_validate V tx_bytes = (case tx_try_from (se_tx V) tx_bytes of Ok _ \<Rightarrow> 0 | _ \<Rightarrow> 1)"

definition dry_run_tx ::
  "('e, 't, 'h, 's, 'time, 'd, 'b) shell_env \<Rightarrow> ('d, 't, 'time) shell \<Rightarrow> string
     \<Rightarrow> (nat \<times> 'e tx_result option, 'e protocol_error) outcome" where
  "dry_run_tx V sh tx_bytes =
     (case tx_try_from (se_tx V) tx_bytes of
        Ok t \<Rightarrow>
          (case snd (snd (apply_tx (se_env V) (se_ops V) (se_runner V) (se_rayon V) (DecryptedTx (Decrypted t))
                   (length tx_bytes) block_gas_meter_default write_log_default (sh_storage sh))) of
             Ok r \<Rightarrow> Ok (0, Some r)
           | Err _ \<Rightarrow> Ok (1, None)
           | Panic \<Rightarrow> Panic)
      | _ \<Rightarrow> Ok (1, None))"

section \<open>The queue of wrappers\<close>

abbreviation sh_queue :: "('d, 't, 'time) shell \<Rightarrow> wrapper_tx tx_queue" where
  "sh_queue sh \<equiv> st_tx_queue (sh_storage sh)"

lemma set_queue_simps [simp]:
  "sh_queue (set_queue sh q) = q" "set_queue (set_queue sh q) q' = set_queue sh q'" "set_queue sh (sh_queue sh) = sh"
  by (simp_all add: set_queue_def)

text \<open>The code that \<^const>\<open>process_single_tx\<close> gives to what the validator decrypted.\<close>

definition decrypted_code :: "'time tx_lib \<Rightarrow> wrapper_tx \<Rightarrow> error_code" where
  "decrypted_code L w = (if canonical_payload L w then CodeOk else CodeInvalidOrder)"

lemma decrypt_queue_Cons:
  "decrypt_queue L clock n (w # ws) =
     tx_to_bytes L (decrypted_into_tx L (clock n) (decrypt_wrapper L w)) # decrypt_queue L clock (n + 1) ws"
  by (simp add: decrypt_wrapper_def)

lemma process_decrypted_tx:
  assumes laws: "tx_laws (se_tx V)" and nxt: "next_wrapper (sh_queue sh) < length (wrapper_queue (sh_queue sh))"
    and w: "w = wrapper_queue (sh_queue sh) ! next_wrapper (sh_queue sh)"
  shows "process_single_tx V sh (tx_to_bytes (se_tx V) (decrypted_into_tx (se_tx V) now (decrypt_wrapper (se_tx V) w))) =
    Some (set_queue sh ((sh_queue sh)\<lparr> next_wrapper := next_wrapper (sh_queue sh) + 1 \<rparr>), decrypted_code (se_tx V) w)"
  using nxt decrypt_wrapper_correct(1) [of "se_tx V" w]
  by (simp add: process_single_tx_def tx_try_from_to_bytes [OF laws] process_decrypted [OF laws] sh_next_wrapper_def
      lazy_next_def vec_get_def w [symmetric] decrypted_code_def decrypt_wrapper_correct(2) Let_def)

lemma process_decrypted_queue:
  assumes laws: "tx_laws (se_tx V)"
  shows "wrapper_queue (sh_queue sh) = pre @ ws \<Longrightarrow> next_wrapper (sh_queue sh) = length pre \<Longrightarrow>
    process_txs V sh (decrypt_queue (se_tx V) clock n ws) =
      Some (set_queue sh ((sh_queue sh)\<lparr> next_wrapper := length pre + length ws \<rparr>), map (decrypted_code (se_tx V)) ws)"
proof (induct ws arbitrary: sh pre n)
  case Nil
  have "(sh_queue sh)\<lparr> next_wrapper := length pre \<rparr> = sh_queue sh" using Nil by simp
  then show ?case by simp
next
  case (Cons w ws)
  let ?sh = "set_queue sh ((sh_queue sh)\<lparr> next_wrapper := next_wrapper (sh_queue sh) + 1 \<rparr>)"
  have one: "process_single_tx V sh (tx_to_bytes (se_tx V) (decrypted_into_tx (se_tx V) (clock n) (decrypt_wrapper (se_tx V) w))) =
      Some (?sh, decrypted_code (se_tx V) w)"
    using Cons.prems by (intro process_decrypted_tx [OF laws]) simp_all
  have "process_txs V ?sh (decrypt_queue (se_tx V) clock (n + 1) ws) =
      Some (set_queue ?sh ((sh_queue ?sh)\<lparr> next_wrapper := length (pre @ [w]) + length ws \<rparr>), map (decrypted_code (se_tx V)) ws)"
    using Cons.prems by (intro Cons.hyps) simp_all
  with one show ?case by (simp add: decrypt_queue_Cons del: decrypt_queue.simps)
qed

lemma process_txs_append:
  "process_txs V sh (xs @ ys) =
     Option.bind (process_txs V sh xs) (\<lambda>(sh', codes).
       map_option (\<lambda>(sh'', codes'). (sh'', codes @ codes')) (process_txs V sh' ys))"
proof (induct xs arbitrary: sh)
  case Nil
  then show ?case by (simp add: option.map_ident_strong)
next
  case (Cons x xs)
  show ?case
  proof (cases "process_single_tx V sh x")
    case (Some p)
    show ?thesis
    proof (cases "process_txs V (fst p) xs")
      case (Some q)
      then show ?thesis
        using \<open>process_single_tx V sh x = Some p\<close>
        by (cases "process_txs V (fst q) ys") (simp_all add: Cons split_beta)
    qed (use Some in \<open>simp add: Cons split_beta\<close>)
  qed simp
qed

lemma process_kept:
  assumes safe: "\<forall>w. get_balance V sh (fee_token (wr_fee w)) (fee_payer (se_tx V) w) \<noteq> None"
    and kept: "\<forall>b\<in>set txs. keep_wrapper (se_tx V) b = (Unmodified, b)"
  shows "\<exists>codes. process_txs V sh txs = Some (sh, codes) \<and> length codes = length txs \<and> set codes \<subseteq> {CodeOk, CodeInvalidTx}"
  using kept
proof (induct txs)
  case Nil
  then show ?case by simp
next
  case (Cons b txs)
  then obtain t w where t: "tx_try_from (se_tx V) b = Ok t" "process_tx (se_tx V) t = Ok (Wrapper w)"
    by (auto simp: keep_wrapper_def split: outcome.splits tx_type.splits)
  obtain balance where "get_balance V sh (fee_token (wr_fee w)) (fee_payer (se_tx V) w) = Some balance"
    using safe by blast
  then have "\<exists>c. process_wrapper V sh w = Some c \<and> c \<in> {CodeOk, CodeInvalidTx}"
    by (simp add: process_wrapper_def Let_def)
  with Cons t show ?case by (auto simp: process_single_tx_def)
qed

lemma balance_key_total:
  assumes "bech32_laws lib" "address_wf owner"
  shows "balance_key lib token owner = Some (Key [AddressSeg token, StringSeg BALANCE_STORAGE_KEY, AddressSeg owner])"
proof -
  obtain raw where "address_encode lib owner = Some raw" "address_decode lib raw = Ok owner" "CHR ''/'' \<notin> set raw"
    using address_decode_encode [OF assms] by blast
  then show ?thesis
    by (simp add: balance_key_def key_push_def db_key_seg_raw_def db_key_seg_parse_def key_constants key_from_seg_def
        BALANCE_STORAGE_KEY_def)
qed

lemma get_balance_total:
  assumes "bech32_laws (ne_bech32 (se_env V))" "tx_laws (se_tx V)"
    and "\<forall>k. storage_read (se_env V) (se_ops V) (sh_storage sh) k \<noteq> Panic"
  shows "get_balance V sh token (fee_payer (se_tx V) w) \<noteq> None"
proof -
  have "address_wf (fee_payer (se_tx V) w)"
    using assms(2) by (simp add: fee_payer_def tx_laws_def)
  from balance_key_total [OF assms(1) this] assms(3) show ?thesis
    by (auto simp: get_balance_def read_storage_value_def storage_read_with_height_def get_block_height_def
        split: outcome.splits option.splits)
qed

section \<open>A prepared block\<close>

text \<open>The transactions that Tendermint puts into the block: those that the records do not remove.\<close>

definition proposed_txs :: "(tx_action \<times> string) list \<Rightarrow> string list" where
  "proposed_txs records = map snd (filter (\<lambda>r. fst r \<noteq> Removed) records)"

definition kept_txs :: "'time tx_lib \<Rightarrow> string list \<Rightarrow> string list" where
  "kept_txs L txs = filter (\<lambda>b. keep_wrapper L b = (Unmodified, b)) (take (1 + length txs div 2) txs)"

lemma keep_wrapper_cases: "keep_wrapper L b = (Unmodified, b) \<or> keep_wrapper L b = (Removed, b)"
  by (simp add: keep_wrapper_def split: outcome.splits tx_type.splits)

lemma proposed_txs_prepare:
  assumes "sh_mode sh = Validator"
  shows "proposed_txs (snd (prepare_proposal V clock sh txs)) =
    kept_txs (se_tx V) txs @ decrypt_queue (se_tx V) clock 0 (wrapper_queue (sh_queue sh))"
proof -
  have "map snd (filter (\<lambda>r. fst r \<noteq> Removed) (map (keep_wrapper L) bs)) = filter (\<lambda>b. keep_wrapper L b = (Unmodified, b)) bs"
    for L :: "'c tx_lib" and bs
    using keep_wrapper_cases [of L] by (induct bs) fastforce+
  then show ?thesis
    using assms by (simp add: proposed_txs_def prepare_proposal_def kept_txs_def filter_map comp_def)
qed

lemma process_prepared:
  assumes laws: "tx_laws (se_tx V)" and mode: "sh_mode sh = Validator" and rewound: "next_wrapper (sh_queue sh) = 0"
    and safe: "\<forall>w. get_balance V sh (fee_token (wr_fee w)) (fee_payer (se_tx V) w) \<noteq> None"
  shows "\<exists>codes. set codes \<subseteq> {CodeOk, CodeInvalidTx} \<and> length codes = length (kept_txs (se_tx V) txs) \<and>
    process_txs V sh (proposed_txs (snd (prepare_proposal V clock sh txs))) =
      Some (set_queue sh ((sh_queue sh)\<lparr> next_wrapper := length (wrapper_queue (sh_queue sh)) \<rparr>),
        codes @ map (decrypted_code (se_tx V)) (wrapper_queue (sh_queue sh)))"
proof -
  obtain codes where codes: "process_txs V sh (kept_txs (se_tx V) txs) = Some (sh, codes)"
    "length codes = length (kept_txs (se_tx V) txs)" "set codes \<subseteq> {CodeOk, CodeInvalidTx}"
    using process_kept [OF safe, of "kept_txs (se_tx V) txs"] by (auto simp: kept_txs_def)
  show ?thesis
    using codes process_decrypted_queue [OF laws, of sh "[]" "wrapper_queue (sh_queue sh)" clock 0] rewound
    by (simp add: proposed_txs_prepare [OF mode] process_txs_append)
qed

section \<open>Executing a prepared block\<close>

lemma finalize_apply_storage:
  "finalize_apply V sh ty n code = Some (sh', events) \<Longrightarrow> sh_storage sh' = sh_storage sh"
  by (auto simp: finalize_apply_def finalize_result_def split: prod.splits outcome.splits if_splits)

text \<open>The wrappers of the transactions of a block that were accepted.\<close>

fun accepted_wrapper :: "'time tx_lib \<Rightarrow> string \<times> error_code \<Rightarrow> wrapper_tx list" where
  "accepted_wrapper L (b, code) =
     (if code = CodeOk
      then case tx_try_from L b of Ok t \<Rightarrow> (case process_tx L t of Ok (Wrapper w) \<Rightarrow> [w] | _ \<Rightarrow> []) | _ \<Rightarrow> []
      else [])"

definition accepted_wrappers :: "'time tx_lib \<Rightarrow> (string \<times> error_code) list \<Rightarrow> wrapper_tx list" where
  "accepted_wrappers L processed = concat (map (accepted_wrapper L) processed)"

lemma finalize_kept_tx:
  assumes "keep_wrapper (se_tx V) b = (Unmodified, b)" "code \<in> {CodeOk, CodeInvalidTx}"
    and "finalize_tx V sh (b, code) = Some (sh', events)"
  shows "wrapper_queue (sh_queue sh') = wrapper_queue (sh_queue sh) @ accepted_wrapper (se_tx V) (b, code)"
proof -
  obtain t w where t: "tx_try_from (se_tx V) b = Ok t" "process_tx (se_tx V) t = Ok (Wrapper w)"
    using assms(1) by (auto simp: keep_wrapper_def split: outcome.splits tx_type.splits)
  show ?thesis
    using assms(2,3) t by (auto simp: finalize_tx_def queue_push_def tx_queue_push_def dest!: finalize_apply_storage)
qed

lemma finalize_kept:
  assumes "\<forall>b\<in>set txs. keep_wrapper (se_tx V) b = (Unmodified, b)" "set codes \<subseteq> {CodeOk, CodeInvalidTx}"
    and "finalize_txs_loop V sh (zip txs codes) = Some (sh', events)"
  shows "wrapper_queue (sh_queue sh') = wrapper_queue (sh_queue sh) @ accepted_wrappers (se_tx V) (zip txs codes)"
  using assms
proof (induct txs arbitrary: codes sh events)
  case Nil
  then show ?case by (simp add: accepted_wrappers_def)
next
  case (Cons b txs)
  show ?case
  proof (cases codes)
    case Nil
    then show ?thesis using Cons.prems by (simp add: accepted_wrappers_def)
  next
    case (Cons c cs)
    then obtain sh1 ev1 ev2 where sh1: "finalize_tx V sh (b, c) = Some (sh1, ev1)"
      "finalize_txs_loop V sh1 (zip txs cs) = Some (sh', ev2)"
      using Cons.prems(3) by (auto simp: bind_eq_Some_conv)
    show ?thesis
      using finalize_kept_tx [OF _ _ sh1(1)] Cons.hyps [OF _ _ sh1(2)] Cons.prems(1,2) Cons
      by (simp add: accepted_wrappers_def)
  qed
qed

lemma finalize_decrypted_queue:
  assumes laws: "tx_laws (se_tx V)"
  shows "wrapper_queue (sh_queue sh) = ws @ rest \<Longrightarrow>
    finalize_txs_loop V sh (zip (decrypt_queue (se_tx V) clock n ws) (replicate (length ws) CodeOk)) = Some (sh', events) \<Longrightarrow>
    wrapper_queue (sh_queue sh') = rest"
proof (induct ws arbitrary: sh n events)
  case Nil
  then show ?case by simp
next
  case (Cons w ws)
  let ?b = "tx_to_bytes (se_tx V) (decrypted_into_tx (se_tx V) (clock n) (decrypt_wrapper (se_tx V) w))"
  obtain sh1 ev1 ev2 where sh1: "finalize_tx V sh (?b, CodeOk) = Some (sh1, ev1)"
    "finalize_txs_loop V sh1 (zip (decrypt_queue (se_tx V) clock (n + 1) ws) (replicate (length ws) CodeOk)) = Some (sh', ev2)"
    using Cons.prems(2) by (auto simp: decrypt_queue_Cons bind_eq_Some_conv simp del: decrypt_queue.simps)
  have "wrapper_queue (sh_queue sh1) = ws @ rest"
    using sh1(1) Cons.prems(1)
    by (auto simp: finalize_tx_def tx_try_from_to_bytes [OF laws] process_decrypted [OF laws] queue_pop_def
        tx_queue_pop_def dest!: finalize_apply_storage)
  from Cons.hyps [OF this sh1(2)] show ?case .
qed

lemma finalize_txs_loop_append:
  "finalize_txs_loop V sh (xs @ ys) =
     Option.bind (finalize_txs_loop V sh xs) (\<lambda>(sh', events).
       map_option (\<lambda>(sh'', events'). (sh'', events @ events')) (finalize_txs_loop V sh' ys))"
proof (induct xs arbitrary: sh)
  case Nil
  then show ?case by (simp add: option.map_ident_strong)
next
  case (Cons x xs)
  show ?case
  proof (cases "finalize_tx V sh x")
    case (Some p)
    show ?thesis
    proof (cases "finalize_txs_loop V (fst p) xs")
      case (Some q)
      then show ?thesis
        using \<open>finalize_tx V sh x = Some p\<close>
        by (cases "finalize_txs_loop V (fst q) ys") (simp_all add: Cons split_beta)
    qed (use Some in \<open>simp add: Cons split_beta\<close>)
  qed simp
qed

lemma accepted_wrappers_decrypted:
  "tx_laws L \<Longrightarrow> accepted_wrappers L (zip (decrypt_queue L clock n ws) codes) = []"
proof (induct ws arbitrary: n codes)
  case Nil
  then show ?case by (simp add: accepted_wrappers_def)
next
  case (Cons w ws)
  then show ?case
    by (cases codes) (simp_all add: accepted_wrappers_def decrypt_queue_Cons tx_try_from_to_bytes process_decrypted
        del: decrypt_queue.simps)
qed

lemma length_decrypt_queue [simp]: "length (decrypt_queue L clock n ws) = length ws"
  by (induct ws arbitrary: n) simp_all

text \<open>
  Claim C9. Encrypted transactions make progress. A validator whose queue is rewound prepares a proposal for
  any transactions of the mempool; a node with the same queue accepts it, and once the block is executed,
  the queue holds exactly the wrappers that were accepted in this block, in order, and is rewound: every
  wrapper of the previous block has been decrypted and taken out. It is required that the payloads in
  the queue are canonical encodings.
\<close>

theorem prepared_block_progress:
  assumes "tx_laws (se_tx V)" "bech32_laws (ne_bech32 (se_env V))"
    and "\<forall>k. storage_read (se_env V) (se_ops V) (sh_storage sh) k \<noteq> Panic"
    and "sh_mode sh = Validator" "next_wrapper (sh_queue sh) = 0"
    and "\<forall>w\<in>set (wrapper_queue (sh_queue sh)). canonical_payload (se_tx V) w"
    and "block = proposed_txs (snd (prepare_proposal V clock sh txs))"
  shows "\<exists>sh' codes. process_proposal V sh block = Some (sh', True, codes) \<and>
    (\<forall>sh'' events. finalize_txs V sh' (zip block codes) = Some (sh'', events) \<longrightarrow>
       sh_queue sh'' = \<lparr> next_wrapper = 0, wrapper_queue = accepted_wrappers (se_tx V) (zip block codes) \<rparr>)"
proof -
  let ?L = "se_tx V" and ?ws = "wrapper_queue (sh_queue sh)"
  let ?sh = "set_queue sh ((sh_queue sh)\<lparr> next_wrapper := length ?ws \<rparr>)" and ?kept = "kept_txs (se_tx V) txs"
  have safe: "\<forall>w. get_balance V sh (fee_token (wr_fee w)) (fee_payer ?L w) \<noteq> None"
    using get_balance_total [OF assms(2,1,3)] by blast
  have ok: "map (decrypted_code ?L) ?ws = replicate (length ?ws) CodeOk"
    using assms(6) by (simp add: decrypted_code_def map_replicate_const [symmetric])
  obtain codes where codes: "set codes \<subseteq> {CodeOk, CodeInvalidTx}" "length codes = length ?kept"
    "process_txs V sh block = Some (?sh, codes @ replicate (length ?ws) CodeOk)"
    using process_prepared [OF assms(1,4,5) safe, of txs clock] by (auto simp: ok assms(7))
  have block: "zip block (codes @ replicate (length ?ws) CodeOk) =
      zip ?kept codes @ zip (decrypt_queue ?L clock 0 ?ws) (replicate (length ?ws) CodeOk)"
    using codes(2) by (simp add: assms(7) proposed_txs_prepare [OF assms(4)])
  have "process_proposal V sh block = Some (?sh, True, codes @ replicate (length ?ws) CodeOk)"
    using codes(1,3) by (auto simp: process_proposal_def list_ex_iff)
  moreover have "sh_queue sh'' = \<lparr> next_wrapper = 0, wrapper_queue = accepted_wrappers ?L (zip block (codes @ replicate (length ?ws) CodeOk)) \<rparr>"
    if fin: "finalize_txs V ?sh (zip block (codes @ replicate (length ?ws) CodeOk)) = Some (sh'', events)" for sh'' events
  proof -
    obtain sh1 ev1 sh2 ev2 where sh1: "finalize_txs_loop V ?sh (zip ?kept codes) = Some (sh1, ev1)"
      and sh2: "finalize_txs_loop V sh1 (zip (decrypt_queue ?L clock 0 ?ws) (replicate (length ?ws) CodeOk)) = Some (sh2, ev2)"
      and sh'': "sh'' = reset_tx_queue_iter sh2"
      using fin by (auto simp: finalize_txs_def block finalize_txs_loop_append bind_eq_Some_conv)
    have "wrapper_queue (sh_queue sh1) = ?ws @ accepted_wrappers ?L (zip ?kept codes)"
      using finalize_kept [OF _ codes(1) sh1] by (simp add: kept_txs_def)
    from finalize_decrypted_queue [OF assms(1) this sh2] show ?thesis
      using accepted_wrappers_decrypted [OF assms(1)]
      by (simp add: sh'' reset_tx_queue_iter_def tx_queue_rewind_def block) (simp add: accepted_wrappers_def)
  qed
  ultimately show ?thesis by blast
qed

lemma storage_read_queue: "storage_read E ops (s\<lparr> st_tx_queue := q \<rparr>) k = storage_read E ops s k"
  by (simp add: storage_read_def storage_has_key_def cong: if_cong)

lemma get_balance_set_queue [simp]: "get_balance V (set_queue sh q) token owner = get_balance V sh token owner"
  by (simp add: get_balance_def read_storage_value_def storage_read_with_height_def storage_read_queue
      get_block_height_def set_queue_def)

lemma process_extra_txs:
  assumes laws: "tx_laws (se_tx V)" and nxt: "length (wrapper_queue (sh_queue sh)) \<le> next_wrapper (sh_queue sh)"
  shows "process_txs V sh (decrypt_queue (se_tx V) clock n ws) = Some (sh, replicate (length ws) CodeExtraTxs)"
proof (induct ws arbitrary: n)
  case Nil
  then show ?case by simp
next
  case (Cons w ws)
  have "process_single_tx V sh (tx_to_bytes (se_tx V) (decrypted_into_tx (se_tx V) (clock n) (decrypt_wrapper (se_tx V) w))) =
      Some (sh, CodeExtraTxs)"
    using nxt by (simp add: process_single_tx_def tx_try_from_to_bytes [OF laws] process_decrypted [OF laws]
        sh_next_wrapper_def lazy_next_def vec_get_def Let_def)
  with Cons show ?case by (simp add: decrypt_queue_Cons del: decrypt_queue.simps)
qed

text \<open>
  Claim C40. Two ways in which a block of an honest validator is rejected. A payload in the queue that decrypts
  but is not a canonical encoding makes every prepared block rejected, because the commitment to the
  decrypted bytes is compared with the hash of the transaction encoded again. And a proposal that was
  processed once is rejected when it is processed again before a block is executed, because the iterator
  over the queue is only reset when a block is executed.
\<close>

theorem prepared_block_rejections:
  assumes "tx_laws (se_tx V)" "bech32_laws (ne_bech32 (se_env V))"
    and "\<forall>k. storage_read (se_env V) (se_ops V) (sh_storage sh) k \<noteq> Panic"
    and "sh_mode sh = Validator" "next_wrapper (sh_queue sh) = 0"
    and "block = proposed_txs (snd (prepare_proposal V clock sh txs))"
  shows "(w \<in> set (wrapper_queue (sh_queue sh)) \<and> \<not> canonical_payload (se_tx V) w \<longrightarrow>
      (\<exists>sh' codes. process_proposal V sh block = Some (sh', False, codes))) \<and>
    (wrapper_queue (sh_queue sh) \<noteq> [] \<longrightarrow>
      (\<exists>sh' accepted codes sh'' codes'. process_proposal V sh block = Some (sh', accepted, codes) \<and>
         process_proposal V sh' block = Some (sh'', False, codes')))"
proof -
  let ?L = "se_tx V" and ?ws = "wrapper_queue (sh_queue sh)"
  let ?sh = "set_queue sh ((sh_queue sh)\<lparr> next_wrapper := length ?ws \<rparr>)"
  have safe: "\<forall>w. get_balance V sh (fee_token (wr_fee w)) (fee_payer ?L w) \<noteq> None"
    using get_balance_total [OF assms(2,1,3)] by blast
  obtain codes where codes: "process_txs V sh block = Some (?sh, codes @ map (decrypted_code ?L) ?ws)"
    using process_prepared [OF assms(1,4,5) safe, of txs clock] by (auto simp: assms(6))
  obtain codes' where codes': "process_txs V ?sh (kept_txs ?L txs) = Some (?sh, codes')"
    using process_kept [of V ?sh "kept_txs ?L txs"] safe by (auto simp: kept_txs_def)
  have again: "process_txs V ?sh block = Some (?sh, codes' @ replicate (length ?ws) CodeExtraTxs)"
    using process_extra_txs [OF assms(1), of ?sh]
    by (simp add: assms(6) proposed_txs_prepare [OF assms(4)] process_txs_append codes')
  show ?thesis
  proof (intro conjI impI)
    assume w: "w \<in> set ?ws \<and> \<not> canonical_payload ?L w"
    then have "list_ex (\<lambda>code. error_code_u32 code > 3) (codes @ map (decrypted_code ?L) ?ws)"
      unfolding list_ex_iff by (intro bexI [of _ "decrypted_code ?L w"]) (simp_all add: decrypted_code_def)
    then show "\<exists>sh' codes. process_proposal V sh block = Some (sh', False, codes)"
      using codes by (simp add: process_proposal_def)
  next
    assume "?ws \<noteq> []"
    then have "list_ex (\<lambda>code. error_code_u32 code > 3) (codes' @ replicate (length ?ws) CodeExtraTxs)"
      by (simp add: list_ex_iff)
    then show "\<exists>sh' accepted codes sh'' codes'. process_proposal V sh block = Some (sh', accepted, codes) \<and>
        process_proposal V sh' block = Some (sh'', False, codes')"
      using codes again by (simp add: process_proposal_def)
  qed
qed

section \<open>An example\<close>

definition example_shell_env ::
  "(unit, (string option \<times> string option) list, string option, (string option \<times> string option) list, nat,
    batch_op list, batch_op list) shell_env" where
  "example_shell_env =
     \<lparr> se_env = example_env, se_ops = rocks_ops example_env example_kv, se_runner = example_runner, se_rayon = Part,
       se_tx = example_tx_lib, se_dec_amount = (\<lambda>_. None) \<rparr>"

definition example_shell :: "(batch_op list, (string option \<times> string option) list, nat) shell" where
  "example_shell =
     \<lparr> sh_storage = (storage_open (example_env :: (_, _, _, _, _, wrapper_tx) node_env) [] ''chain'' 0)
         \<lparr> st_tx_queue := \<lparr> next_wrapper = 0, wrapper_queue = [example_wrapper] \<rparr> \<rparr>,
       sh_gas_meter = block_gas_meter_default, sh_write_log = write_log_default, sh_mode = Validator \<rparr>"

lemma example_shell_read:
  "storage_read (se_env example_shell_env) (se_ops example_shell_env) (sh_storage example_shell) k \<noteq> Panic"
proof -
  have "mt_has_key lib example_smt (merkle_tree_default example_smt) k \<noteq> Panic \<and>
      mt_has_key lib example_smt (merkle_tree_default example_smt) k \<noteq> Ok True" for lib :: "unit bech32_lib"
    by (auto simp: mt_has_key_def merkle_tree_default_def mt_tree_def example_smt_def ok_or_def store_type_sub_key_def
        sub_key_def outcome_simps split: outcome.splits if_splits list.splits db_key_seg.splits address.splits
        internal_address.splits store_type.splits elim!: outcome_bind.elims)
  then show ?thesis
    by (cases "mt_has_key example_bech32 example_smt (merkle_tree_default example_smt) k")
      (auto simp: storage_read_def storage_has_key_def example_shell_env_def example_shell_def example_env_def storage_open_def)
qed

lemma example_shell_laws:
  "tx_laws (se_tx example_shell_env)" "bech32_laws (ne_bech32 (se_env example_shell_env))"
  "sh_mode example_shell = Validator" "next_wrapper (sh_queue example_shell) = 0"
  "wrapper_queue (sh_queue example_shell) = [example_wrapper]"
  "\<forall>w\<in>set (wrapper_queue (sh_queue example_shell)). canonical_payload (se_tx example_shell_env) w"
  by (simp_all add: example_shell_env_def example_shell_def example_tx_laws example_bech32_laws example_canonical)

theorem prepared_block_progress_witness:
  "\<exists>sh' codes. process_proposal example_shell_env example_shell
     (proposed_txs (snd (prepare_proposal example_shell_env id example_shell []))) = Some (sh', True, codes)"
  using prepared_block_progress [OF example_shell_laws(1,2) _ example_shell_laws(3,4,6) refl, of id "[]"] example_shell_read
  by blast

theorem prepared_block_rejections_witness:
  "\<exists>sh' accepted codes sh'' codes'.
     process_proposal example_shell_env example_shell
       (proposed_txs (snd (prepare_proposal example_shell_env id example_shell []))) = Some (sh', accepted, codes) \<and>
     process_proposal example_shell_env sh'
       (proposed_txs (snd (prepare_proposal example_shell_env id example_shell []))) = Some (sh'', False, codes')"
  using prepared_block_rejections [OF example_shell_laws(1,2) _ example_shell_laws(3,4) refl, of _ id "[]"] example_shell_read
    example_shell_laws(5)
  by simp

end
