(* ===== verification/Spec2Isabelle.thy ===== *)
theory Spec2Isabelle
  imports Prelude Pos_Types Epoched Validator_Set Pos_Voting Pos_Bonds Pos_System
    Rust_Strings Gas Address Storage_Types Merkle Db_Types Mock_DB Rocks_DB Storage Write_Log Protocol_Params
    Token Tx_Types Protocol Shell
begin

text \<open>
  A verification development for the ledger of this repository, a proof-of-stake chain over Tendermint
  in Rust. It is a shallow embedding: every function of the sources that is modelled is a HOL function
  over records and datatypes with the fields and constructors of the source, and every error and panic
  is a value (\<^verbatim>\<open>outcome\<close> in \<open>Prelude\<close>: \<open>Ok\<close>, \<open>Err\<close>, \<open>Panic\<close>). Integers are words of their width and wrap
  around, as in a release build; crates outside the repository are parameters with laws.

  \<^bold>\<open>Proof of stake\<close> (\<^verbatim>\<open>proof_of_stake/src\<close>). \<open>Pos_Types\<close> has the parameters and the arithmetic of
  \<^verbatim>\<open>parameters.rs\<close> and \<^verbatim>\<open>types.rs\<close>, with the bound that validation gives and the overflow that it misses.
  \<open>Epoched\<close> is \<^verbatim>\<open>epoched.rs\<close>: data per epoch, for which the operations change exactly the epochs from an
  offset on, proved once in the locales \<open>epoch_data\<close> and \<open>delta_data\<close> and interpreted for the offsets and
  for token changes, bonds and unbonds. \<open>Validator_Set\<close> has \<^verbatim>\<open>btree_set.rs\<close> and the active and inactive
  validators of \<^verbatim>\<open>lib.rs\<close> (\<^verbatim>\<open>update_validator_set\<close> and the genesis set), \<open>Pos_Voting\<close> the voting powers, slashing
  and becoming a validator, \<open>Pos_Bonds\<close> bonding, unbonding and withdrawing. \<open>Pos_System\<close> composes them
  into the methods of the traits \<^verbatim>\<open>PosActions\<close> and \<^verbatim>\<open>PosBase\<close> over a record of the storage, with the step
  relation of the system and the invariant that relates validator sets, voting powers and bonded tokens
  in every epoch after any sequence of operations.

  \<^bold>\<open>Storage\<close> (\<^verbatim>\<open>shared/src/ledger/storage\<close>, \<^verbatim>\<open>shared/src/types\<close>, \<^verbatim>\<open>apps/src/lib/node/ledger/storage\<close>).
  \<open>Rust_Strings\<close> has the string functions of the standard library. \<open>Address\<close> and \<open>Storage_Types\<close> are \<^verbatim>\<open>address.rs\<close>
  and \<^verbatim>\<open>storage.rs\<close>: addresses, keys, the record of epochs and the queue of wrapper transactions, with the
  round trips of their encodings. \<open>Gas\<close> is \<^verbatim>\<open>gas.rs\<close>, with the exact accounting of a block. \<open>Merkle\<close> is
  \<^verbatim>\<open>merkle_tree.rs\<close> over the sparse Merkle tree crate. \<open>Db_Types\<close> has the interface of a database backend,
  the trait \<^verbatim>\<open>DB\<close> of \<^verbatim>\<open>storage/mod.rs\<close>, as a record of operations and the locale \<open>subspace_db\<close> of its laws;
  \<open>Mock_DB\<close> and \<open>Rocks_DB\<close> are the backends \<^verbatim>\<open>mockdb.rs\<close> and \<^verbatim>\<open>rocksdb.rs\<close> and interpret the locale.
  \<open>Storage\<close> is the struct \<^verbatim>\<open>Storage\<close> of \<^verbatim>\<open>storage/mod.rs\<close>, a backend with the Merkle tree and the block data:
  in the locale it is shown to be a map on keys with different leaves of the tree. \<open>Write_Log\<close> is
  \<^verbatim>\<open>write_log.rs\<close>, the changes of transactions above the storage; the log of a block commits exactly the
  accepted transactions, in whatever order its hash map is visited, and every change has a verifier. \<open>Protocol_Params\<close> has \<^verbatim>\<open>ledger/parameters\<close>,
  with what its validity predicate accepts, and the epoch changes of the storage, which follow the parameters.

  \<^bold>\<open>Execution\<close> (\<^verbatim>\<open>shared/src/proto\<close>, \<^verbatim>\<open>shared/src/types\<close>, \<^verbatim>\<open>apps/src/lib/node/ledger\<close>). \<open>Token\<close> and \<open>Tx_Types\<close> are
  \<^verbatim>\<open>token.rs\<close>, \<^verbatim>\<open>proto/types.rs\<close> and \<^verbatim>\<open>types/transaction\<close>: amounts and balance keys, transactions, wrappers with
  encrypted transactions and their classification. \<open>Protocol\<close> is \<^verbatim>\<open>protocol/mod.rs\<close>: a transaction runs on the
  write log, and the validity predicates of the addresses it touched run in parallel; no change of an
  accepted transaction escapes its predicates, whatever the threads do, while the gas does depend on them.
  \<open>Shell\<close> has the requests of \<^verbatim>\<open>shell\<close> that prepare, process, execute and commit a block, with the queue of
  wrappers; prepared blocks are accepted and empty the queue, except in two cases that are proved as well.

  \<^bold>\<open>Parameters.\<close> \<open>bech32_lib\<close>, \<open>smt_lib\<close>, \<open>borsh_lib\<close> and \<open>kv_lib\<close> stand for the crates \<^verbatim>\<open>bech32\<close>,
  \<^verbatim>\<open>sparse_merkle_tree\<close>, \<^verbatim>\<open>borsh\<close> and \<^verbatim>\<open>rocksdb\<close>, with their documented behaviour as the predicates
  \<open>bech32_laws\<close>, \<open>smt_laws\<close>, \<open>borsh_laws\<close> and \<open>kv_laws\<close>; each has an instance that satisfies its laws, which
  the closed examples use; \<open>tx_lib\<close> with \<open>tx_laws\<close> stands for \<^verbatim>\<open>prost\<close>, \<^verbatim>\<open>sha2\<close>, the signature scheme and \<^verbatim>\<open>tpke\<close>, and
  \<open>params_lib\<close> with \<open>params_laws\<close> for the encodings of the protocol parameters and the clock. The
  record \<open>runner\<close> stands for the WASM engine with the guest code that it runs and for the native validity
  predicates, about which nothing is assumed, and a function to \<open>split\<close> for the scheduling of \<^verbatim>\<open>rayon\<close>. The
  required methods of the PoS integration are the record \<open>pos_env\<close>. Hash maps
  are association lists whose order stands for the unspecified order of the map.

  \<^bold>\<open>Bounds and termination.\<close> No definition uses fuel: loops are structural recursions or have a termination
  proof. Theorems about arithmetic state the bounds under which words do not wrap around.

  \<^bold>\<open>Not modelled.\<close> The networking of nodes, gossip and matchmakers, the client, the wallet and the
  configuration are input and output around the ledger. The WASM runtime, IBC and key schemes are
  mostly calls of external crates. Of the shell, the governance proposals, the evidence and the epoch
  changes of a block are left out, as are the other native validity predicates.
  Opening a database and its options, the Merkle proofs for light clients and the printing of errors are
  left out of the components that are modelled.
\<close>

end
